(* ===== verification/VW_Prelude.thy ===== *)
theory VW_Prelude
  imports Main "HOL-Library.Word" "HOL-Library.Monad_Syntax" "HOL-Library.Tree"
begin

unbundle bit_operations_syntax

text \<open>
  Prelude of the Vet-WAF development: the machine integer types of the C code,
  the return codes of \<^verbatim>\<open>src/lib/log.h\<close>, the theorem collections used by the
  component theories, and the generic facts on words, options and search trees
  that several components share.

  Conventions. A value of type \<open>'a option\<close> returned by an operation is \<open>None\<close>
  exactly when the C function does not return: a failed \<^verbatim>\<open>BUG_ON\<close>, a division
  trap, or a loop that never ends.  Everything that the C code reports to its
  caller is an ordinary value.
\<close>

section \<open>Machine integers\<close>

type_synonym u8 = "8 word"
type_synonym u16 = "16 word"
type_synonym u32 = "32 word"
type_synonym u64 = "64 word"

text \<open>Stream identifiers are C \<^verbatim>\<open>unsigned int\<close>s; a pointer to a stream is modelled by its id.\<close>

type_synonym sid = u32

section \<open>Return codes\<close>

text \<open>
  The common and internal codes of \<^verbatim>\<open>src/lib/log.h\<close> and the negative errno
  values used by the modelled functions.  \<open>T_OK\<close> is the zero of C.
\<close>

datatype rc =
    T_OK
  | T_BLOCK_WITH_RST
  | T_BLOCK_WITH_FIN
  | T_BAD
  | T_DROP
  | T_POSTPONE
  | T_COMPRESSION
  | T_BLOCK
  | EINVAL
  | ENOMEM
  | EPIPE
  | EPERM
  | EIO

section \<open>Theorem collections\<close>

named_theorems fsm_defs \<open>definitions of the HTTP/2 stream state machine\<close>
named_theorems sched_defs \<open>definitions of the HTTP/2 priority scheduler\<close>
named_theorems frame_defs \<open>definitions of the HTTP/2 frame layer\<close>
named_theorems frang_defs \<open>definitions of the Frang limits\<close>
named_theorems state_bits \<open>algebra of the packed stream state field\<close>

section \<open>Generic lemmas\<close>

lemma bind_SomeE:
  assumes "Option.bind m f = Some y"
  obtains x where "m = Some x" and "f x = Some y"
  using assms by (cases m) auto

lemma and_zero_bitD:
  fixes k m :: "'a::len word"
  assumes "k AND m = 0"
  shows "\<not> (bit k n \<and> bit m n)"
  using assms by (metis bit_0_eq bit_and_iff bot_apply bot_bool_def)

lemma and_self_bitD:
  fixes v m :: "'a::len word"
  assumes "v AND m = v" and "bit v n"
  shows "bit m n"
  using assms by (metis bit_and_iff)

lemma masked_set_get:
  fixes x v m :: "'a::len word"
  assumes "v AND m = v"
  shows "((x AND NOT m) OR v) AND m = v"
  by (rule bit_word_eqI) (auto simp: bit_simps dest: and_self_bitD [OF assms])

lemma masked_set_other:
  fixes x v m k :: "'a::len word"
  assumes "v AND k = 0" and "k AND m = 0"
  shows "((x AND NOT m) OR v) AND k = x AND k"
  using and_zero_bitD [OF assms(1)] and_zero_bitD [OF assms(2)]
  by (intro bit_word_eqI) (auto simp: bit_simps)

lemma or_and_disjoint:
  fixes x v k :: "'a::len word"
  assumes "v AND k = 0"
  shows "(x OR v) AND k = x AND k"
  using and_zero_bitD [OF assms] by (intro bit_word_eqI) (auto simp: bit_simps)

lemma or_and_self:
  fixes x v :: "'a::len word"
  shows "(x OR v) AND v = v"
  by (rule bit_word_eqI) (auto simp: bit_simps)

section \<open>Runs of a partial step function\<close>

text \<open>
  Several components are step functions that return an outcome and a new state, or
  do not return.  \<open>accepts step ok es s = Some s'\<close> says that the events \<open>es\<close>, fed one
  after the other from \<open>s\<close>, all return with an acceptable outcome and end in \<open>s'\<close>.
\<close>

fun accepts ::
    "('e \<Rightarrow> 's \<Rightarrow> ('o \<times> 's) option) \<Rightarrow> ('o \<Rightarrow> bool) \<Rightarrow> 'e list \<Rightarrow> 's \<Rightarrow> 's option" where
  "accepts step ok [] s = Some s"
| "accepts step ok (e # es) s =
     (case step e s of
        None \<Rightarrow> None
      | Some (out, s') \<Rightarrow> if ok out then accepts step ok es s' else None)"

lemma accepts_ConsE:
  assumes "accepts step ok (e # es) s = Some t"
  obtains out s' where "step e s = Some (out, s')" "ok out" "accepts step ok es s' = Some t"
  using assms by (auto split: option.splits prod.splits if_splits)

lemma accepts_append:
  "accepts step ok (xs @ ys) s = Option.bind (accepts step ok xs s) (accepts step ok ys)"
  by (induction xs arbitrary: s) (auto split: option.splits prod.splits)

locale safe_steps =
  fixes step :: "'e \<Rightarrow> 's \<Rightarrow> ('o \<times> 's) option"
    and ok :: "'o \<Rightarrow> bool"
    and inv :: "'s \<Rightarrow> bool"
  assumes step_inv: "inv s \<Longrightarrow> step e s = Some (out, s') \<Longrightarrow> ok out \<Longrightarrow> inv s'"
begin

lemma run_inv: "inv s \<Longrightarrow> accepts step ok es s = Some t \<Longrightarrow> inv t"
proof (induction es arbitrary: s)
  case (Cons e es)
  from Cons.prems(2) obtain out s' where "step e s = Some (out, s')" "ok out"
    "accepts step ok es s' = Some t" by (rule accepts_ConsE)
  with Cons step_inv show ?case by blast
qed simp

end

locale monotone_steps = safe_steps +
  fixes le :: "'s \<Rightarrow> 's \<Rightarrow> bool"
  assumes le_refl: "le s s"
    and le_trans: "le s t \<Longrightarrow> le t u \<Longrightarrow> le s u"
    and step_le: "inv s \<Longrightarrow> step e s = Some (out, s') \<Longrightarrow> ok out \<Longrightarrow> le s s'"
begin

lemma run_le: "inv s \<Longrightarrow> accepts step ok es s = Some t \<Longrightarrow> le s t"
proof (induction es arbitrary: s)
  case Nil
  then show ?case by (simp add: le_refl)
next
  case (Cons e es)
  from Cons.prems(2) obtain out s' where "step e s = Some (out, s')" "ok out"
    "accepts step ok es s' = Some t" by (rule accepts_ConsE)
  with Cons step_inv step_le le_trans show ?case by blast
qed

end

end
