(* ===== verification/H2_Stream_Fsm.thy ===== *)
theory H2_Stream_Fsm
  imports VW_Prelude
begin

unbundle bit_operations_syntax

text \<open>
  The HTTP/2 stream state machine: \<^verbatim>\<open>tfw_h2_stream_fsm()\<close> of
  \<^verbatim>\<open>src/fw/http_stream.c\<close> with the packed state field and its accessors of
  \<^verbatim>\<open>src/fw/http_stream.h\<close>.

  The machine reads and writes three cells only: the packed state of the stream
  and the two context fields that remember a header block which is still open
  (\<^verbatim>\<open>cur_send_headers\<close>, \<^verbatim>\<open>cur_recv_headers\<close>).  They are the record \<open>fsm_view\<close>;
  what the function only reads is the record \<open>fsm_arg\<close>.  Each \<^verbatim>\<open>case\<close> of the C
  \<^verbatim>\<open>switch\<close> is one definition.  The theory then relates the machine to the
  stream life cycle of RFC 9113 section 5.1, given as an inductive step relation.
\<close>

section \<open>Constants\<close>

subsection \<open>Frame types and flags (\<^verbatim>\<open>http_frame.h\<close>)\<close>

abbreviation (input) HTTP2_DATA :: u8 where "HTTP2_DATA \<equiv> 0"
abbreviation (input) HTTP2_HEADERS :: u8 where "HTTP2_HEADERS \<equiv> 1"
abbreviation (input) HTTP2_PRIORITY :: u8 where "HTTP2_PRIORITY \<equiv> 2"
abbreviation (input) HTTP2_RST_STREAM :: u8 where "HTTP2_RST_STREAM \<equiv> 3"
abbreviation (input) HTTP2_SETTINGS :: u8 where "HTTP2_SETTINGS \<equiv> 4"
abbreviation (input) HTTP2_PUSH_PROMISE :: u8 where "HTTP2_PUSH_PROMISE \<equiv> 5"
abbreviation (input) HTTP2_PING :: u8 where "HTTP2_PING \<equiv> 6"
abbreviation (input) HTTP2_GOAWAY :: u8 where "HTTP2_GOAWAY \<equiv> 7"
abbreviation (input) HTTP2_WINDOW_UPDATE :: u8 where "HTTP2_WINDOW_UPDATE \<equiv> 8"
abbreviation (input) HTTP2_CONTINUATION :: u8 where "HTTP2_CONTINUATION \<equiv> 9"
abbreviation (input) HTTP2_UNDEFINED :: u8 where "HTTP2_UNDEFINED \<equiv> 10"

abbreviation (input) HTTP2_F_ACK :: u8 where "HTTP2_F_ACK \<equiv> 1"
abbreviation (input) HTTP2_F_END_STREAM :: u8 where "HTTP2_F_END_STREAM \<equiv> 1"
abbreviation (input) HTTP2_F_END_HEADERS :: u8 where "HTTP2_F_END_HEADERS \<equiv> 4"
abbreviation (input) HTTP2_F_PADDED :: u8 where "HTTP2_F_PADDED \<equiv> 8"
abbreviation (input) HTTP2_F_PRIORITY :: u8 where "HTTP2_F_PRIORITY \<equiv> 32"

subsection \<open>Stream states (\<^verbatim>\<open>http_stream.h\<close>)\<close>

text \<open>
  The state is kept in the low four bits of a \<^verbatim>\<open>short\<close>; two flag bits above them
  remember an END_STREAM flag that was seen on a HEADERS frame whose header block
  is not finished yet.
\<close>

abbreviation (input) HTTP2_STREAM_IDLE :: u16 where "HTTP2_STREAM_IDLE \<equiv> 0"
abbreviation (input) HTTP2_STREAM_LOC_RESERVED :: u16 where "HTTP2_STREAM_LOC_RESERVED \<equiv> 1"
abbreviation (input) HTTP2_STREAM_REM_RESERVED :: u16 where "HTTP2_STREAM_REM_RESERVED \<equiv> 2"
abbreviation (input) HTTP2_STREAM_OPENED :: u16 where "HTTP2_STREAM_OPENED \<equiv> 3"
abbreviation (input) HTTP2_STREAM_LOC_HALF_CLOSED :: u16 where "HTTP2_STREAM_LOC_HALF_CLOSED \<equiv> 4"
abbreviation (input) HTTP2_STREAM_REM_HALF_CLOSED :: u16 where "HTTP2_STREAM_REM_HALF_CLOSED \<equiv> 5"
abbreviation (input) HTTP2_STREAM_LOC_CLOSED :: u16 where "HTTP2_STREAM_LOC_CLOSED \<equiv> 6"
abbreviation (input) HTTP2_STREAM_CLOSED :: u16 where "HTTP2_STREAM_CLOSED \<equiv> 7"

abbreviation (input) HTTP2_STREAM_STATE_MASK :: u16 where "HTTP2_STREAM_STATE_MASK \<equiv> 15"
abbreviation (input) HTTP2_STREAM_SEND_END_OF_STREAM :: u16 where
  "HTTP2_STREAM_SEND_END_OF_STREAM \<equiv> 16"
abbreviation (input) HTTP2_STREAM_RECV_END_OF_STREAM :: u16 where
  "HTTP2_STREAM_RECV_END_OF_STREAM \<equiv> 32"

datatype TfwStreamFsmRes =
    STREAM_FSM_RES_OK
  | STREAM_FSM_RES_TERM_CONN
  | STREAM_FSM_RES_TERM_STREAM
  | STREAM_FSM_RES_IGNORE

datatype TfwH2Err =
    HTTP2_ECODE_NO_ERROR
  | HTTP2_ECODE_PROTO
  | HTTP2_ECODE_INTERNAL
  | HTTP2_ECODE_FLOW
  | HTTP2_ECODE_SETTINGS_TIMEOUT
  | HTTP2_ECODE_CLOSED
  | HTTP2_ECODE_SIZE
  | HTTP2_ECODE_REFUSED
  | HTTP2_ECODE_CANCEL
  | HTTP2_ECODE_COMPRESSION
  | HTTP2_ECODE_CONNECT
  | HTTP2_ECODE_ENHANCE_YOUR_CALM
  | HTTP2_ECODE_INADEQUATE_SECURITY
  | HTTP2_ECODE_HTTP_1_1_REQUIRED

subsection \<open>The packed state field\<close>

definition tfw_h2_get_stream_state :: "u16 \<Rightarrow> u16" where
  "tfw_h2_get_stream_state st = st AND HTTP2_STREAM_STATE_MASK"

definition tfw_h2_set_stream_state :: "u16 \<Rightarrow> u16 \<Rightarrow> u16" where
  "tfw_h2_set_stream_state v st = (st AND NOT HTTP2_STREAM_STATE_MASK) OR v"

definition tfw_h2_stream_is_eos_sent :: "u16 \<Rightarrow> bool" where
  "tfw_h2_stream_is_eos_sent st \<longleftrightarrow> st AND HTTP2_STREAM_SEND_END_OF_STREAM \<noteq> 0"

definition tfw_h2_stream_is_eos_received :: "u16 \<Rightarrow> bool" where
  "tfw_h2_stream_is_eos_received st \<longleftrightarrow> st AND HTTP2_STREAM_RECV_END_OF_STREAM \<noteq> 0"

definition tfw_h2_strm_req_is_compl :: "u16 \<Rightarrow> bool" where
  "tfw_h2_strm_req_is_compl st \<longleftrightarrow> tfw_h2_get_stream_state st = HTTP2_STREAM_REM_HALF_CLOSED"

definition tfw_h2_stream_is_closed :: "u16 \<Rightarrow> bool" where
  "tfw_h2_stream_is_closed st \<longleftrightarrow> tfw_h2_get_stream_state st = HTTP2_STREAM_CLOSED"

section \<open>The state machine\<close>

text \<open>The cells that the machine writes.\<close>

record fsm_view =
  fv_state :: u16
  fv_send_headers :: "sid option"
  fv_recv_headers :: "sid option"

text \<open>
  What it reads: the stream, the frame type and flags, the direction, and the
  receive-side context fields \<^verbatim>\<open>ctx->plen\<close> and \<^verbatim>\<open>ctx->hdr.flags\<close>.
\<close>

record fsm_arg =
  fa_stream :: sid
  fa_type :: u8
  fa_flags :: u8
  fa_send :: bool
  fa_plen :: u32
  fa_hdr_flags :: u8

type_synonym fsm_out = "TfwStreamFsmRes \<times> TfwH2Err \<times> fsm_view"

definition has_flag :: "u8 \<Rightarrow> u8 \<Rightarrow> bool" where
  "has_flag flags f \<longleftrightarrow> flags AND f \<noteq> 0"

definition SET_STATE :: "u16 \<Rightarrow> fsm_view \<Rightarrow> fsm_view" where
  "SET_STATE st v = v\<lparr>fv_state := tfw_h2_set_stream_state st (fv_state v)\<rparr>"

definition set_eos_received :: "fsm_view \<Rightarrow> fsm_view" where
  "set_eos_received v = v\<lparr>fv_state := fv_state v OR HTTP2_STREAM_RECV_END_OF_STREAM\<rparr>"

definition set_eos_sent :: "fsm_view \<Rightarrow> fsm_view" where
  "set_eos_sent v = v\<lparr>fv_state := fv_state v OR HTTP2_STREAM_SEND_END_OF_STREAM\<rparr>"

text \<open>\<^verbatim>\<open>ctx->cur_##op##_headers\<close>, with \<^verbatim>\<open>op\<close> chosen by the direction.\<close>

definition cur_headers :: "fsm_arg \<Rightarrow> fsm_view \<Rightarrow> sid option" where
  "cur_headers a v = (if fa_send a then fv_send_headers v else fv_recv_headers v)"

definition set_cur_headers :: "fsm_arg \<Rightarrow> sid option \<Rightarrow> fsm_view \<Rightarrow> fsm_view" where
  "set_cur_headers a s v =
     (if fa_send a then v\<lparr>fv_send_headers := s\<rparr> else v\<lparr>fv_recv_headers := s\<rparr>)"

definition tfw_h2_conn_reset_stream_on_close :: "sid \<Rightarrow> fsm_view \<Rightarrow> fsm_view" where
  "tfw_h2_conn_reset_stream_on_close s v =
     v\<lparr>fv_send_headers := (if fv_send_headers v = Some s then None else fv_send_headers v),
       fv_recv_headers := (if fv_recv_headers v = Some s then None else fv_recv_headers v)\<rparr>"

definition TFW_H2_FSM_STREAM_CHECK :: "fsm_arg \<Rightarrow> fsm_view \<Rightarrow> bool" where
  "TFW_H2_FSM_STREAM_CHECK a v \<longleftrightarrow>
     \<not> (cur_headers a v \<noteq> None \<and> cur_headers a v \<noteq> Some (fa_stream a))"

definition TFW_H2_FSM_TYPE_CHECK :: "fsm_arg \<Rightarrow> fsm_view \<Rightarrow> bool" where
  "TFW_H2_FSM_TYPE_CHECK a v \<longleftrightarrow>
     \<not> ((cur_headers a v \<noteq> None
         \<and> fa_type a \<noteq> HTTP2_CONTINUATION \<and> fa_type a \<noteq> HTTP2_RST_STREAM)
        \<or> (cur_headers a v = None \<and> fa_type a = HTTP2_CONTINUATION))"

text \<open>\<^verbatim>\<open>case HTTP2_STREAM_IDLE\<close>; \<^verbatim>\<open>BUG_ON(send)\<close> is the result \<open>None\<close>.\<close>

definition fsm_idle :: "fsm_arg \<Rightarrow> TfwH2Err \<Rightarrow> fsm_view \<Rightarrow> fsm_out option" where
  "fsm_idle a err v =
     (if fa_send a then None
      else if fa_type a = HTTP2_RST_STREAM then
        Some (STREAM_FSM_RES_TERM_CONN, HTTP2_ECODE_PROTO, v)
      else if fa_type a = HTTP2_HEADERS then
        Some (STREAM_FSM_RES_OK, err,
          let f = fa_flags a AND (HTTP2_F_END_HEADERS OR HTTP2_F_END_STREAM) in
          if f = HTTP2_F_END_HEADERS OR HTTP2_F_END_STREAM then
            SET_STATE HTTP2_STREAM_REM_HALF_CLOSED v
          else if f = HTTP2_F_END_HEADERS then
            SET_STATE HTTP2_STREAM_OPENED v
          else if f = HTTP2_F_END_STREAM then
            SET_STATE HTTP2_STREAM_OPENED
              (set_eos_received (v\<lparr>fv_recv_headers := Some (fa_stream a)\<rparr>))
          else
            (SET_STATE HTTP2_STREAM_OPENED v)\<lparr>fv_recv_headers := Some (fa_stream a)\<rparr>)
      else if fa_type a \<noteq> HTTP2_PRIORITY then
        Some (STREAM_FSM_RES_TERM_CONN, HTTP2_ECODE_PROTO, v)
      else Some (STREAM_FSM_RES_OK, err, v))"

text \<open>\<^verbatim>\<open>case HTTP2_STREAM_OPENED\<close>, one definition per frame type.\<close>

definition fsm_opened_cont :: "fsm_arg \<Rightarrow> TfwH2Err \<Rightarrow> fsm_view \<Rightarrow> fsm_out" where
  "fsm_opened_cont a err v =
     (if cur_headers a v \<noteq> None \<and> \<not> has_flag (fa_flags a) HTTP2_F_END_HEADERS
         \<and> fa_plen a = 0 then
        (STREAM_FSM_RES_TERM_CONN, HTTP2_ECODE_PROTO, v)
      else if has_flag (fa_flags a) HTTP2_F_END_HEADERS then
        (STREAM_FSM_RES_OK, err,
          if fa_send a then
            (let v' = v\<lparr>fv_send_headers := None\<rparr> in
             if tfw_h2_stream_is_eos_sent (fv_state v')
             then SET_STATE HTTP2_STREAM_LOC_HALF_CLOSED v' else v')
          else
            (let v' = v\<lparr>fv_recv_headers := None\<rparr> in
             if tfw_h2_stream_is_eos_received (fv_state v')
             then SET_STATE HTTP2_STREAM_REM_HALF_CLOSED v' else v'))
      else (STREAM_FSM_RES_OK, err, set_cur_headers a (Some (fa_stream a)) v))"

definition fsm_opened_headers :: "fsm_arg \<Rightarrow> TfwH2Err \<Rightarrow> fsm_view \<Rightarrow> fsm_out" where
  "fsm_opened_headers a err v =
     (STREAM_FSM_RES_OK, err,
       if has_flag (fa_flags a) HTTP2_F_END_HEADERS
          \<and> has_flag (fa_flags a) HTTP2_F_END_STREAM then
         (if fa_send a then
            SET_STATE HTTP2_STREAM_LOC_HALF_CLOSED (v\<lparr>fv_send_headers := None\<rparr>)
          else
            SET_STATE HTTP2_STREAM_REM_HALF_CLOSED
              (set_eos_received (v\<lparr>fv_recv_headers := None\<rparr>)))
       else if has_flag (fa_flags a) HTTP2_F_END_STREAM then
         (if fa_send a then set_eos_sent (v\<lparr>fv_send_headers := Some (fa_stream a)\<rparr>)
          else set_eos_received (v\<lparr>fv_recv_headers := Some (fa_stream a)\<rparr>))
       else set_cur_headers a (Some (fa_stream a)) v)"

definition fsm_opened_data :: "fsm_arg \<Rightarrow> TfwH2Err \<Rightarrow> fsm_view \<Rightarrow> fsm_out" where
  "fsm_opened_data a err v =
     (if fa_plen a = 0 \<and> \<not> has_flag (fa_hdr_flags a) HTTP2_F_END_STREAM then
        (STREAM_FSM_RES_TERM_CONN, HTTP2_ECODE_PROTO, v)
      else if has_flag (fa_flags a) HTTP2_F_END_STREAM then
        (STREAM_FSM_RES_OK, err,
          SET_STATE (if fa_send a then HTTP2_STREAM_LOC_HALF_CLOSED
                     else HTTP2_STREAM_REM_HALF_CLOSED) v)
      else (STREAM_FSM_RES_OK, err, v))"

definition fsm_opened :: "fsm_arg \<Rightarrow> TfwH2Err \<Rightarrow> fsm_view \<Rightarrow> fsm_out" where
  "fsm_opened a err v =
     (if fa_type a = HTTP2_RST_STREAM then
        (STREAM_FSM_RES_OK, err,
          SET_STATE (if fa_send a then HTTP2_STREAM_LOC_CLOSED else HTTP2_STREAM_CLOSED) v)
      else if fa_type a = HTTP2_CONTINUATION then fsm_opened_cont a err v
      else if fa_type a = HTTP2_HEADERS then fsm_opened_headers a err v
      else if fa_type a = HTTP2_DATA then fsm_opened_data a err v
      else (STREAM_FSM_RES_OK, err, v))"

text \<open>\<^verbatim>\<open>case HTTP2_STREAM_LOC_HALF_CLOSED\<close>.\<close>

definition fsm_loc_half_closed :: "fsm_arg \<Rightarrow> TfwH2Err \<Rightarrow> fsm_view \<Rightarrow> fsm_out" where
  "fsm_loc_half_closed a err v =
     (if \<not> fa_send a then
        (STREAM_FSM_RES_OK, err,
          if fa_type a = HTTP2_RST_STREAM then SET_STATE HTTP2_STREAM_CLOSED v
          else if fa_type a = HTTP2_HEADERS \<or> fa_type a = HTTP2_CONTINUATION then
            (let f = fa_flags a AND (HTTP2_F_END_HEADERS OR HTTP2_F_END_STREAM) in
             if f = HTTP2_F_END_HEADERS OR HTTP2_F_END_STREAM then
               SET_STATE HTTP2_STREAM_CLOSED (v\<lparr>fv_recv_headers := None\<rparr>)
             else if f = HTTP2_F_END_HEADERS then v\<lparr>fv_recv_headers := None\<rparr>
             else if f = HTTP2_F_END_STREAM then
               set_eos_received (v\<lparr>fv_recv_headers := Some (fa_stream a)\<rparr>)
             else v\<lparr>fv_recv_headers := Some (fa_stream a)\<rparr>)
          else if fa_type a = HTTP2_DATA \<and> has_flag (fa_flags a) HTTP2_F_END_STREAM then
            SET_STATE HTTP2_STREAM_CLOSED v
          else v)
      else if fa_type a = HTTP2_RST_STREAM then
        (STREAM_FSM_RES_OK, err, SET_STATE HTTP2_STREAM_LOC_CLOSED v)
      else if fa_type a \<noteq> HTTP2_PRIORITY \<and> fa_type a \<noteq> HTTP2_WINDOW_UPDATE then
        (STREAM_FSM_RES_IGNORE, err, v)
      else (STREAM_FSM_RES_OK, err, v))"

text \<open>\<^verbatim>\<open>case HTTP2_STREAM_REM_HALF_CLOSED\<close>.\<close>

definition fsm_rem_half_closed :: "fsm_arg \<Rightarrow> TfwH2Err \<Rightarrow> fsm_view \<Rightarrow> fsm_out" where
  "fsm_rem_half_closed a err v =
     (if fa_send a then
        (STREAM_FSM_RES_OK, err,
          if fa_type a = HTTP2_HEADERS \<or> fa_type a = HTTP2_CONTINUATION then
            (let f = fa_flags a AND (HTTP2_F_END_HEADERS OR HTTP2_F_END_STREAM) in
             if f = HTTP2_F_END_STREAM then
               set_eos_sent (v\<lparr>fv_send_headers := Some (fa_stream a)\<rparr>)
             else if f = HTTP2_F_END_HEADERS OR HTTP2_F_END_STREAM then
               SET_STATE HTTP2_STREAM_CLOSED (v\<lparr>fv_send_headers := None\<rparr>)
             else if f = HTTP2_F_END_HEADERS then v\<lparr>fv_send_headers := None\<rparr>
             else v\<lparr>fv_send_headers := Some (fa_stream a)\<rparr>)
          else if fa_type a = HTTP2_DATA then
            (if has_flag (fa_flags a) HTTP2_F_END_STREAM
             then SET_STATE HTTP2_STREAM_CLOSED v else v)
          else if fa_type a = HTTP2_RST_STREAM then SET_STATE HTTP2_STREAM_CLOSED v
          else v)
      else if fa_type a = HTTP2_RST_STREAM then
        (STREAM_FSM_RES_OK, err, SET_STATE HTTP2_STREAM_CLOSED v)
      else if fa_type a \<noteq> HTTP2_PRIORITY \<and> fa_type a \<noteq> HTTP2_WINDOW_UPDATE then
        (STREAM_FSM_RES_TERM_STREAM, HTTP2_ECODE_CLOSED, SET_STATE HTTP2_STREAM_CLOSED v)
      else (STREAM_FSM_RES_OK, err, v))"

text \<open>\<^verbatim>\<open>case HTTP2_STREAM_LOC_CLOSED\<close> and \<^verbatim>\<open>case HTTP2_STREAM_CLOSED\<close>.\<close>

definition fsm_loc_closed :: "fsm_arg \<Rightarrow> TfwH2Err \<Rightarrow> fsm_view \<Rightarrow> fsm_out" where
  "fsm_loc_closed a err v =
     (if fa_send a then (STREAM_FSM_RES_IGNORE, err, v)
      else if fa_type a = HTTP2_RST_STREAM then
        (STREAM_FSM_RES_OK, err, SET_STATE HTTP2_STREAM_CLOSED v)
      else if fa_type a \<noteq> HTTP2_WINDOW_UPDATE then (STREAM_FSM_RES_IGNORE, err, v)
      else (STREAM_FSM_RES_OK, err, v))"

definition fsm_closed :: "fsm_arg \<Rightarrow> TfwH2Err \<Rightarrow> fsm_view \<Rightarrow> fsm_out" where
  "fsm_closed a err v =
     (if fa_send a then (STREAM_FSM_RES_IGNORE, err, v)
      else if fa_type a \<noteq> HTTP2_PRIORITY then
        (STREAM_FSM_RES_TERM_CONN, HTTP2_ECODE_PROTO, v)
      else (STREAM_FSM_RES_OK, err, v))"

text \<open>The \<^verbatim>\<open>switch\<close>; the reserved states and the default are \<^verbatim>\<open>BUG()\<close>.\<close>

definition fsm_switch :: "fsm_arg \<Rightarrow> TfwH2Err \<Rightarrow> fsm_view \<Rightarrow> fsm_out option" where
  "fsm_switch a err v =
     (let st = tfw_h2_get_stream_state (fv_state v) in
      if st = HTTP2_STREAM_IDLE then fsm_idle a err v
      else if st = HTTP2_STREAM_OPENED then Some (fsm_opened a err v)
      else if st = HTTP2_STREAM_LOC_HALF_CLOSED then Some (fsm_loc_half_closed a err v)
      else if st = HTTP2_STREAM_REM_HALF_CLOSED then Some (fsm_rem_half_closed a err v)
      else if st = HTTP2_STREAM_LOC_CLOSED then Some (fsm_loc_closed a err v)
      else if st = HTTP2_STREAM_CLOSED then Some (fsm_closed a err v)
      else None)"

text \<open>The label \<^verbatim>\<open>finish\<close>.\<close>

definition fsm_finish :: "fsm_arg \<Rightarrow> fsm_out \<Rightarrow> fsm_out" where
  "fsm_finish a out =
     (case out of (res, err, v) \<Rightarrow>
        (res, err,
          if fa_type a = HTTP2_RST_STREAM \<or> res = STREAM_FSM_RES_TERM_STREAM
          then tfw_h2_conn_reset_stream_on_close (fa_stream a) v else v))"

definition tfw_h2_stream_fsm :: "fsm_arg \<Rightarrow> TfwH2Err \<Rightarrow> fsm_view \<Rightarrow> fsm_out option" where
  "tfw_h2_stream_fsm a err v =
     (if \<not> TFW_H2_FSM_STREAM_CHECK a v \<or> \<not> TFW_H2_FSM_TYPE_CHECK a v then
        Some (fsm_finish a (STREAM_FSM_RES_TERM_CONN, HTTP2_ECODE_PROTO, v))
      else map_option (fsm_finish a) (fsm_switch a err v))"


lemmas fsm_branches [fsm_defs] =
  tfw_h2_stream_fsm_def fsm_switch_def fsm_finish_def Let_def
  fsm_idle_def fsm_opened_def fsm_opened_cont_def fsm_opened_headers_def fsm_opened_data_def
  fsm_loc_half_closed_def fsm_rem_half_closed_def fsm_loc_closed_def fsm_closed_def
  tfw_h2_conn_reset_stream_on_close_def set_cur_headers_def

section \<open>The packed state field as three independent cells\<close>

definition stream_state_valid :: "u16 \<Rightarrow> bool" where
  "stream_state_valid st \<longleftrightarrow> tfw_h2_get_stream_state st \<in>
     {HTTP2_STREAM_IDLE, HTTP2_STREAM_OPENED, HTTP2_STREAM_LOC_HALF_CLOSED,
      HTTP2_STREAM_REM_HALF_CLOSED, HTTP2_STREAM_LOC_CLOSED, HTTP2_STREAM_CLOSED}"

lemma get_set_state [state_bits]:
  "v AND 15 = v \<Longrightarrow> tfw_h2_get_stream_state (tfw_h2_set_stream_state v st) = v"
  unfolding tfw_h2_get_stream_state_def tfw_h2_set_stream_state_def by (rule masked_set_get)

lemma eos_sent_set_state [state_bits]:
  "v AND 16 = 0 \<Longrightarrow>
   tfw_h2_stream_is_eos_sent (tfw_h2_set_stream_state v st) = tfw_h2_stream_is_eos_sent st"
  unfolding tfw_h2_stream_is_eos_sent_def tfw_h2_set_stream_state_def
  by (subst masked_set_other) simp_all

lemma eos_received_set_state [state_bits]:
  "v AND 32 = 0 \<Longrightarrow>
   tfw_h2_stream_is_eos_received (tfw_h2_set_stream_state v st)
     = tfw_h2_stream_is_eos_received st"
  unfolding tfw_h2_stream_is_eos_received_def tfw_h2_set_stream_state_def
  by (subst masked_set_other) simp_all

lemma get_state_or_flag [state_bits]:
  "tfw_h2_get_stream_state (st OR 16) = tfw_h2_get_stream_state st"
  "tfw_h2_get_stream_state (st OR 32) = tfw_h2_get_stream_state st"
  by (simp_all add: tfw_h2_get_stream_state_def or_and_disjoint)

lemma eos_or_flag [state_bits]:
  "tfw_h2_stream_is_eos_sent (st OR 16)"
  "tfw_h2_stream_is_eos_received (st OR 32)"
  "tfw_h2_stream_is_eos_sent (st OR 32) = tfw_h2_stream_is_eos_sent st"
  "tfw_h2_stream_is_eos_received (st OR 16) = tfw_h2_stream_is_eos_received st"
  by (simp_all add: tfw_h2_stream_is_eos_sent_def tfw_h2_stream_is_eos_received_def
      or_and_disjoint or_and_self)

text \<open>The two flag bits that the machine tests, read off the flags byte.\<close>

lemma bit_of_5: "bit (5 :: int) n \<longleftrightarrow> n = 0 \<or> n = 2"
  by (cases n; cases "n - 1"; cases "n - 2") (simp_all add: bit_Suc)

lemma bit_of_4: "bit (4 :: int) n \<longleftrightarrow> n = 2"
  by (cases n; cases "n - 1"; cases "n - 2") (simp_all add: bit_Suc)

lemma has_flag_bit [state_bits]:
  "has_flag f 1 \<longleftrightarrow> bit f 0" "has_flag f 4 \<longleftrightarrow> bit f 2"
  using and_exp_eq_0_iff_not_bit [of f 0] and_exp_eq_0_iff_not_bit [of f 2]
  by (simp_all add: has_flag_def)

lemma end_flags_bits:
  "f AND (5 :: u8) = (if bit f 2 then if bit f 0 then 5 else 4 else if bit f 0 then 1 else 0)"
  by (rule bit_word_eqI) (auto simp: bit_and_iff bit_of_5 bit_of_4 bit_1_iff intro: gr0I)

section \<open>All streams of a connection\<close>

text \<open>
  The machine runs over the streams of one connection, which share the two
  header block cells.  \<open>fsm_conn_step\<close> runs one frame on the stream it belongs
  to; \<open>fsm_reach\<close> are the states of a connection that starts from idle streams and
  has not been terminated: every caller gives the connection up on
  \<^verbatim>\<open>STREAM_FSM_RES_TERM_CONN\<close>.
\<close>

record fsm_conn =
  fc_state :: "sid \<Rightarrow> u16"
  fc_send_headers :: "sid option"
  fc_recv_headers :: "sid option"

definition fsm_conn_init :: fsm_conn where
  "fsm_conn_init =
     \<lparr>fc_state = (\<lambda>_. HTTP2_STREAM_IDLE), fc_send_headers = None, fc_recv_headers = None\<rparr>"

definition fsm_view_of :: "fsm_conn \<Rightarrow> sid \<Rightarrow> fsm_view" where
  "fsm_view_of c s =
     \<lparr>fv_state = fc_state c s, fv_send_headers = fc_send_headers c,
      fv_recv_headers = fc_recv_headers c\<rparr>"

definition fsm_put_view :: "sid \<Rightarrow> fsm_view \<Rightarrow> fsm_conn \<Rightarrow> fsm_conn" where
  "fsm_put_view s v c =
     \<lparr>fc_state = (fc_state c)(s := fv_state v), fc_send_headers = fv_send_headers v,
      fc_recv_headers = fv_recv_headers v\<rparr>"

definition fsm_conn_step ::
    "fsm_arg \<Rightarrow> fsm_conn \<Rightarrow> (TfwStreamFsmRes \<times> TfwH2Err \<times> fsm_conn) option" where
  "fsm_conn_step a c =
     map_option (\<lambda>(res, err, v). (res, err, fsm_put_view (fa_stream a) v c))
       (tfw_h2_stream_fsm a HTTP2_ECODE_NO_ERROR (fsm_view_of c (fa_stream a)))"

inductive fsm_reach :: "fsm_conn \<Rightarrow> bool" where
  init: "fsm_reach fsm_conn_init"
| step: "fsm_reach c \<Longrightarrow> fsm_conn_step a c = Some (res, err, c') \<Longrightarrow>
    res \<noteq> STREAM_FSM_RES_TERM_CONN \<Longrightarrow> fsm_reach c'"

text \<open>
  The invariant of the machine.  A flag bit that is set while the stream is still
  OPENED means that the header block which carried END_STREAM is still open; a
  header block is open on a stream only while the stream may still use that
  direction, so closed streams are never referenced by the two cells.
\<close>

definition fsm_view_inv :: "sid \<Rightarrow> fsm_view \<Rightarrow> bool" where
  "fsm_view_inv s v \<longleftrightarrow>
     (let st = tfw_h2_get_stream_state (fv_state v);
          snt = tfw_h2_stream_is_eos_sent (fv_state v);
          rcv = tfw_h2_stream_is_eos_received (fv_state v) in
      stream_state_valid (fv_state v)
      \<and> (st = HTTP2_STREAM_IDLE \<longrightarrow> \<not> snt \<and> \<not> rcv)
      \<and> (st = HTTP2_STREAM_OPENED \<and> snt \<longrightarrow> fv_send_headers v = Some s)
      \<and> (st = HTTP2_STREAM_OPENED \<and> rcv \<longrightarrow> fv_recv_headers v = Some s)
      \<and> (fv_send_headers v = Some s \<longrightarrow>
           st = HTTP2_STREAM_OPENED \<or> st = HTTP2_STREAM_REM_HALF_CLOSED)
      \<and> (fv_recv_headers v = Some s \<longrightarrow>
           st = HTTP2_STREAM_OPENED \<or> st = HTTP2_STREAM_LOC_HALF_CLOSED))"

lemmas fsm_simps =
  fsm_branches TFW_H2_FSM_STREAM_CHECK_def TFW_H2_FSM_TYPE_CHECK_def cur_headers_def
  SET_STATE_def set_eos_received_def set_eos_sent_def state_bits end_flags_bits

text \<open>
  Each state of the \<^verbatim>\<open>switch\<close> is treated alone; \<open>fsm_cases\<close> glues them together.
\<close>

definition fsm_checks :: "fsm_arg \<Rightarrow> fsm_view \<Rightarrow> bool" where
  "fsm_checks a v \<longleftrightarrow> TFW_H2_FSM_STREAM_CHECK a v \<and> TFW_H2_FSM_TYPE_CHECK a v"

lemma fsm_cases [consumes 1, case_names reject idle opened loc_half rem_half loc_closed closed]:
  assumes "tfw_h2_stream_fsm a err v = Some out"
    and "\<not> fsm_checks a v \<Longrightarrow>
      out = fsm_finish a (STREAM_FSM_RES_TERM_CONN, HTTP2_ECODE_PROTO, v) \<Longrightarrow> P"
    and "\<And>w. fsm_checks a v \<Longrightarrow> tfw_h2_get_stream_state (fv_state v) = HTTP2_STREAM_IDLE \<Longrightarrow>
      fsm_idle a err v = Some w \<Longrightarrow> out = fsm_finish a w \<Longrightarrow> P"
    and "fsm_checks a v \<Longrightarrow> tfw_h2_get_stream_state (fv_state v) = HTTP2_STREAM_OPENED \<Longrightarrow>
      out = fsm_finish a (fsm_opened a err v) \<Longrightarrow> P"
    and "fsm_checks a v \<Longrightarrow> tfw_h2_get_stream_state (fv_state v) = HTTP2_STREAM_LOC_HALF_CLOSED \<Longrightarrow>
      out = fsm_finish a (fsm_loc_half_closed a err v) \<Longrightarrow> P"
    and "fsm_checks a v \<Longrightarrow> tfw_h2_get_stream_state (fv_state v) = HTTP2_STREAM_REM_HALF_CLOSED \<Longrightarrow>
      out = fsm_finish a (fsm_rem_half_closed a err v) \<Longrightarrow> P"
    and "fsm_checks a v \<Longrightarrow> tfw_h2_get_stream_state (fv_state v) = HTTP2_STREAM_LOC_CLOSED \<Longrightarrow>
      out = fsm_finish a (fsm_loc_closed a err v) \<Longrightarrow> P"
    and "fsm_checks a v \<Longrightarrow> tfw_h2_get_stream_state (fv_state v) = HTTP2_STREAM_CLOSED \<Longrightarrow>
      out = fsm_finish a (fsm_closed a err v) \<Longrightarrow> P"
  shows P
proof (cases "fsm_checks a v")
  case False
  then show ?thesis
    using assms(1,2) by (auto simp: tfw_h2_stream_fsm_def fsm_checks_def)
next
  case True
  with assms(1) obtain w where w: "fsm_switch a err v = Some w" "out = fsm_finish a w"
    by (auto simp: tfw_h2_stream_fsm_def fsm_checks_def)
  from True assms(3-) w show ?thesis
    unfolding fsm_switch_def Let_def by (metis option.distinct(1) option.inject)
qed

text \<open>
  A frame passes the two checks in exactly two situations: no header block is open
  in its direction and it is not a CONTINUATION, or its own stream has the open
  header block and the frame is a CONTINUATION or RST_STREAM.
\<close>

lemma fsm_checks_cases [consumes 1, case_names free cont rst]:
  assumes "fsm_checks a v"
  obtains "cur_headers a v = None" "fa_type a \<noteq> HTTP2_CONTINUATION"
  | "cur_headers a v = Some (fa_stream a)" "fa_type a = HTTP2_CONTINUATION"
  | "cur_headers a v = Some (fa_stream a)" "fa_type a = HTTP2_RST_STREAM"
  using assms
  unfolding fsm_checks_def TFW_H2_FSM_STREAM_CHECK_def TFW_H2_FSM_TYPE_CHECK_def
  by (cases "cur_headers a v = None") auto

definition out_view :: "fsm_out \<Rightarrow> fsm_view" where
  "out_view out = snd (snd out)"

lemmas fsm_inv_simps = fsm_view_inv_def fsm_simps stream_state_valid_def out_view_def

lemma inv_idle:
  assumes "fsm_view_inv (fa_stream a) v" "fsm_checks a v"
    and "tfw_h2_get_stream_state (fv_state v) = HTTP2_STREAM_IDLE"
    and "fsm_idle a err v = Some w"
  shows "fsm_view_inv (fa_stream a) (out_view (fsm_finish a w))"
  using assms(2,1,3,4)
  by (cases rule: fsm_checks_cases; cases "fa_send a")
     (auto simp: fsm_inv_simps split: if_splits)

lemma inv_opened:
  assumes "fsm_view_inv (fa_stream a) v" "fsm_checks a v"
    and "tfw_h2_get_stream_state (fv_state v) = HTTP2_STREAM_OPENED"
  shows "fsm_view_inv (fa_stream a) (out_view (fsm_finish a (fsm_opened a err v)))"
  using assms(2,1,3)
  by (cases rule: fsm_checks_cases; cases "fa_send a") (simp_all add: fsm_inv_simps)

lemma inv_loc_half_closed:
  assumes "fsm_view_inv (fa_stream a) v" "fsm_checks a v"
    and "tfw_h2_get_stream_state (fv_state v) = HTTP2_STREAM_LOC_HALF_CLOSED"
  shows "fsm_view_inv (fa_stream a) (out_view (fsm_finish a (fsm_loc_half_closed a err v)))"
  using assms(2,1,3)
  by (cases rule: fsm_checks_cases; cases "fa_send a") (simp_all add: fsm_inv_simps)

lemma inv_rem_half_closed:
  assumes "fsm_view_inv (fa_stream a) v" "fsm_checks a v"
    and "tfw_h2_get_stream_state (fv_state v) = HTTP2_STREAM_REM_HALF_CLOSED"
  shows "fsm_view_inv (fa_stream a) (out_view (fsm_finish a (fsm_rem_half_closed a err v)))"
  using assms(2,1,3)
  by (cases rule: fsm_checks_cases; cases "fa_send a") (simp_all add: fsm_inv_simps)

lemma inv_closed:
  assumes "fsm_view_inv (fa_stream a) v"
    and "tfw_h2_get_stream_state (fv_state v) \<in> {HTTP2_STREAM_LOC_CLOSED, HTTP2_STREAM_CLOSED}"
  shows "fsm_view_inv (fa_stream a) (out_view (fsm_finish a (fsm_loc_closed a err v)))"
    and "fsm_view_inv (fa_stream a) (out_view (fsm_finish a (fsm_closed a err v)))"
  using assms by (auto simp: fsm_inv_simps)

lemma fsm_finish_fst [simp]: "fst (fsm_finish a w) = fst w"
  by (simp add: fsm_finish_def split: prod.splits)

lemma fsm_finish_state [simp]: "fv_state (out_view (fsm_finish a w)) = fv_state (out_view w)"
  by (simp add: fsm_finish_def out_view_def tfw_h2_conn_reset_stream_on_close_def
      split: prod.splits)

lemma fsm_view_inv_step:
  assumes "fsm_view_inv (fa_stream a) v"
    and "tfw_h2_stream_fsm a err v = Some out" and "fst out \<noteq> STREAM_FSM_RES_TERM_CONN"
  shows "fsm_view_inv (fa_stream a) (out_view out)"
  using assms(2)
proof (cases rule: fsm_cases)
  case reject
  with assms(3) show ?thesis by simp
qed (use assms(1) in \<open>auto intro: inv_idle inv_opened inv_loc_half_closed
       inv_rem_half_closed inv_closed\<close>)

text \<open>
  A step of one stream leaves the invariant of every other stream alone: the cells
  are only given to, or taken from, the stream that makes the step.
\<close>

definition cells_kept :: "sid \<Rightarrow> fsm_view \<Rightarrow> fsm_view \<Rightarrow> bool" where
  "cells_kept s v w \<longleftrightarrow>
     (\<forall>t. t \<noteq> s \<longrightarrow> (fv_send_headers w = Some t \<longleftrightarrow> fv_send_headers v = Some t)
        \<and> (fv_recv_headers w = Some t \<longleftrightarrow> fv_recv_headers v = Some t))"

lemma cells_kept_idle:
  assumes "fsm_checks a v" and "fsm_idle a err v = Some w"
  shows "cells_kept (fa_stream a) v (out_view (fsm_finish a w))"
  using assms
  by (cases rule: fsm_checks_cases; cases "fa_send a")
     (auto simp: cells_kept_def fsm_simps out_view_def split: if_splits)

lemma cells_kept_handlers:
  assumes "fsm_checks a v"
  shows "cells_kept (fa_stream a) v (out_view (fsm_finish a (fsm_opened a err v)))"
    and "cells_kept (fa_stream a) v (out_view (fsm_finish a (fsm_loc_half_closed a err v)))"
    and "cells_kept (fa_stream a) v (out_view (fsm_finish a (fsm_rem_half_closed a err v)))"
    and "cells_kept (fa_stream a) v (out_view (fsm_finish a (fsm_loc_closed a err v)))"
    and "cells_kept (fa_stream a) v (out_view (fsm_finish a (fsm_closed a err v)))"
  using assms
  by (cases rule: fsm_checks_cases; cases "fa_send a";
      simp add: cells_kept_def fsm_simps out_view_def)+

lemma cells_kept_step:
  assumes "tfw_h2_stream_fsm a err v = Some out" and "fst out \<noteq> STREAM_FSM_RES_TERM_CONN"
  shows "cells_kept (fa_stream a) v (out_view out)"
  using assms(1)
proof (cases rule: fsm_cases)
  case reject
  with assms(2) show ?thesis by simp
qed (auto intro: cells_kept_idle cells_kept_handlers)

definition fsm_conn_inv :: "fsm_conn \<Rightarrow> bool" where
  "fsm_conn_inv c \<longleftrightarrow> (\<forall>s. fsm_view_inv s (fsm_view_of c s))"

lemma fsm_conn_stepE:
  assumes "fsm_conn_step a c = Some (res, err, c')"
  obtains v where
    "tfw_h2_stream_fsm a HTTP2_ECODE_NO_ERROR (fsm_view_of c (fa_stream a)) = Some (res, err, v)"
    and "c' = fsm_put_view (fa_stream a) v c"
  using assms by (auto simp: fsm_conn_step_def)

lemma fsm_view_of_put:
  "fsm_view_of (fsm_put_view s v c) s = v"
  "t \<noteq> s \<Longrightarrow> fsm_view_of (fsm_put_view s v c) t = v\<lparr>fv_state := fc_state c t\<rparr>"
  by (simp_all add: fsm_view_of_def fsm_put_view_def)

lemma fsm_view_inv_cong:
  assumes "fsm_view_inv t v" and "fv_state w = fv_state v"
    and "fv_send_headers w = Some t \<longleftrightarrow> fv_send_headers v = Some t"
    and "fv_recv_headers w = Some t \<longleftrightarrow> fv_recv_headers v = Some t"
  shows "fsm_view_inv t w"
  using assms by (simp add: fsm_view_inv_def)

lemma fsm_conn_inv_step:
  assumes inv: "fsm_conn_inv c" and st: "fsm_conn_step a c = Some (res, err, c')"
    and ok: "res \<noteq> STREAM_FSM_RES_TERM_CONN"
  shows "fsm_conn_inv c'"
  unfolding fsm_conn_inv_def
proof
  fix s
  from st obtain v where v: "c' = fsm_put_view (fa_stream a) v c"
    "tfw_h2_stream_fsm a HTTP2_ECODE_NO_ERROR (fsm_view_of c (fa_stream a)) = Some (res, err, v)"
    by (rule fsm_conn_stepE)
  have inv_s: "fsm_view_inv s (fsm_view_of c s)"
    using inv by (simp add: fsm_conn_inv_def)
  show "fsm_view_inv s (fsm_view_of c' s)"
  proof (cases "s = fa_stream a")
    case True
    then show ?thesis
      using fsm_view_inv_step [OF _ v(2)] inv_s ok v(1)
      by (simp add: fsm_view_of_put out_view_def)
  next
    case False
    then show ?thesis
      using cells_kept_step [OF v(2)] ok v(1)
      by (intro fsm_view_inv_cong [OF inv_s])
         (simp_all add: cells_kept_def out_view_def fsm_view_of_def fsm_put_view_def)
  qed
qed

lemma fsm_reach_inv: "fsm_reach c \<Longrightarrow> fsm_conn_inv c"
proof (induction rule: fsm_reach.induct)
  case init
  show ?case
    by (simp add: fsm_conn_inv_def fsm_view_inv_def fsm_view_of_def fsm_conn_init_def
        stream_state_valid_def tfw_h2_get_stream_state_def tfw_h2_stream_is_eos_sent_def
        tfw_h2_stream_is_eos_received_def)
qed (rule fsm_conn_inv_step)

section \<open>The stream life cycle of RFC 9113\<close>

text \<open>
  The states of section 5.1 seen by a server, and the transitions caused by a frame
  of type \<open>ty\<close>, sent or received (\<open>snt\<close>), with or without END_STREAM (\<open>es\<close>).
  END_STREAM has a meaning on DATA and HEADERS only.
\<close>

datatype rfc_state = Rfc_Idle | Rfc_Open | Rfc_Half_Closed_Local | Rfc_Half_Closed_Remote | Rfc_Closed

definition ends_stream :: "u8 \<Rightarrow> bool \<Rightarrow> bool" where
  "ends_stream ty es \<longleftrightarrow> es \<and> (ty = HTTP2_DATA \<or> ty = HTTP2_HEADERS)"

inductive rfc_step :: "bool \<Rightarrow> u8 \<Rightarrow> bool \<Rightarrow> rfc_state \<Rightarrow> rfc_state \<Rightarrow> bool" where
  idle_open: "\<not> es \<Longrightarrow> rfc_step False HTTP2_HEADERS es Rfc_Idle Rfc_Open"
| idle_half: "es \<Longrightarrow> rfc_step False HTTP2_HEADERS es Rfc_Idle Rfc_Half_Closed_Remote"
| idle_prio: "rfc_step False HTTP2_PRIORITY es Rfc_Idle Rfc_Idle"
| reset: "s \<noteq> Rfc_Idle \<Longrightarrow> rfc_step snt HTTP2_RST_STREAM es s Rfc_Closed"
| open_stay: "\<not> ends_stream ty es \<Longrightarrow> ty \<noteq> HTTP2_RST_STREAM \<Longrightarrow>
    rfc_step snt ty es Rfc_Open Rfc_Open"
| open_sent: "ends_stream ty es \<Longrightarrow> rfc_step True ty es Rfc_Open Rfc_Half_Closed_Local"
| open_received: "ends_stream ty es \<Longrightarrow> rfc_step False ty es Rfc_Open Rfc_Half_Closed_Remote"
| local_stay: "\<not> ends_stream ty es \<Longrightarrow> ty \<noteq> HTTP2_RST_STREAM \<Longrightarrow>
    rfc_step False ty es Rfc_Half_Closed_Local Rfc_Half_Closed_Local"
| local_received: "ends_stream ty es \<Longrightarrow>
    rfc_step False ty es Rfc_Half_Closed_Local Rfc_Closed"
| local_send: "ty \<in> {HTTP2_PRIORITY, HTTP2_WINDOW_UPDATE, HTTP2_CONTINUATION} \<Longrightarrow>
    rfc_step True ty es Rfc_Half_Closed_Local Rfc_Half_Closed_Local"
| remote_stay: "\<not> ends_stream ty es \<Longrightarrow> ty \<noteq> HTTP2_RST_STREAM \<Longrightarrow>
    rfc_step True ty es Rfc_Half_Closed_Remote Rfc_Half_Closed_Remote"
| remote_sent: "ends_stream ty es \<Longrightarrow>
    rfc_step True ty es Rfc_Half_Closed_Remote Rfc_Closed"
| remote_recv: "ty \<in> {HTTP2_PRIORITY, HTTP2_WINDOW_UPDATE, HTTP2_CONTINUATION} \<Longrightarrow>
    rfc_step False ty es Rfc_Half_Closed_Remote Rfc_Half_Closed_Remote"
| closed_stay: "ty \<in> {HTTP2_PRIORITY, HTTP2_WINDOW_UPDATE, HTTP2_CONTINUATION} \<Longrightarrow>
    rfc_step snt ty es Rfc_Closed Rfc_Closed"

inductive_cases rfc_closedE: "rfc_step snt ty es Rfc_Closed s"

text \<open>
  The abstraction: a pending END_STREAM flag already counts, because it was carried
  by a frame that ended the stream; the CONTINUATION frames that follow belong to
  the same header block.
\<close>

definition rfc_of :: "u16 \<Rightarrow> rfc_state" where
  "rfc_of w =
     (let st = tfw_h2_get_stream_state w;
          snt = tfw_h2_stream_is_eos_sent w; rcv = tfw_h2_stream_is_eos_received w in
      if st = HTTP2_STREAM_IDLE then Rfc_Idle
      else if st = HTTP2_STREAM_OPENED then
        (if snt \<and> rcv then Rfc_Closed else if snt then Rfc_Half_Closed_Local
         else if rcv then Rfc_Half_Closed_Remote else Rfc_Open)
      else if st = HTTP2_STREAM_LOC_HALF_CLOSED then
        (if rcv then Rfc_Closed else Rfc_Half_Closed_Local)
      else if st = HTTP2_STREAM_REM_HALF_CLOSED then
        (if snt then Rfc_Closed else Rfc_Half_Closed_Remote)
      else Rfc_Closed)"

text \<open>
  A half closed stream is settled when a pending END_STREAM of its other direction
  still has its header block open.  The machine leaves a half closed stream unsettled
  when that header block ends with a CONTINUATION.
\<close>

definition settled :: "sid \<Rightarrow> fsm_view \<Rightarrow> bool" where
  "settled s v \<longleftrightarrow>
     (tfw_h2_get_stream_state (fv_state v) = HTTP2_STREAM_LOC_HALF_CLOSED
        \<and> tfw_h2_stream_is_eos_received (fv_state v) \<longrightarrow> fv_recv_headers v = Some s)
     \<and> (tfw_h2_get_stream_state (fv_state v) = HTTP2_STREAM_REM_HALF_CLOSED
        \<and> tfw_h2_stream_is_eos_sent (fv_state v) \<longrightarrow> fv_send_headers v = Some s)"

definition end_stream_frame :: "fsm_arg \<Rightarrow> bool" where
  "end_stream_frame a \<longleftrightarrow> has_flag (fa_flags a) HTTP2_F_END_STREAM"

definition refines_rfc :: "fsm_arg \<Rightarrow> fsm_view \<Rightarrow> fsm_out \<Rightarrow> bool" where
  "refines_rfc a v out \<longleftrightarrow> (fst out = STREAM_FSM_RES_OK \<longrightarrow>
     rfc_step (fa_send a) (fa_type a) (end_stream_frame a)
       (rfc_of (fv_state v)) (rfc_of (fv_state (out_view out))))"

lemma refines_rfc_finish [simp]: "refines_rfc a v (fsm_finish a w) = refines_rfc a v w"
  by (simp add: refines_rfc_def)

lemmas rfc_simps = refines_rfc_def out_view_def fsm_simps rfc_of_def settled_def
  end_stream_frame_def ends_stream_def fsm_view_inv_def

lemma rfc_idle:
  assumes "fsm_checks a v" "tfw_h2_get_stream_state (fv_state v) = HTTP2_STREAM_IDLE"
    and "fsm_view_inv (fa_stream a) v" and "fsm_idle a err v = Some w"
  shows "refines_rfc a v w"
  using assms
  by (cases rule: fsm_checks_cases; cases "fa_send a")
     (auto simp: rfc_simps intro!: rfc_step.intros split: if_splits)

lemma rfc_opened:
  assumes "fsm_checks a v" "tfw_h2_get_stream_state (fv_state v) = HTTP2_STREAM_OPENED"
    and "fsm_view_inv (fa_stream a) v"
    and "fa_type a = HTTP2_CONTINUATION \<Longrightarrow> \<not> end_stream_frame a"
  shows "refines_rfc a v (fsm_opened a err v)"
  using assms
  by (cases rule: fsm_checks_cases; cases "fa_send a")
     (auto simp: rfc_simps intro: rfc_step.intros)

lemma rfc_loc_half_closed:
  assumes "fsm_checks a v"
    "tfw_h2_get_stream_state (fv_state v) = HTTP2_STREAM_LOC_HALF_CLOSED"
    and "fsm_view_inv (fa_stream a) v" and "settled (fa_stream a) v"
    and "fa_type a = HTTP2_CONTINUATION \<Longrightarrow> \<not> end_stream_frame a"
  shows "refines_rfc a v (fsm_loc_half_closed a err v)"
  using assms
  by (cases rule: fsm_checks_cases; cases "fa_send a")
     (auto simp: rfc_simps intro: rfc_step.intros)

lemma rfc_rem_half_closed:
  assumes "fsm_checks a v"
    "tfw_h2_get_stream_state (fv_state v) = HTTP2_STREAM_REM_HALF_CLOSED"
    and "fsm_view_inv (fa_stream a) v" and "settled (fa_stream a) v"
    and "fa_type a = HTTP2_CONTINUATION \<Longrightarrow> \<not> end_stream_frame a"
  shows "refines_rfc a v (fsm_rem_half_closed a err v)"
  using assms
  by (cases rule: fsm_checks_cases; cases "fa_send a")
     (auto simp: rfc_simps intro: rfc_step.intros)

lemma rfc_closed:
  assumes "tfw_h2_get_stream_state (fv_state v) \<in> {HTTP2_STREAM_LOC_CLOSED, HTTP2_STREAM_CLOSED}"
  shows "refines_rfc a v (fsm_loc_closed a err v)"
    and "refines_rfc a v (fsm_closed a err v)"
  using assms by (auto simp: rfc_simps intro: rfc_step.intros)

lemma fsm_refines_rfc:
  assumes "fsm_view_inv (fa_stream a) v" and "settled (fa_stream a) v"
    and "fa_type a = HTTP2_CONTINUATION \<Longrightarrow> \<not> end_stream_frame a"
    and "tfw_h2_stream_fsm a err v = Some out"
  shows "refines_rfc a v out"
  using assms(4)
proof (cases rule: fsm_cases)
  case reject
  then show ?thesis by (simp add: refines_rfc_def)
qed (use assms(1-3) in \<open>auto intro: rfc_idle rfc_opened rfc_loc_half_closed
       rfc_rem_half_closed rfc_closed\<close>)

section \<open>Properties of the machine\<close>

text \<open>The order in which a stream passes through its states.\<close>

definition state_rank :: "u16 \<Rightarrow> nat" where
  "state_rank w =
     (let st = tfw_h2_get_stream_state w in
      if st = HTTP2_STREAM_IDLE then 0 else if st = HTTP2_STREAM_OPENED then 1
      else if st = HTTP2_STREAM_LOC_HALF_CLOSED \<or> st = HTTP2_STREAM_REM_HALF_CLOSED then 2
      else if st = HTTP2_STREAM_LOC_CLOSED then 3 else 4)"

definition progresses :: "u16 \<Rightarrow> u16 \<Rightarrow> bool" where
  "progresses w w' \<longleftrightarrow>
     (tfw_h2_get_stream_state w' = tfw_h2_get_stream_state w \<or> state_rank w < state_rank w')
     \<and> (tfw_h2_stream_is_eos_sent w \<longrightarrow> tfw_h2_stream_is_eos_sent w')
     \<and> (tfw_h2_stream_is_eos_received w \<longrightarrow> tfw_h2_stream_is_eos_received w')"

lemmas progress_simps = progresses_def state_rank_def fsm_simps out_view_def

lemma progresses_handlers:
  shows "tfw_h2_get_stream_state (fv_state v) = HTTP2_STREAM_OPENED \<Longrightarrow>
      progresses (fv_state v) (fv_state (out_view (fsm_opened a err v)))"
    and "tfw_h2_get_stream_state (fv_state v) = HTTP2_STREAM_LOC_HALF_CLOSED \<Longrightarrow>
      progresses (fv_state v) (fv_state (out_view (fsm_loc_half_closed a err v)))"
    and "tfw_h2_get_stream_state (fv_state v) = HTTP2_STREAM_REM_HALF_CLOSED \<Longrightarrow>
      progresses (fv_state v) (fv_state (out_view (fsm_rem_half_closed a err v)))"
    and "tfw_h2_get_stream_state (fv_state v) = HTTP2_STREAM_LOC_CLOSED \<Longrightarrow>
      progresses (fv_state v) (fv_state (out_view (fsm_loc_closed a err v)))"
    and "progresses (fv_state v) (fv_state (out_view (fsm_closed a err v)))"
  by (cases "fa_send a"; simp add: progress_simps)+

lemma progresses_step:
  assumes "tfw_h2_stream_fsm a err v = Some out"
  shows "progresses (fv_state v) (fv_state (out_view out))"
  using assms
proof (cases rule: fsm_cases)
  case reject
  then show ?thesis by (simp add: progresses_def) (simp add: out_view_def)
next
  case (idle w)
  then show ?thesis
    unfolding fsm_idle_def
    by (auto simp: progress_simps out_view_def split: if_splits)
qed (auto intro: progresses_handlers)

text \<open>Runs of the machine over the frames of a connection.\<close>

definition fsm_frame ::
    "fsm_arg \<Rightarrow> fsm_conn \<Rightarrow> (TfwStreamFsmRes \<times> fsm_conn) option" where
  "fsm_frame a c = map_option (\<lambda>(res, err, c'). (res, c')) (fsm_conn_step a c)"

definition not_term_conn :: "TfwStreamFsmRes \<Rightarrow> bool" where
  "not_term_conn res \<longleftrightarrow> res \<noteq> STREAM_FSM_RES_TERM_CONN"

definition conn_progresses :: "fsm_conn \<Rightarrow> fsm_conn \<Rightarrow> bool" where
  "conn_progresses c c' \<longleftrightarrow> (\<forall>s. progresses (fc_state c s) (fc_state c' s))"

lemma fsm_frameE:
  assumes "fsm_frame a c = Some (res, c')"
  obtains err where "fsm_conn_step a c = Some (res, err, c')"
  using assms by (auto simp: fsm_frame_def)

lemma conn_progresses_step:
  assumes "fsm_conn_step a c = Some (res, err, c')"
  shows "conn_progresses c c'"
proof -
  from assms obtain v where v: "c' = fsm_put_view (fa_stream a) v c"
    "tfw_h2_stream_fsm a HTTP2_ECODE_NO_ERROR (fsm_view_of c (fa_stream a)) = Some (res, err, v)"
    by (rule fsm_conn_stepE)
  have "progresses (fc_state c (fa_stream a)) (fv_state v)"
    using progresses_step [OF v(2)] by (simp add: out_view_def fsm_view_of_def)
  then show ?thesis
    by (auto simp: conn_progresses_def v(1) fsm_put_view_def progresses_def)
qed

lemma progresses_trans:
  "progresses a b \<Longrightarrow> progresses b c \<Longrightarrow> progresses a c"
  by (auto simp: progresses_def state_rank_def Let_def split: if_splits)

interpretation fsm_run: monotone_steps fsm_frame not_term_conn fsm_conn_inv conn_progresses
proof
  show "fsm_conn_inv s'" if "fsm_conn_inv s" "fsm_frame e s = Some (out, s')" "not_term_conn out"
    for s e out s'
    using that by (auto elim!: fsm_frameE intro: fsm_conn_inv_step simp: not_term_conn_def)
  show "conn_progresses s s" for s
    by (simp add: conn_progresses_def progresses_def)
  show "conn_progresses s u" if "conn_progresses s t" "conn_progresses t u" for s t u
    using that unfolding conn_progresses_def by (blast intro: progresses_trans)
  show "conn_progresses s s'" if "fsm_frame e s = Some (out, s')" for s e out s'
    using that by (auto elim!: fsm_frameE intro: conn_progresses_step)
qed

end
