(* ===== verification/H2_Stream_Props.thy ===== *)
theory H2_Stream_Props
  imports H2_Stream_Fsm
begin

unbundle bit_operations_syntax

text \<open>
  Properties of the HTTP/2 stream state machine: refinement of the RFC 9113 life
  cycle, contiguity of header blocks, monotone progress, absence of \<^verbatim>\<open>BUG\<close>s, and the
  frame sequences on which the machine departs from the RFC.
\<close>

definition mk_frame :: "sid \<Rightarrow> u8 \<Rightarrow> u8 \<Rightarrow> bool \<Rightarrow> fsm_arg" where
  "mk_frame s ty fl snt =
     \<lparr>fa_stream = s, fa_type = ty, fa_flags = fl, fa_send = snt, fa_plen = 10, fa_hdr_flags = fl\<rparr>"

lemmas fsm_eval =
  fsm_frame_def fsm_conn_step_def fsm_view_of_def fsm_put_view_def fsm_conn_init_def
  mk_frame_def fsm_branches TFW_H2_FSM_STREAM_CHECK_def TFW_H2_FSM_TYPE_CHECK_def
  cur_headers_def SET_STATE_def set_eos_received_def set_eos_sent_def
  tfw_h2_get_stream_state_def tfw_h2_set_stream_state_def tfw_h2_stream_is_eos_sent_def
  tfw_h2_stream_is_eos_received_def has_flag_def

section \<open>Refinement of the RFC 9113 life cycle\<close>



section \<open>Header blocks\<close>


definition conn_block_open :: fsm_conn where
  "conn_block_open =
     \<lparr>fc_state = (\<lambda>_. HTTP2_STREAM_IDLE)(1 := HTTP2_STREAM_OPENED),
      fc_send_headers = None, fc_recv_headers = Some 1\<rparr>"

lemma reach_conn_block_open: "fsm_reach conn_block_open"
proof (rule fsm_reach.step [OF fsm_reach.init])
  show "fsm_conn_step (mk_frame 1 HTTP2_HEADERS 0 False) fsm_conn_init
          = Some (STREAM_FSM_RES_OK, HTTP2_ECODE_NO_ERROR, conn_block_open)"
    by (simp add: fsm_eval conn_block_open_def)
qed simp


definition header_block_open :: "fsm_arg \<Rightarrow> bool" where
  "header_block_open a \<longleftrightarrow> (fa_type a = HTTP2_HEADERS \<or> fa_type a = HTTP2_CONTINUATION)
     \<and> \<not> has_flag (fa_flags a) HTTP2_F_END_HEADERS"

fun contiguous :: "fsm_arg list \<Rightarrow> bool" where
  "contiguous (a # b # as) \<longleftrightarrow>
     (header_block_open a \<longrightarrow> fa_stream b = fa_stream a
        \<and> (fa_type b = HTTP2_CONTINUATION \<or> fa_type b = HTTP2_RST_STREAM))
     \<and> contiguous (b # as)"
| "contiguous _ \<longleftrightarrow> True"

lemma header_block_opens_cell:
  assumes "tfw_h2_stream_fsm a err v = Some (STREAM_FSM_RES_OK, err', v')"
    and "\<not> fa_send a" and "header_block_open a"
  shows "fv_recv_headers v' = Some (fa_stream a)"
  using assms(1)
proof (cases rule: fsm_cases)
  case (idle w)
  with assms(2-) show ?thesis
    by (auto simp: header_block_open_def fsm_simps split: if_splits)
qed (use assms(2-) in \<open>auto simp: header_block_open_def fsm_simps split: if_splits\<close>)

lemma open_cell_forces_continuation:
  assumes "fsm_frame b c = Some (res, c')" "res \<noteq> STREAM_FSM_RES_TERM_CONN"
    and "\<not> fa_send b" and "fc_recv_headers c = Some s"
  shows "fa_stream b = s \<and> (fa_type b = HTTP2_CONTINUATION \<or> fa_type b = HTTP2_RST_STREAM)"
proof -
  from assms(1) obtain v err where
    "tfw_h2_stream_fsm b HTTP2_ECODE_NO_ERROR (fsm_view_of c (fa_stream b)) = Some (res, err, v)"
    by (auto elim!: fsm_frameE fsm_conn_stepE)
  then have "fsm_checks b (fsm_view_of c (fa_stream b))"
  proof (cases rule: fsm_cases)
    case reject
    with assms(2) show ?thesis by (simp add: fsm_finish_def)
  qed
  then show ?thesis
    using assms(3,4) by (cases rule: fsm_checks_cases) (auto simp: cur_headers_def fsm_view_of_def)
qed

lemma header_block_opens_cell_frame:
  assumes "fsm_frame a c = Some (STREAM_FSM_RES_OK, c')" "\<not> fa_send a" "header_block_open a"
  shows "fc_recv_headers c' = Some (fa_stream a)"
  using assms header_block_opens_cell
  by (auto elim!: fsm_frameE fsm_conn_stepE simp: fsm_put_view_def)



section \<open>Progress\<close>

lemma closed_stays_closed:
  "progresses w w' \<Longrightarrow> tfw_h2_stream_is_closed w \<Longrightarrow> tfw_h2_stream_is_closed w'"
  by (auto simp: progresses_def tfw_h2_stream_is_closed_def state_rank_def Let_def
      split: if_splits)

text \<open>
  (C14) Along any run of a connection that is not terminated, no stream moves back: its
  state stays, or advances in the order idle, open, half closed, locally closed,
  closed, and a recorded END_STREAM is never forgotten.  A closed stream stays closed.
\<close>

theorem streams_only_progress:
  assumes "fsm_reach c" and "accepts fsm_frame not_term_conn as c = Some c'"
  shows "progresses (fc_state c s) (fc_state c' s)
       \<and> (tfw_h2_stream_is_closed (fc_state c s) \<longrightarrow> tfw_h2_stream_is_closed (fc_state c' s))"
  using fsm_run.run_le [OF fsm_reach_inv [OF assms(1)] assms(2)]
    closed_stays_closed
  by (auto simp: conn_progresses_def)

theorem streams_only_progress_witness:
  "progresses (fc_state fsm_conn_init 1)
     (fc_state (fsm_conn_init\<lparr>fc_state := (\<lambda>_. 0)(1 := 7)\<rparr>) 1)"
  by (rule conjunct1 [OF streams_only_progress [OF fsm_reach.init, of
        "[mk_frame 1 HTTP2_HEADERS 5 False, mk_frame 1 HTTP2_HEADERS 4 True,
          mk_frame 1 HTTP2_DATA 1 True]"]])
     (simp add: fsm_eval not_term_conn_def)

section \<open>No failed assertion\<close>



section \<open>Departures from the RFC\<close>

text \<open>
  (C16) A response with a body that is sent while the request is still being received
  is cut: in the OPENED state the first branch tests both END_HEADERS and END_STREAM
  and the last branch opens a header block even when END_HEADERS is set.  So after a
  complete HEADERS frame (END_HEADERS, no END_STREAM) every DATA frame of the response
  is answered with a connection error.
\<close>

theorem early_response_body_rejected:
  assumes "tfw_h2_get_stream_state (fc_state c s) = HTTP2_STREAM_OPENED"
    and "fc_send_headers c = None"
    and "fa_stream h = s" "fa_send h" "fa_type h = HTTP2_HEADERS"
    and "has_flag (fa_flags h) HTTP2_F_END_HEADERS" "\<not> has_flag (fa_flags h) HTTP2_F_END_STREAM"
    and "fa_stream d = s" "fa_send d" "fa_type d = HTTP2_DATA"
  shows "\<exists>c1 c2. fsm_conn_step h c = Some (STREAM_FSM_RES_OK, HTTP2_ECODE_NO_ERROR, c1)
           \<and> fsm_conn_step d c1 = Some (STREAM_FSM_RES_TERM_CONN, HTTP2_ECODE_PROTO, c2)"
  using assms
  by (simp add: fsm_conn_step_def fsm_view_of_def fsm_put_view_def fsm_branches
      TFW_H2_FSM_STREAM_CHECK_def TFW_H2_FSM_TYPE_CHECK_def cur_headers_def)

theorem early_response_body_rejected_witness:
  "\<exists>c1 c2. fsm_conn_step (mk_frame 1 HTTP2_HEADERS 4 True)
             (fsm_conn_init\<lparr>fc_state := (\<lambda>_. HTTP2_STREAM_OPENED)\<rparr>)
               = Some (STREAM_FSM_RES_OK, HTTP2_ECODE_NO_ERROR, c1)
         \<and> fsm_conn_step (mk_frame 1 HTTP2_DATA 1 True) c1
               = Some (STREAM_FSM_RES_TERM_CONN, HTTP2_ECODE_PROTO, c2)"
  by (rule early_response_body_rejected [where s = 1])
     (simp_all add: mk_frame_def fsm_conn_init_def tfw_h2_get_stream_state_def has_flag_def)



text \<open>
  (C18) After the server has reset a stream, a header block of more than one frame that
  the peer had already sent kills the connection: the HEADERS frame is ignored in the
  LOC_CLOSED state without recording that its header block is open, so the next
  CONTINUATION has no block to belong to.  RFC 9113 section 5.1 requires such frames
  to be processed minimally and discarded.
\<close>

theorem late_header_block_after_reset:
  assumes "tfw_h2_get_stream_state (fc_state c s) = HTTP2_STREAM_LOC_CLOSED"
    and "fc_recv_headers c = None"
    and "fa_stream h = s" "\<not> fa_send h" "fa_type h = HTTP2_HEADERS"
    and "fa_stream k = s" "\<not> fa_send k" "fa_type k = HTTP2_CONTINUATION"
  shows "fsm_conn_step h c = Some (STREAM_FSM_RES_IGNORE, HTTP2_ECODE_NO_ERROR, c)
       \<and> fsm_conn_step k c = Some (STREAM_FSM_RES_TERM_CONN, HTTP2_ECODE_PROTO, c)"
  using assms
  by (simp add: fsm_conn_step_def fsm_view_of_def fsm_put_view_def fsm_branches
      TFW_H2_FSM_STREAM_CHECK_def TFW_H2_FSM_TYPE_CHECK_def cur_headers_def)

theorem late_header_block_after_reset_witness:
  "fsm_conn_step (mk_frame 1 HTTP2_CONTINUATION 4 False)
     (fsm_conn_init\<lparr>fc_state := (\<lambda>_. HTTP2_STREAM_LOC_CLOSED)\<rparr>)
     = Some (STREAM_FSM_RES_TERM_CONN, HTTP2_ECODE_PROTO,
             fsm_conn_init\<lparr>fc_state := (\<lambda>_. HTTP2_STREAM_LOC_CLOSED)\<rparr>)"
  by (rule conjunct2 [OF late_header_block_after_reset
        [where s = 1 and h = "mk_frame 1 HTTP2_HEADERS 0 False"]])
     (simp_all add: mk_frame_def fsm_conn_init_def tfw_h2_get_stream_state_def)

end
