(* ===== verification/H2_Sched.thy ===== *)
theory H2_Sched
  imports H2_Stream_Fsm
begin

unbundle bit_operations_syntax

text \<open>
  The HTTP/2 stream records, the per-connection storage of streams and the priority
  scheduler: \<^verbatim>\<open>src/fw/http_stream_sched.c\<close>, the structures of
  \<^verbatim>\<open>src/fw/http_stream_sched.h\<close> and \<^verbatim>\<open>src/fw/http_stream.h\<close>, and
  \<^verbatim>\<open>tfw_h2_find_stream()\<close> and the insertion loop of \<^verbatim>\<open>src/fw/http_stream.c\<close>.

  Pointers.  A stream is referred to by its id, a scheduler entry by the id of the
  stream which owns it; the root entry has the key 0 (stream ids are not 0).  The two
  memories are functions from keys to records.  An intrusive list head is the list of
  its members in order; the list node of a stream records the list that holds it, so
  that \<^verbatim>\<open>list_del_init\<close> and \<^verbatim>\<open>list_empty(&stream->sched_node)\<close> can be written down.
  The red-black tree of streams is a binary search tree: descents and insertion are
  those of the code, recolouring and rotations do not change the in-order sequence and
  are left out.
\<close>

section \<open>Data\<close>

datatype TfwStreamXmitState =
    HTTP2_ENCODE_HEADERS
  | HTTP2_RELEASE_RESPONSE
  | HTTP2_MAKE_HEADERS_FRAMES
  | HTTP2_MAKE_CONTINUATION_FRAMES
  | HTTP2_MAKE_DATA_FRAMES
  | HTTP2_MAKE_TRAILER_FRAMES
  | HTTP2_MAKE_TRAILER_CONTINUATION_FRAMES
  | HTTP2_SEND_FRAMES
  | HTTP2_MAKE_FRAMES_FINISH

text \<open>
  A socket buffer: its length, whether it is marked as the head of a list in its control block,
  and whether it is a SETTINGS acknowledgement, the only frame with a hook that runs when the buffer
  enters the socket.
\<close>

record sk_buff =
  sk_len :: u32
  sk_is_head :: bool
  sk_settings_ack :: bool

text \<open>The transmit descriptor; of the response only its presence matters.\<close>

record TfwHttpXmit =
  x_resp :: bool
  x_skb_head :: "sk_buff list"
  x_postponed :: "sk_buff list"
  x_h_len :: u32
  x_frame_length :: u32
  x_b_len :: "59 word"
  x_is_blocked :: bool
  x_state :: TfwStreamXmitState
  x_t_len :: u32

datatype TfwStreamSchedState =
    HTTP2_STREAM_SCHED_STATE_UNKNOWN
  | HTTP2_STREAM_SCHED_STATE_BLOCKED
  | HTTP2_STREAM_SCHED_STATE_ACTIVE

text \<open>The list that holds \<^verbatim>\<open>stream->sched_node\<close>, and the queue that holds \<^verbatim>\<open>stream->hcl_node\<close>.\<close>

datatype sched_link = Unlinked | In_active sid | In_blocked sid

datatype stream_queue = Closed_Queue | Idle_Queue

text \<open>The message of a stream: present or not, and whether it is fully parsed.\<close>

record TfwStream =
  st_sched_node :: sched_link
  st_sched_state :: TfwStreamSchedState
  st_state :: u16
  st_weight :: u16
  st_loc_wnd :: int
  st_rem_wnd :: int
  st_msg :: "bool option"
  st_queue :: "stream_queue option"
  st_xmit :: TfwHttpXmit

record TfwStreamSchedEntry =
  se_total_weight :: u64
  se_active_cnt :: int
  se_parent :: "sid option"
  se_active :: "sid list"
  se_blocked :: "sid list"

record TfwStreamSched =
  sc_streams :: "sid tree"
  sc_entry :: "sid \<Rightarrow> TfwStreamSchedEntry"
  sc_stream :: "sid \<Rightarrow> TfwStream"
  sc_blocked_streams :: int

abbreviation (input) sched_root :: sid where "sched_root \<equiv> 0"

definition upd_entry ::
    "sid \<Rightarrow> (TfwStreamSchedEntry \<Rightarrow> TfwStreamSchedEntry) \<Rightarrow> TfwStreamSched \<Rightarrow> TfwStreamSched" where
  "upd_entry k f S = S\<lparr>sc_entry := (sc_entry S)(k := f (sc_entry S k))\<rparr>"

definition upd_stream ::
    "sid \<Rightarrow> (TfwStream \<Rightarrow> TfwStream) \<Rightarrow> TfwStreamSched \<Rightarrow> TfwStreamSched" where
  "upd_stream s f S = S\<lparr>sc_stream := (sc_stream S)(s := f (sc_stream S s))\<rparr>"

section \<open>The storage of streams\<close>

fun tfw_h2_find_stream :: "sid tree \<Rightarrow> sid \<Rightarrow> sid option" where
  "tfw_h2_find_stream Leaf i = None"
| "tfw_h2_find_stream (Node l s r) i =
     (if i < s then tfw_h2_find_stream l i
      else if i > s then tfw_h2_find_stream r i
      else Some s)"

text \<open>
  The descent of \<^verbatim>\<open>tfw_h2_add_stream()\<close>: the new node becomes a leaf of the tree;
  \<open>None\<close> is the \<^verbatim>\<open>WARN_ON_ONCE(1); return NULL;\<close> of an id that is already there.
\<close>

fun streams_insert :: "sid \<Rightarrow> sid tree \<Rightarrow> sid tree option" where
  "streams_insert i Leaf = Some (Node Leaf i Leaf)"
| "streams_insert i (Node l s r) =
     (if i < s then map_option (\<lambda>l'. Node l' s r) (streams_insert i l)
      else if i > s then map_option (\<lambda>r'. Node l s r') (streams_insert i r)
      else None)"

text \<open>\<^verbatim>\<open>rb_erase()\<close> up to the shape of the tree.\<close>

fun tree_join :: "sid tree \<Rightarrow> sid tree \<Rightarrow> sid tree" where
  "tree_join Leaf t = t"
| "tree_join (Node l s r) t = Node l s (tree_join r t)"

fun rb_erase :: "sid \<Rightarrow> sid tree \<Rightarrow> sid tree" where
  "rb_erase i Leaf = Leaf"
| "rb_erase i (Node l s r) =
     (if i < s then Node (rb_erase i l) s r
      else if i > s then Node l s (rb_erase i r)
      else tree_join l r)"

section \<open>The scheduler\<close>

definition tfw_h2_stream_is_active :: "TfwStreamSched \<Rightarrow> sid \<Rightarrow> bool" where
  "tfw_h2_stream_is_active S s \<longleftrightarrow>
     x_skb_head (st_xmit (sc_stream S s)) \<noteq> [] \<and> \<not> x_is_blocked (st_xmit (sc_stream S s))"

text \<open>\<^verbatim>\<open>list_del_init(&stream->sched_node)\<close>.\<close>

definition sched_list_del :: "sid \<Rightarrow> TfwStreamSched \<Rightarrow> TfwStreamSched" where
  "sched_list_del s S =
     upd_stream s (\<lambda>t. t\<lparr>st_sched_node := Unlinked\<rparr>)
       (case st_sched_node (sc_stream S s) of
          Unlinked \<Rightarrow> S
        | In_active k \<Rightarrow> upd_entry k (\<lambda>e. e\<lparr>se_active := remove1 s (se_active e)\<rparr>) S
        | In_blocked k \<Rightarrow> upd_entry k (\<lambda>e. e\<lparr>se_blocked := remove1 s (se_blocked e)\<rparr>) S)"

text \<open>
  The reverse walk of \<^verbatim>\<open>tfw_h2_stream_sched_insert_by_weight()\<close>: the stream goes right
  behind the last position which precedes it, or to the front.
\<close>

definition sched_before :: "(sid \<Rightarrow> u16) \<Rightarrow> sid \<Rightarrow> sid \<Rightarrow> bool" where
  "sched_before w pos s \<longleftrightarrow> w pos < w s \<or> (w pos = w s \<and> pos > s)"

definition tfw_h2_stream_sched_insert_by_weight ::
    "(sid \<Rightarrow> u16) \<Rightarrow> sid list \<Rightarrow> sid \<Rightarrow> sid list" where
  "tfw_h2_stream_sched_insert_by_weight w head s =
     rev (dropWhile (\<lambda>pos. \<not> sched_before w pos s) (rev head))
     @ s # rev (takeWhile (\<lambda>pos. \<not> sched_before w pos s) (rev head))"

definition stream_weight :: "TfwStreamSched \<Rightarrow> sid \<Rightarrow> u16" where
  "stream_weight S s = st_weight (sc_stream S s)"

definition tfw_h2_stream_sched_insert_active ::
    "sid \<Rightarrow> TfwStreamSched \<Rightarrow> TfwStreamSched option" where
  "tfw_h2_stream_sched_insert_active s S =
     (case se_parent (sc_entry S s) of
        None \<Rightarrow> None
      | Some p \<Rightarrow>
          if \<not> tfw_h2_stream_is_active S s \<and> se_active_cnt (sc_entry S s) = 0 then None
          else if st_sched_state (sc_stream S s) = HTTP2_STREAM_SCHED_STATE_ACTIVE then None
          else Some (upd_stream s (\<lambda>t. t\<lparr>st_sched_node := In_active p,
                                      st_sched_state := HTTP2_STREAM_SCHED_STATE_ACTIVE\<rparr>)
                 (upd_entry p (\<lambda>e. e\<lparr>se_active :=
                      tfw_h2_stream_sched_insert_by_weight (stream_weight S) (se_active e) s\<rparr>)
                   (sched_list_del s S))))"

definition tfw_h2_stream_sched_insert_blocked ::
    "sid \<Rightarrow> TfwStreamSched \<Rightarrow> TfwStreamSched option" where
  "tfw_h2_stream_sched_insert_blocked s S =
     (case se_parent (sc_entry S s) of
        None \<Rightarrow> None
      | Some p \<Rightarrow>
          if tfw_h2_stream_is_active S s \<or> se_active_cnt (sc_entry S s) \<noteq> 0 then None
          else if st_sched_state (sc_stream S s) = HTTP2_STREAM_SCHED_STATE_BLOCKED then None
          else Some (upd_stream s (\<lambda>t. t\<lparr>st_sched_node := In_blocked p,
                                      st_sched_state := HTTP2_STREAM_SCHED_STATE_BLOCKED\<rparr>)
                 (upd_entry p (\<lambda>e. e\<lparr>se_blocked := s # se_blocked e\<rparr>)
                   (sched_list_del s S))))"

definition add_active_cnt :: "int \<Rightarrow> TfwStreamSchedEntry \<Rightarrow> TfwStreamSchedEntry" where
  "add_active_cnt c e = e\<lparr>se_active_cnt := se_active_cnt e + c\<rparr>"

text \<open>
  The two loops up the tree.  They end at the root entry or at an entry without parent;
  a cycle of parents would make them run forever.
\<close>

partial_function (option) sched_propagate_add ::
    "sid \<Rightarrow> int \<Rightarrow> TfwStreamSched \<Rightarrow> TfwStreamSched option" where
  [code]: "sched_propagate_add p c S =
     (let need_activate = (se_active_cnt (sc_entry S p) = 0);
          S = upd_entry p (add_active_cnt c) S in
      if p = sched_root then Some S
      else (case se_parent (sc_entry S p) of
          None \<Rightarrow> Some S
        | Some pp \<Rightarrow>
            if \<not> need_activate \<or> tfw_h2_stream_is_active S p then sched_propagate_add pp c S
            else if st_sched_state (sc_stream S p) \<noteq> HTTP2_STREAM_SCHED_STATE_BLOCKED then None
            else Option.bind (tfw_h2_stream_sched_insert_active p S)
                   (\<lambda>S. sched_propagate_add pp c S)))"

partial_function (option) sched_propagate_dec ::
    "sid \<Rightarrow> int \<Rightarrow> TfwStreamSched \<Rightarrow> TfwStreamSched option" where
  [code]: "sched_propagate_dec p c S =
     (let S = upd_entry p (add_active_cnt (- c)) S in
      if p = sched_root then Some S
      else (case se_parent (sc_entry S p) of
          None \<Rightarrow> Some S
        | Some pp \<Rightarrow>
            if tfw_h2_stream_is_active S p \<or> se_active_cnt (sc_entry S p) \<noteq> 0
            then sched_propagate_dec pp c S
            else if st_sched_state (sc_stream S p) \<noteq> HTTP2_STREAM_SCHED_STATE_ACTIVE then None
            else Option.bind (tfw_h2_stream_sched_insert_blocked p S)
                   (\<lambda>S. sched_propagate_dec pp c S)))"

definition stream_active_cnt :: "TfwStreamSched \<Rightarrow> sid \<Rightarrow> int" where
  "stream_active_cnt S s =
     se_active_cnt (sc_entry S s) + (if tfw_h2_stream_is_active S s then 1 else 0)"

text \<open>A NULL parent is dereferenced at once, hence \<open>None\<close>.\<close>

definition tfw_h2_stream_sched_propagate_add_active_cnt ::
    "sid \<Rightarrow> TfwStreamSched \<Rightarrow> TfwStreamSched option" where
  "tfw_h2_stream_sched_propagate_add_active_cnt s S =
     (if stream_active_cnt S s = 0 then Some S
      else case se_parent (sc_entry S s) of
          None \<Rightarrow> None
        | Some p \<Rightarrow> sched_propagate_add p (stream_active_cnt S s) S)"

definition sched_detach :: "sid \<Rightarrow> TfwStreamSched \<Rightarrow> TfwStreamSched option" where
  "sched_detach s S =
     (case se_parent (sc_entry S s) of
        None \<Rightarrow> None
      | Some p \<Rightarrow>
          Some (upd_entry p (\<lambda>e. e\<lparr>se_total_weight :=
                    se_total_weight e - ucast (stream_weight S s)\<rparr>)
                 (upd_entry s (\<lambda>e. e\<lparr>se_parent := None\<rparr>)
                   (upd_stream s (\<lambda>t. t\<lparr>st_sched_state := HTTP2_STREAM_SCHED_STATE_UNKNOWN\<rparr>)
                     (sched_list_del s S)))))"

definition tfw_h2_stream_sched_remove :: "sid \<Rightarrow> TfwStreamSched \<Rightarrow> TfwStreamSched option" where
  "tfw_h2_stream_sched_remove s S =
     (case se_parent (sc_entry S s) of
        None \<Rightarrow> None
      | Some p \<Rightarrow> do {
          S' \<leftarrow> sched_detach s S;
          if stream_active_cnt S s = 0 then Some S'
          else sched_propagate_dec p (stream_active_cnt S s) S'
        })"

definition tfw_h2_find_stream_dep :: "TfwStreamSched \<Rightarrow> sid \<Rightarrow> sid" where
  "tfw_h2_find_stream_dep S i =
     (if i \<noteq> 0 then
        case tfw_h2_find_stream (sc_streams S) i of Some s \<Rightarrow> s | None \<Rightarrow> sched_root
      else sched_root)"

definition tfw_h2_stream_sched_has_children :: "TfwStreamSched \<Rightarrow> sid \<Rightarrow> bool" where
  "tfw_h2_stream_sched_has_children S k \<longleftrightarrow>
     se_active (sc_entry S k) \<noteq> [] \<or> se_blocked (sc_entry S k) \<noteq> []"

definition sched_attach :: "sid \<Rightarrow> sid \<Rightarrow> TfwStreamSched \<Rightarrow> TfwStreamSched option" where
  "sched_attach s p S =
     (let S' = upd_entry s (\<lambda>e. e\<lparr>se_parent := Some p\<rparr>)
                 (upd_entry p (\<lambda>e. e\<lparr>se_total_weight :=
                    se_total_weight e + ucast (stream_weight S s)\<rparr>) S) in
      if st_sched_node (sc_stream S s) \<noteq> Unlinked then None
      else if tfw_h2_stream_is_active S' s \<or> se_active_cnt (sc_entry S' s) \<noteq> 0
      then tfw_h2_stream_sched_insert_active s S'
      else tfw_h2_stream_sched_insert_blocked s S')"

definition tfw_h2_stream_sched_enqueue ::
    "sid \<Rightarrow> sid \<Rightarrow> TfwStreamSched \<Rightarrow> TfwStreamSched option" where
  "tfw_h2_stream_sched_enqueue s p S =
     Option.bind (sched_attach s p S) (tfw_h2_stream_sched_propagate_add_active_cnt s)"

text \<open>The two loops of the exclusive insertion.\<close>

partial_function (option) sched_move_blocked ::
    "sid \<Rightarrow> sid \<Rightarrow> TfwStreamSched \<Rightarrow> TfwStreamSched option" where
  [code]: "sched_move_blocked s dep S =
     (case se_blocked (sc_entry S dep) of
        [] \<Rightarrow> Some S
      | child # _ \<Rightarrow>
          Option.bind (tfw_h2_stream_sched_remove child S)
            (\<lambda>S. Option.bind (tfw_h2_stream_sched_enqueue child s S)
              (\<lambda>S. sched_move_blocked s dep S)))"

partial_function (option) sched_move_active ::
    "sid \<Rightarrow> sid \<Rightarrow> TfwStreamSched \<Rightarrow> TfwStreamSched option" where
  [code]: "sched_move_active s dep S =
     (case se_active (sc_entry S dep) of
        [] \<Rightarrow> Some S
      | child # _ \<Rightarrow>
          Option.bind (tfw_h2_stream_sched_remove child S)
            (\<lambda>S. Option.bind (tfw_h2_stream_sched_enqueue child s S)
              (\<lambda>S. sched_move_active s dep S)))"

definition tfw_h2_add_stream_dep ::
    "sid \<Rightarrow> sid \<Rightarrow> bool \<Rightarrow> TfwStreamSched \<Rightarrow> TfwStreamSched option" where
  "tfw_h2_add_stream_dep s dep excl S =
     (if \<not> excl then tfw_h2_stream_sched_enqueue s dep S
      else do {
        S \<leftarrow> sched_move_blocked s dep S;
        S \<leftarrow> sched_move_active s dep S;
        if tfw_h2_stream_sched_has_children S dep then None
        else tfw_h2_stream_sched_enqueue s dep S
      })"

definition tfw_h2_stream_sched_reinsert ::
    "sid \<Rightarrow> sid \<Rightarrow> TfwStreamSched \<Rightarrow> TfwStreamSched option" where
  "tfw_h2_stream_sched_reinsert s p S = Option.bind (sched_detach s S) (sched_attach s p)"

text \<open>
  The new weight of a child, \<^verbatim>\<open>child->weight * stream->weight / total_weight\<close>: the product
  is an \<^verbatim>\<open>int\<close>, the quotient a \<^verbatim>\<open>size_t\<close>, the result is cut to \<^verbatim>\<open>unsigned short\<close>.
  Division by zero traps.
\<close>

definition sched_new_weight :: "u16 \<Rightarrow> u16 \<Rightarrow> u64 \<Rightarrow> u16 option" where
  "sched_new_weight cw sw tw =
     (if tw = 0 then None
      else let w = (ucast ((ucast cw * ucast sw :: u64) div tw) :: u16) in
           Some (if w > 0 then w else 1))"

text \<open>
  \<^verbatim>\<open>tfw_h2_stream_sched_move_children()\<close> for the list of blocked or of active children;
  \<open>tw\<close> is the local copy of the total weight.
\<close>

definition children_of :: "bool \<Rightarrow> TfwStreamSchedEntry \<Rightarrow> sid list" where
  "children_of act e = (if act then se_active e else se_blocked e)"

definition sched_reweight ::
    "bool \<Rightarrow> sid \<Rightarrow> u64 \<Rightarrow> sid \<Rightarrow> TfwStreamSched \<Rightarrow> TfwStreamSched option" where
  "sched_reweight parent_has_children s tw child S =
     (if parent_has_children then
        map_option (\<lambda>w. upd_stream child (\<lambda>t. t\<lparr>st_weight := w\<rparr>) S)
          (sched_new_weight (stream_weight S child) (stream_weight S s) tw)
      else Some S)"

partial_function (option) sched_move_children_loop ::
    "bool \<Rightarrow> sid \<Rightarrow> sid \<Rightarrow> bool \<Rightarrow> u64 \<Rightarrow> TfwStreamSched \<Rightarrow> TfwStreamSched option" where
  [code]: "sched_move_children_loop act s p parent_has_children tw S =
     (case children_of act (sc_entry S s) of
        [] \<Rightarrow> Some S
      | child # _ \<Rightarrow>
          Option.bind (sched_reweight parent_has_children s tw child S)
            (\<lambda>S. Option.bind (tfw_h2_stream_sched_reinsert child p S)
              (\<lambda>S. sched_move_children_loop act s p parent_has_children tw S)))"

definition tfw_h2_stream_sched_move_children ::
    "bool \<Rightarrow> sid \<Rightarrow> sid \<Rightarrow> bool \<Rightarrow> TfwStreamSched \<Rightarrow> TfwStreamSched option" where
  "tfw_h2_stream_sched_move_children act s p parent_has_children S =
     sched_move_children_loop act s p parent_has_children (se_total_weight (sc_entry S s)) S"

definition tfw_h2_remove_stream_dep :: "sid \<Rightarrow> TfwStreamSched \<Rightarrow> TfwStreamSched option" where
  "tfw_h2_remove_stream_dep s S =
     (case se_parent (sc_entry S s) of
        None \<Rightarrow> None
      | Some p \<Rightarrow> do {
          S1 \<leftarrow> sched_detach s S;
          let S2 = upd_entry s (\<lambda>e. e\<lparr>se_active_cnt := 0\<rparr>) S1;
          let has_children = tfw_h2_stream_sched_has_children S2 p;
          S3 \<leftarrow> tfw_h2_stream_sched_move_children False s p has_children S2;
          S4 \<leftarrow> tfw_h2_stream_sched_move_children True s p has_children S3;
          if \<not> tfw_h2_stream_is_active S s then Some S4
          else sched_propagate_dec p 1 S4
        })"

text \<open>Is \<open>s\<close> a proper ancestor of the entry \<open>k\<close>?\<close>

partial_function (option) sched_has_ancestor ::
    "sid \<Rightarrow> sid option \<Rightarrow> TfwStreamSched \<Rightarrow> bool option" where
  [code]: "sched_has_ancestor s k S =
     (case k of
        None \<Rightarrow> Some False
      | Some p \<Rightarrow>
          if p = sched_root then Some False
          else if p = s then Some True
          else sched_has_ancestor s (se_parent (sc_entry S p)) S)"

definition tfw_h2_is_stream_depend_on_child ::
    "sid \<Rightarrow> sid \<Rightarrow> TfwStreamSched \<Rightarrow> bool option" where
  "tfw_h2_is_stream_depend_on_child s new_parent S =
     sched_has_ancestor s (se_parent (sc_entry S new_parent)) S"

definition set_weight :: "u16 \<Rightarrow> sid \<Rightarrow> TfwStreamSched \<Rightarrow> TfwStreamSched" where
  "set_weight w s = upd_stream s (\<lambda>t. t\<lparr>st_weight := w\<rparr>)"

definition tfw_h2_change_stream_dep ::
    "sid \<Rightarrow> sid \<Rightarrow> u16 \<Rightarrow> bool \<Rightarrow> TfwStreamSched \<Rightarrow> TfwStreamSched option" where
  "tfw_h2_change_stream_dep i new_dep new_weight excl S = do {
     s \<leftarrow> tfw_h2_find_stream (sc_streams S) i;
     old_parent \<leftarrow> se_parent (sc_entry S s);
     let new_parent = tfw_h2_find_stream_dep S new_dep;
     depends \<leftarrow> tfw_h2_is_stream_depend_on_child s new_parent S;
     if \<not> depends then do {
       S \<leftarrow> tfw_h2_stream_sched_remove s S;
       tfw_h2_add_stream_dep s new_parent excl (set_weight new_weight s S)
     } else if new_parent = sched_root then None
     else do {
       S \<leftarrow> tfw_h2_stream_sched_remove new_parent S;
       S \<leftarrow> tfw_h2_stream_sched_remove s S;
       S \<leftarrow> tfw_h2_add_stream_dep new_parent old_parent False (set_weight new_weight s S);
       tfw_h2_add_stream_dep s new_parent excl S
     }
   }"

text \<open>
  The search for the stream to send from.  The outer option is \<open>None\<close> for the
  \<^verbatim>\<open>BUG()\<close>; the inner one is the returned pointer.
\<close>

partial_function (option) sched_most_prio ::
    "sid \<Rightarrow> TfwStreamSched \<Rightarrow> sid option option" where
  [code]: "sched_most_prio k S =
     (case se_active (sc_entry S k) of
        [] \<Rightarrow> Some None
      | xs \<Rightarrow>
          let s = last xs in
          if tfw_h2_stream_is_active S s then Some (Some s)
          else if se_active_cnt (sc_entry S s) \<noteq> 0 then sched_most_prio s S
          else None)"

definition tfw_h2_sched_get_most_prio_stream :: "TfwStreamSched \<Rightarrow> sid option option" where
  "tfw_h2_sched_get_most_prio_stream S = sched_most_prio sched_root S"

definition tfw_h2_sched_activate_stream :: "sid \<Rightarrow> TfwStreamSched \<Rightarrow> TfwStreamSched option" where
  "tfw_h2_sched_activate_stream s S =
     (if \<not> tfw_h2_stream_is_active S s then None
      else case se_parent (sc_entry S s) of
          None \<Rightarrow> None
        | Some p \<Rightarrow>
            Option.bind
              (if se_active_cnt (sc_entry S s) = 0
               then tfw_h2_stream_sched_insert_active s S else Some S)
              (sched_propagate_add p 1))"

definition tfw_h2_sched_deactivate_stream :: "sid \<Rightarrow> TfwStreamSched \<Rightarrow> TfwStreamSched option" where
  "tfw_h2_sched_deactivate_stream s S =
     (if tfw_h2_stream_is_active S s then None
      else case se_parent (sc_entry S s) of
          None \<Rightarrow> None
        | Some p \<Rightarrow>
            Option.bind
              (if se_active_cnt (sc_entry S s) = 0
               then tfw_h2_stream_sched_insert_blocked s S else Some S)
              (sched_propagate_dec p 1))"

definition tfw_h2_init_stream_sched_entry :: TfwStreamSchedEntry where
  "tfw_h2_init_stream_sched_entry =
     \<lparr>se_total_weight = 0, se_active_cnt = 0, se_parent = None, se_active = [], se_blocked = []\<rparr>"

definition tfw_h2_stream_is_exclusive :: "sid \<Rightarrow> TfwStreamSched \<Rightarrow> bool option" where
  "tfw_h2_stream_is_exclusive s S =
     (case se_parent (sc_entry S s) of
        None \<Rightarrow> None
      | Some p \<Rightarrow>
          if se_active (sc_entry S p) = [] then None
          else Some (length (se_active (sc_entry S p)) = 1 \<and> se_blocked (sc_entry S p) = []))"

end
