(* ===== verification/H2_Sched_Inv.thy ===== *)
theory H2_Sched_Inv
  imports H2_Sched
begin

text \<open>
  The invariant of the priority scheduler and its preservation by every operation of
  \<^verbatim>\<open>src/fw/http_stream_sched.c\<close>.  The invariant has a parameter \<open>d\<close>, the number of active
  descendants which an entry does not count yet: most operations change a branch of the
  tree first and repair the counters of its ancestors afterwards.
\<close>

section \<open>The weight ordered lists\<close>

lemma sched_before_trans:
  "sched_before w a b \<Longrightarrow> sched_before w b c \<Longrightarrow> sched_before w a c"
  by (auto simp: sched_before_def)

lemma sched_before_total:
  "a \<noteq> b \<Longrightarrow> \<not> sched_before w a b \<Longrightarrow> sched_before w b a"
  by (auto simp: sched_before_def)

lemma sched_before_irrefl: "\<not> sched_before w a a"
  by (simp add: sched_before_def)

lemma insert_by_weight_split:
  obtains ys zs where "head = ys @ zs"
    and "tfw_h2_stream_sched_insert_by_weight w head s = ys @ s # zs"
    and "\<forall>z \<in> set zs. \<not> sched_before w z s"
    and "ys \<noteq> [] \<Longrightarrow> sched_before w (last ys) s"
proof
  let ?P = "\<lambda>pos. \<not> sched_before w pos s"
  let ?ys = "rev (dropWhile ?P (rev head))" and ?zs = "rev (takeWhile ?P (rev head))"
  show "head = ?ys @ ?zs"
    by (metis rev_append rev_rev_ident takeWhile_dropWhile_id)
  show "tfw_h2_stream_sched_insert_by_weight w head s = ?ys @ s # ?zs"
    by (simp add: tfw_h2_stream_sched_insert_by_weight_def)
  show "\<forall>z \<in> set ?zs. \<not> sched_before w z s"
    by (auto dest: set_takeWhileD)
  show "sched_before w (last ?ys) s" if "?ys \<noteq> []"
    using that hd_dropWhile [of ?P "rev head"] by (simp add: last_rev)
qed

lemma set_insert_by_weight [simp]:
  "set (tfw_h2_stream_sched_insert_by_weight w head s) = insert s (set head)"
  by (rule insert_by_weight_split [of head w s]) auto

lemma distinct_insert_by_weight [simp]:
  "distinct (tfw_h2_stream_sched_insert_by_weight w head s) \<longleftrightarrow> s \<notin> set head \<and> distinct head"
  by (rule insert_by_weight_split [of head w s]) auto

lemma sorted_insert_by_weight:
  assumes "sorted_wrt (sched_before w) head" and "s \<notin> set head"
  shows "sorted_wrt (sched_before w) (tfw_h2_stream_sched_insert_by_weight w head s)"
proof (rule insert_by_weight_split [of head w s])
  fix ys zs
  assume h: "head = ys @ zs" and r: "tfw_h2_stream_sched_insert_by_weight w head s = ys @ s # zs"
    and z: "\<forall>z \<in> set zs. \<not> sched_before w z s" and y: "ys \<noteq> [] \<Longrightarrow> sched_before w (last ys) s"
  have "sched_before w a s" if a: "a \<in> set ys" for a
  proof (cases "a = last ys")
    case True
    with y a show ?thesis by (metis empty_iff list.set(1))
  next
    case False
    obtain us u where ys: "ys = us @ [u]"
      using a by (cases ys rule: rev_cases) auto
    with assms(1) h False a have "sched_before w a u"
      by (auto simp: sorted_wrt_append)
    with y ys show ?thesis
      by (auto intro: sched_before_trans)
  qed
  moreover have "sched_before w s a" if "a \<in> set zs" for a
    using z that assms(2) h by (auto intro: sched_before_total)
  ultimately show ?thesis
    using assms(1) unfolding r by (auto simp: h sorted_wrt_append)
qed

lemma sorted_before_cong:
  assumes "\<And>s. s \<in> set xs \<Longrightarrow> w' s = w s"
  shows "sorted_wrt (sched_before w') xs = sorted_wrt (sched_before w) xs"
  using assms by (induction xs) (auto simp: sched_before_def)

lemma sorted_wrt_remove1: "sorted_wrt P xs \<Longrightarrow> sorted_wrt P (remove1 x xs)"
  by (induction xs) (auto dest!: set_remove1_subset [THEN subsetD])

section \<open>The invariant\<close>

abbreviation (input) par :: "TfwStreamSched \<Rightarrow> sid \<Rightarrow> sid option" where
  "par S s \<equiv> se_parent (sc_entry S s)"

abbreviation (input) cnt :: "TfwStreamSched \<Rightarrow> sid \<Rightarrow> int" where
  "cnt S k \<equiv> se_active_cnt (sc_entry S k)"

abbreviation (input) node :: "TfwStreamSched \<Rightarrow> sid \<Rightarrow> sched_link" where
  "node S s \<equiv> st_sched_node (sc_stream S s)"

definition stream_ids :: "TfwStreamSched \<Rightarrow> sid set" where
  "stream_ids S = set_tree (sc_streams S)"

definition up :: "TfwStreamSched \<Rightarrow> (sid \<times> sid) set" where
  "up S = {(s, p). par S s = Some p}"

definition sched_keys :: "TfwStreamSched \<Rightarrow> sid set" where
  "sched_keys S = insert sched_root (stream_ids S)"

definition inv_tree :: "TfwStreamSched \<Rightarrow> bool" where
  "inv_tree S \<longleftrightarrow> bst (sc_streams S) \<and> sched_root \<notin> stream_ids S
     \<and> (\<forall>s. s \<notin> stream_ids S \<longrightarrow> par S s = None)
     \<and> (\<forall>s p. par S s = Some p \<longrightarrow> p \<in> sched_keys S)
     \<and> acyclic (up S)"

text \<open>The lists agree with the list nodes, have no duplicates, and active lists are ordered.\<close>

definition lists_ok :: "TfwStreamSched \<Rightarrow> sid \<Rightarrow> bool" where
  "lists_ok S k \<longleftrightarrow>
     distinct (se_active (sc_entry S k)) \<and> distinct (se_blocked (sc_entry S k))
     \<and> (\<forall>s. s \<in> set (se_active (sc_entry S k)) \<longleftrightarrow> s \<in> stream_ids S \<and> node S s = In_active k)
     \<and> (\<forall>s. s \<in> set (se_blocked (sc_entry S k)) \<longleftrightarrow> s \<in> stream_ids S \<and> node S s = In_blocked k)
     \<and> sorted_wrt (sched_before (stream_weight S)) (se_active (sc_entry S k))"

definition inv_lists :: "TfwStreamSched \<Rightarrow> bool" where
  "inv_lists S \<longleftrightarrow> (\<forall>k \<in> sched_keys S. lists_ok S k)"

text \<open>A stream has something to send itself or below it.\<close>

definition live :: "TfwStreamSched \<Rightarrow> sid \<Rightarrow> bool" where
  "live S s \<longleftrightarrow> tfw_h2_stream_is_active S s \<or> cnt S s \<noteq> 0"

definition linked_ok :: "TfwStreamSched \<Rightarrow> sid \<Rightarrow> bool" where
  "linked_ok S s \<longleftrightarrow>
     (case par S s of
        None \<Rightarrow> node S s = Unlinked
          \<and> st_sched_state (sc_stream S s) = HTTP2_STREAM_SCHED_STATE_UNKNOWN
      | Some p \<Rightarrow>
          if live S s then node S s = In_active p
            \<and> st_sched_state (sc_stream S s) = HTTP2_STREAM_SCHED_STATE_ACTIVE
          else node S s = In_blocked p
            \<and> st_sched_state (sc_stream S s) = HTTP2_STREAM_SCHED_STATE_BLOCKED)"

definition children :: "TfwStreamSched \<Rightarrow> sid \<Rightarrow> sid set" where
  "children S k = {s. par S s = Some k}"

definition inv_cnt :: "(sid \<Rightarrow> int) \<Rightarrow> TfwStreamSched \<Rightarrow> bool" where
  "inv_cnt d S \<longleftrightarrow>
     (\<forall>k \<in> sched_keys S.
        0 \<le> cnt S k \<and> cnt S k + d k = (\<Sum>s \<in> children S k. stream_active_cnt S s))"

definition sched_inv :: "(sid \<Rightarrow> int) \<Rightarrow> TfwStreamSched \<Rightarrow> bool" where
  "sched_inv d S \<longleftrightarrow> inv_tree S \<and> inv_lists S \<and> (\<forall>s \<in> stream_ids S. linked_ok S s) \<and> inv_cnt d S"

section \<open>Projections of updates\<close>

lemma upd_proj [simp]:
  "sc_entry (upd_entry k f S) = (sc_entry S)(k := f (sc_entry S k))"
  "sc_stream (upd_entry k f S) = sc_stream S"
  "sc_streams (upd_entry k f S) = sc_streams S"
  "sc_blocked_streams (upd_entry k f S) = sc_blocked_streams S"
  "sc_stream (upd_stream s g S) = (sc_stream S)(s := g (sc_stream S s))"
  "sc_entry (upd_stream s g S) = sc_entry S"
  "sc_streams (upd_stream s g S) = sc_streams S"
  "sc_blocked_streams (upd_stream s g S) = sc_blocked_streams S"
  by (simp_all add: upd_entry_def upd_stream_def)

lemma stream_ids_upd [simp]:
  "stream_ids (upd_entry k f S) = stream_ids S"
  "stream_ids (upd_stream s g S) = stream_ids S"
  by (simp_all add: stream_ids_def)

lemma finite_stream_ids [simp]: "finite (stream_ids S)"
  by (simp add: stream_ids_def)

lemma sched_keys_cong: "stream_ids S' = stream_ids S \<Longrightarrow> sched_keys S' = sched_keys S"
  by (simp add: sched_keys_def)

lemma stream_weight_upd [simp]:
  "stream_weight (upd_entry k f S) = stream_weight S"
  "(\<And>t. st_weight (g t) = st_weight t) \<Longrightarrow> stream_weight (upd_stream s g S) = stream_weight S"
  by (auto simp: stream_weight_def)

lemma is_active_upd [simp]:
  "tfw_h2_stream_is_active (upd_entry k f S) = tfw_h2_stream_is_active S"
  "(\<And>t. st_xmit (g t) = st_xmit t) \<Longrightarrow>
   tfw_h2_stream_is_active (upd_stream s g S) = tfw_h2_stream_is_active S"
  by (auto simp: tfw_h2_stream_is_active_def fun_eq_iff)

lemma list_del_proj [simp]:
  "sc_streams (sched_list_del s S) = sc_streams S"
  "sc_blocked_streams (sched_list_del s S) = sc_blocked_streams S"
  "stream_ids (sched_list_del s S) = stream_ids S"
  "se_parent (sc_entry (sched_list_del s S) t) = se_parent (sc_entry S t)"
  "se_active_cnt (sc_entry (sched_list_del s S) t) = se_active_cnt (sc_entry S t)"
  "se_total_weight (sc_entry (sched_list_del s S) t) = se_total_weight (sc_entry S t)"
  "sc_stream (sched_list_del s S)
     = (sc_stream S)(s := (sc_stream S s)\<lparr>st_sched_node := Unlinked\<rparr>)"
  by (simp_all add: sched_list_del_def split: sched_link.splits)

lemma list_del_funs [simp]:
  "sched_keys (sched_list_del s S) = sched_keys S"
  "stream_weight (sched_list_del s S) = stream_weight S"
  "tfw_h2_stream_is_active (sched_list_del s S) = tfw_h2_stream_is_active S"
  by (auto simp: sched_keys_def stream_weight_def tfw_h2_stream_is_active_def fun_eq_iff)

lemma list_del_lists:
  "se_active (sc_entry (sched_list_del s S) k) =
     (if node S s = In_active k then remove1 s (se_active (sc_entry S k))
      else se_active (sc_entry S k))"
  "se_blocked (sc_entry (sched_list_del s S) k) =
     (if node S s = In_blocked k then remove1 s (se_blocked (sc_entry S k))
      else se_blocked (sc_entry S k))"
  by (auto simp: sched_list_del_def split: sched_link.splits)

lemma inv_lists_del:
  assumes "inv_lists S"
  shows "inv_lists (sched_list_del s S)"
  using assms unfolding inv_lists_def lists_ok_def
  by (auto simp: list_del_lists sorted_wrt_remove1)

text \<open>Putting an unlinked stream into a list of \<open>p\<close>.\<close>

definition link_active :: "sid \<Rightarrow> sid \<Rightarrow> TfwStreamSched \<Rightarrow> TfwStreamSched" where
  "link_active s p S =
     upd_stream s (\<lambda>t. t\<lparr>st_sched_node := In_active p,
                       st_sched_state := HTTP2_STREAM_SCHED_STATE_ACTIVE\<rparr>)
       (upd_entry p (\<lambda>e. e\<lparr>se_active :=
          tfw_h2_stream_sched_insert_by_weight (stream_weight S) (se_active e) s\<rparr>) S)"

definition link_blocked :: "sid \<Rightarrow> sid \<Rightarrow> TfwStreamSched \<Rightarrow> TfwStreamSched" where
  "link_blocked s p S =
     upd_stream s (\<lambda>t. t\<lparr>st_sched_node := In_blocked p,
                       st_sched_state := HTTP2_STREAM_SCHED_STATE_BLOCKED\<rparr>)
       (upd_entry p (\<lambda>e. e\<lparr>se_blocked := s # se_blocked e\<rparr>) S)"

lemma link_funs [simp]:
  "stream_ids (link_active s p S) = stream_ids S"
  "stream_ids (link_blocked s p S) = stream_ids S"
  "sched_keys (link_active s p S) = sched_keys S"
  "sched_keys (link_blocked s p S) = sched_keys S"
  "stream_weight (link_active s p S) = stream_weight S"
  "stream_weight (link_blocked s p S) = stream_weight S"
  "tfw_h2_stream_is_active (link_active s p S) = tfw_h2_stream_is_active S"
  "tfw_h2_stream_is_active (link_blocked s p S) = tfw_h2_stream_is_active S"
  by (auto simp: link_active_def link_blocked_def sched_keys_def)

lemma link_proj [simp]:
  "sc_streams (link_active s p S) = sc_streams S"
  "sc_streams (link_blocked s p S) = sc_streams S"
  "se_parent (sc_entry (link_active s p S) t) = se_parent (sc_entry S t)"
  "se_parent (sc_entry (link_blocked s p S) t) = se_parent (sc_entry S t)"
  "se_active_cnt (sc_entry (link_active s p S) t) = se_active_cnt (sc_entry S t)"
  "se_active_cnt (sc_entry (link_blocked s p S) t) = se_active_cnt (sc_entry S t)"
  "t \<noteq> s \<Longrightarrow> sc_stream (link_active s p S) t = sc_stream S t"
  "t \<noteq> s \<Longrightarrow> sc_stream (link_blocked s p S) t = sc_stream S t"
  "node (link_active s p S) s = In_active p"
  "node (link_blocked s p S) s = In_blocked p"
  "st_sched_state (sc_stream (link_active s p S) s) = HTTP2_STREAM_SCHED_STATE_ACTIVE"
  "st_sched_state (sc_stream (link_blocked s p S) s) = HTTP2_STREAM_SCHED_STATE_BLOCKED"
  by (simp_all add: link_active_def link_blocked_def)

lemma inv_lists_link:
  assumes "inv_lists S" "node S s = Unlinked" "s \<in> stream_ids S"
  shows "inv_lists (link_active s p S)" and "inv_lists (link_blocked s p S)"
  using assms unfolding inv_lists_def lists_ok_def
  by (auto simp: link_active_def link_blocked_def sched_keys_def sorted_insert_by_weight)

section \<open>Relinking one stream\<close>

text \<open>
  What the code does to a stream whose count or transmit state has changed: move it to
  the list that it belongs to, unless it is there already.
\<close>

definition relink :: "sid \<Rightarrow> TfwStreamSched \<Rightarrow> TfwStreamSched" where
  "relink s S =
     (case par S s of
        None \<Rightarrow> S
      | Some p \<Rightarrow>
          if live S s then
            if st_sched_state (sc_stream S s) = HTTP2_STREAM_SCHED_STATE_ACTIVE then S
            else link_active s p (sched_list_del s S)
          else if st_sched_state (sc_stream S s) = HTTP2_STREAM_SCHED_STATE_BLOCKED then S
          else link_blocked s p (sched_list_del s S))"

lemma relink_funs [simp]:
  "sc_streams (relink s S) = sc_streams S"
  "stream_ids (relink s S) = stream_ids S"
  "sched_keys (relink s S) = sched_keys S"
  "stream_weight (relink s S) = stream_weight S"
  "tfw_h2_stream_is_active (relink s S) = tfw_h2_stream_is_active S"
  "se_parent (sc_entry (relink s S) t) = se_parent (sc_entry S t)"
  "se_active_cnt (sc_entry (relink s S) t) = se_active_cnt (sc_entry S t)"
  by (simp_all add: relink_def split: option.splits)

lemma relink_stream: "t \<noteq> s \<Longrightarrow> sc_stream (relink s S) t = sc_stream S t"
  by (simp add: relink_def split: option.splits)

lemma live_cong:
  "tfw_h2_stream_is_active S' t = tfw_h2_stream_is_active S t \<Longrightarrow> cnt S' t = cnt S t \<Longrightarrow>
   live S' t = live S t"
  by (simp add: live_def)

lemma insert_active_link:
  "par S s = Some p \<Longrightarrow> live S s \<Longrightarrow>
   st_sched_state (sc_stream S s) \<noteq> HTTP2_STREAM_SCHED_STATE_ACTIVE \<Longrightarrow>
   tfw_h2_stream_sched_insert_active s S = Some (link_active s p (sched_list_del s S))"
  by (auto simp: tfw_h2_stream_sched_insert_active_def live_def link_active_def)

lemma insert_blocked_link:
  "par S s = Some p \<Longrightarrow> \<not> live S s \<Longrightarrow>
   st_sched_state (sc_stream S s) \<noteq> HTTP2_STREAM_SCHED_STATE_BLOCKED \<Longrightarrow>
   tfw_h2_stream_sched_insert_blocked s S = Some (link_blocked s p (sched_list_del s S))"
  by (auto simp: tfw_h2_stream_sched_insert_blocked_def live_def link_blocked_def)

text \<open>The list node and the scheduler state of \<open>s\<close> agree, whatever list it is in.\<close>

definition half_linked :: "TfwStreamSched \<Rightarrow> sid \<Rightarrow> bool" where
  "half_linked S s \<longleftrightarrow> (\<exists>p. par S s = Some p \<and>
     (st_sched_state (sc_stream S s) = HTTP2_STREAM_SCHED_STATE_ACTIVE \<longrightarrow> node S s = In_active p) \<and>
     (st_sched_state (sc_stream S s) = HTTP2_STREAM_SCHED_STATE_BLOCKED \<longrightarrow> node S s = In_blocked p))"

lemma relink_ok:
  assumes "inv_lists S" "s \<in> stream_ids S" "half_linked S s"
    and "\<forall>t \<in> stream_ids S. t \<noteq> s \<longrightarrow> linked_ok S t"
  shows "inv_lists (relink s S) \<and> (\<forall>t \<in> stream_ids S. linked_ok (relink s S) t)"
proof
  from assms(3) obtain p where p: "par S s = Some p"
    "st_sched_state (sc_stream S s) = HTTP2_STREAM_SCHED_STATE_ACTIVE \<longrightarrow> node S s = In_active p"
    "st_sched_state (sc_stream S s) = HTTP2_STREAM_SCHED_STATE_BLOCKED \<longrightarrow> node S s = In_blocked p"
    by (auto simp: half_linked_def)
  have del: "inv_lists (sched_list_del s S)" "node (sched_list_del s S) s = Unlinked"
    using assms(1) by (simp_all add: inv_lists_del)
  show "inv_lists (relink s S)"
    using assms(1,2) del p by (auto simp: relink_def intro!: inv_lists_link)
  show "\<forall>t \<in> stream_ids S. linked_ok (relink s S) t"
  proof
    fix t assume t: "t \<in> stream_ids S"
    have l: "live (relink s S) t = live S t"
      by (rule live_cong) simp_all
    show "linked_ok (relink s S) t"
    proof (cases "t = s")
      case True
      have "if live S s then node (relink s S) s = In_active p
          \<and> st_sched_state (sc_stream (relink s S) s) = HTTP2_STREAM_SCHED_STATE_ACTIVE
        else node (relink s S) s = In_blocked p
          \<and> st_sched_state (sc_stream (relink s S) s) = HTTP2_STREAM_SCHED_STATE_BLOCKED"
        using p by (auto simp: relink_def)
      with True l p(1) show ?thesis
        by (auto simp: linked_ok_def split: if_splits)
    next
      case False
      with l t assms(4) show ?thesis
        by (auto simp: linked_ok_def relink_stream split: option.splits)
    qed
  qed
qed

section \<open>Congruence\<close>

lemma inv_tree_cong:
  assumes "sc_streams S' = sc_streams S" "\<And>t. par S' t = par S t"
  shows "inv_tree S' = inv_tree S"
  using assms by (simp add: inv_tree_def stream_ids_def sched_keys_def up_def)

lemma inv_cnt_cong:
  assumes "sc_streams S' = sc_streams S" "\<And>t. par S' t = par S t" "\<And>t. cnt S' t = cnt S t"
    and "tfw_h2_stream_is_active S' = tfw_h2_stream_is_active S"
  shows "inv_cnt d S' = inv_cnt d S"
  using assms
  by (simp add: inv_cnt_def stream_ids_def sched_keys_def children_def stream_active_cnt_def)

lemma children_subset: "inv_tree S \<Longrightarrow> children S k \<subseteq> stream_ids S"
  by (auto simp: inv_tree_def children_def)

lemma finite_children [simp]: "inv_tree S \<Longrightarrow> finite (children S k)"
  using children_subset finite_stream_ids finite_subset by blast

lemma par_neq_self: "inv_tree S \<Longrightarrow> par S s = Some p \<Longrightarrow> p \<noteq> s"
  by (auto simp: inv_tree_def up_def acyclic_def)

lemma val_nonneg:
  "inv_cnt d S \<Longrightarrow> s \<in> sched_keys S \<Longrightarrow> 0 \<le> stream_active_cnt S s"
  by (auto simp: inv_cnt_def stream_active_cnt_def)

section \<open>Counting\<close>

text \<open>The parameter of the invariant when only the entry \<open>p\<close> is wrong, by \<open>c\<close>.\<close>

definition owes :: "sid \<Rightarrow> int \<Rightarrow> sid \<Rightarrow> int" where
  "owes p c = (\<lambda>k. if k = p then c else 0)"

abbreviation (input) settled_cnt :: "sid \<Rightarrow> int" where
  "settled_cnt \<equiv> (\<lambda>_. 0)"

lemma owes_zero [simp]: "owes p 0 = settled_cnt"
  by (simp add: owes_def)

lemma owed_nonneg:
  assumes "inv_tree S" "inv_cnt d S" "p \<in> sched_keys S"
  shows "0 \<le> cnt S p + d p"
proof -
  have "0 \<le> (\<Sum>s \<in> children S p. stream_active_cnt S s)"
    using assms(1,2) children_subset [OF assms(1)]
    by (intro sum_nonneg val_nonneg) (auto simp: sched_keys_def)
  with assms(2,3) show ?thesis by (simp add: inv_cnt_def)
qed

lemma sum_children_change:
  assumes "inv_tree S" and "\<And>t. par S' t = par S t"
    and "\<And>t. t \<noteq> s \<Longrightarrow> stream_active_cnt S' t = stream_active_cnt S t"
  shows "(\<Sum>t \<in> children S' k. stream_active_cnt S' t) = (\<Sum>t \<in> children S k. stream_active_cnt S t)
     + (if par S s = Some k then stream_active_cnt S' s - stream_active_cnt S s else 0)"
proof -
  have ch: "children S' k = children S k"
    using assms(2) by (simp add: children_def)
  show ?thesis
  proof (cases "s \<in> children S k")
    case True
    have "(\<Sum>t \<in> children S k - {s}. stream_active_cnt S' t)
        = (\<Sum>t \<in> children S k - {s}. stream_active_cnt S t)"
      using assms(3) by (intro sum.cong) auto
    with True assms(1) ch show ?thesis
      by (simp add: sum.remove [of _ s] children_def)
  next
    case False
    then have "(\<Sum>t \<in> children S k. stream_active_cnt S' t) = (\<Sum>t \<in> children S k. stream_active_cnt S t)"
      using assms(3) by (intro sum.cong) metis+
    with False ch show ?thesis
      by (simp add: children_def)
  qed
qed

text \<open>
  One turn of the loops: the entry \<open>p\<close> is corrected by \<open>c\<close>, its stream is relinked, and
  the correction is now owed by the parent of \<open>p\<close>.
\<close>

lemma inv_cnt_bump:
  assumes "inv_tree S" "inv_cnt (owes p c) S" "p \<in> sched_keys S"
  shows "inv_cnt (case par S p of None \<Rightarrow> settled_cnt | Some q \<Rightarrow> owes q c)
           (upd_entry p (add_active_cnt c) S)"
proof -
  let ?S = "upd_entry p (add_active_cnt c) S"
  have sums: "(\<Sum>t \<in> children ?S k. stream_active_cnt ?S t)
      = (\<Sum>t \<in> children S k. stream_active_cnt S t) + (if par S p = Some k then c else 0)" for k
    by (subst sum_children_change [OF assms(1), of ?S p])
       (auto simp: stream_active_cnt_def add_active_cnt_def)
  have "0 \<le> cnt S p + c"
    using owed_nonneg [OF assms] by (simp add: owes_def)
  then show ?thesis
    using assms(2) par_neq_self [OF assms(1), of p]
    by (auto simp: inv_cnt_def sums add_active_cnt_def owes_def sched_keys_def split: option.splits)
qed

lemma inv_lists_cong:
  assumes "sc_streams S' = sc_streams S" "\<And>t. node S' t = node S t"
    and "\<And>t. se_active (sc_entry S' t) = se_active (sc_entry S t)"
    and "\<And>t. se_blocked (sc_entry S' t) = se_blocked (sc_entry S t)"
    and "stream_weight S' = stream_weight S"
  shows "inv_lists S' = inv_lists S"
  using assms by (simp add: inv_lists_def lists_ok_def sched_keys_def stream_ids_def)

lemma sched_inv_bump:
  assumes inv: "sched_inv (owes p c) S" and "p \<in> stream_ids S" and q: "par S p = Some q"
  shows "sched_inv (owes q c) (relink p (upd_entry p (add_active_cnt c) S))"
proof -
  let ?S = "upd_entry p (add_active_cnt c) S"
  have tree: "inv_tree S" and lists: "inv_lists S" and cnt: "inv_cnt (owes p c) S"
    and lnk: "\<forall>t \<in> stream_ids S. linked_ok S t"
    using inv by (auto simp: sched_inv_def)
  have "inv_lists ?S"
    using lists by (subst inv_lists_cong [of ?S S]) (auto simp: add_active_cnt_def)
  moreover have "half_linked ?S p"
    using lnk assms(2) q by (auto simp: half_linked_def linked_ok_def add_active_cnt_def
        split: if_splits)
  moreover have "\<forall>t \<in> stream_ids ?S. t \<noteq> p \<longrightarrow> linked_ok ?S t"
    using lnk by (auto simp: linked_ok_def live_def split: option.splits)
  ultimately have "inv_lists (relink p ?S) \<and> (\<forall>t \<in> stream_ids S. linked_ok (relink p ?S) t)"
    using relink_ok [of ?S p] assms(2) by simp
  moreover have "inv_tree (relink p ?S)"
    using tree by (subst inv_tree_cong [of _ S]) (auto simp: add_active_cnt_def)
  moreover have "inv_cnt (owes q c) (relink p ?S)"
    using inv_cnt_bump [OF tree cnt] q assms(2)
    by (subst inv_cnt_cong [of _ ?S]) (auto simp: sched_keys_def)
  ultimately show ?thesis by (simp add: sched_inv_def)
qed

lemma sched_inv_bump_top:
  assumes inv: "sched_inv (owes p c) S" and "p \<in> sched_keys S" and q: "par S p = None"
  shows "sched_inv settled_cnt (upd_entry p (add_active_cnt c) S)"
proof -
  let ?S = "upd_entry p (add_active_cnt c) S"
  have tree: "inv_tree S" and lists: "inv_lists S" and cnt: "inv_cnt (owes p c) S"
    and lnk: "\<forall>t \<in> stream_ids S. linked_ok S t"
    using inv by (auto simp: sched_inv_def)
  have "inv_lists ?S"
    using lists by (subst inv_lists_cong [of ?S S]) (auto simp: add_active_cnt_def)
  moreover have "\<forall>t \<in> stream_ids ?S. linked_ok ?S t"
    using lnk q by (auto simp: linked_ok_def live_def add_active_cnt_def split: option.splits)
  moreover have "inv_tree ?S"
    using tree by (subst inv_tree_cong [of _ S]) (auto simp: add_active_cnt_def)
  moreover have "inv_cnt settled_cnt ?S"
    using inv_cnt_bump [OF tree cnt assms(2)] q by simp
  ultimately show ?thesis by (simp add: sched_inv_def)
qed

section \<open>The loops up the tree\<close>

text \<open>What the loops leave alone: everything but counters, lists and list nodes.\<close>

definition unlinked :: "TfwStream \<Rightarrow> TfwStream" where
  "unlinked t = t\<lparr>st_sched_node := Unlinked, st_sched_state := HTTP2_STREAM_SCHED_STATE_UNKNOWN\<rparr>"

lemma unlinked_fields [simp]:
  "st_weight (unlinked t) = st_weight t" "st_xmit (unlinked t) = st_xmit t"
  "st_state (unlinked t) = st_state t" "st_queue (unlinked t) = st_queue t"
  "unlinked (t\<lparr>st_sched_node := l\<rparr>) = unlinked t"
  "unlinked (t\<lparr>st_sched_state := c\<rparr>) = unlinked t"
  by (simp_all add: unlinked_def)

definition same_shape :: "TfwStreamSched \<Rightarrow> TfwStreamSched \<Rightarrow> bool" where
  "same_shape S S' \<longleftrightarrow> sc_streams S' = sc_streams S
     \<and> sc_blocked_streams S' = sc_blocked_streams S
     \<and> (\<forall>t. par S' t = par S t)
     \<and> (\<forall>t. se_total_weight (sc_entry S' t) = se_total_weight (sc_entry S t))
     \<and> (\<forall>t. unlinked (sc_stream S' t) = unlinked (sc_stream S t))"

lemma same_shape_refl [simp]: "same_shape S S"
  by (simp add: same_shape_def)

lemma same_shape_trans: "same_shape S T \<Longrightarrow> same_shape T U \<Longrightarrow> same_shape S U"
  by (simp add: same_shape_def)

lemma same_shapeD:
  assumes "same_shape S S'"
  shows "sc_streams S' = sc_streams S" "par S' t = par S t" "up S' = up S"
    and "stream_ids S' = stream_ids S" "sched_keys S' = sched_keys S" "children S' k = children S k"
    and "stream_weight S' = stream_weight S"
    and "tfw_h2_stream_is_active S' = tfw_h2_stream_is_active S"
proof -
  have *: "st_weight (sc_stream S' t) = st_weight (sc_stream S t) \<and>
      st_xmit (sc_stream S' t) = st_xmit (sc_stream S t)" for t
    using assms unfolding same_shape_def by (metis unlinked_fields(1,2))
  show "sc_streams S' = sc_streams S" "par S' t = par S t" "up S' = up S"
    "stream_ids S' = stream_ids S" "sched_keys S' = sched_keys S" "children S' k = children S k"
    using assms by (simp_all add: same_shape_def up_def stream_ids_def sched_keys_def children_def)
  show "stream_weight S' = stream_weight S"
    "tfw_h2_stream_is_active S' = tfw_h2_stream_is_active S"
    using * by (simp_all add: fun_eq_iff stream_weight_def tfw_h2_stream_is_active_def)
qed

lemma same_shape_bump: "same_shape S (upd_entry p (add_active_cnt c) S)"
  by (simp add: same_shape_def add_active_cnt_def)

lemma same_shape_relink: "same_shape S (relink p S)"
  by (auto simp: same_shape_def relink_def link_active_def link_blocked_def split: option.splits)

lemma up_wf:
  assumes "inv_tree S"
  shows "wf ((up S)\<inverse>)" and "wf (up S)"
proof -
  have "up S \<subseteq> stream_ids S \<times> sched_keys S"
    using assms by (auto simp: up_def inv_tree_def)
  then have "finite (up S)"
    by (rule finite_subset) (simp add: sched_keys_def)
  with assms show "wf ((up S)\<inverse>)" "wf (up S)"
    by (auto simp: inv_tree_def intro: finite_acyclic_wf_converse finite_acyclic_wf)
qed

text \<open>
  \<open>propagated d p S S'\<close>: the loop that starts at \<open>p\<close> ended in \<open>S'\<close> with all counters right, and
  changed the counters of \<open>p\<close> and its ancestors only.
\<close>

definition propagated :: "sid \<Rightarrow> TfwStreamSched \<Rightarrow> TfwStreamSched \<Rightarrow> bool" where
  "propagated p S S' \<longleftrightarrow> sched_inv settled_cnt S' \<and> same_shape S S'
     \<and> (\<forall>t. (p, t) \<notin> (up S)\<^sup>* \<longrightarrow> cnt S' t = cnt S t)"

lemma propagated_step:
  assumes "par S p = Some q" "same_shape S T" "\<And>t. t \<noteq> p \<Longrightarrow> cnt T t = cnt S t"
    and "propagated q T S'"
  shows "propagated p S S'"
proof -
  have "(p, q) \<in> up S"
    using assms(1) by (simp add: up_def)
  then have "(q, t) \<notin> (up T)\<^sup>*" "t \<noteq> p" if "(p, t) \<notin> (up S)\<^sup>*" for t
    using same_shapeD(3) [OF assms(2)] that by (auto intro: converse_rtrancl_into_rtrancl)
  moreover have "same_shape S S'"
    using assms(2,4) same_shape_trans by (auto simp: propagated_def)
  ultimately show ?thesis
    using assms(3,4) by (simp add: propagated_def)
qed

lemma propagated_top:
  assumes "sched_inv (owes p c) S" "p \<in> sched_keys S" "par S p = None"
  shows "propagated p S (upd_entry p (add_active_cnt c) S)"
  using sched_inv_bump_top [OF assms] same_shape_bump by (auto simp: propagated_def)

lemma root_par: "sched_inv d S \<Longrightarrow> par S sched_root = None"
  by (simp add: sched_inv_def inv_tree_def)

lemma key_cases:
  assumes "p \<in> sched_keys S" "p \<noteq> sched_root"
  shows "p \<in> stream_ids S"
  using assms by (simp add: sched_keys_def)

text \<open>One turn of either loop is a correction of the counter followed by a relink.\<close>

lemma propagate_add_turn:
  assumes inv: "sched_inv (owes p c) S" and p: "p \<in> stream_ids S" "par S p = Some q"
    and "0 < c"
  shows "sched_propagate_add p c S
       = sched_propagate_add q c (relink p (upd_entry p (add_active_cnt c) S))"
proof -
  let ?S = "upd_entry p (add_active_cnt c) S"
  have "p \<noteq> sched_root" and ok: "linked_ok S p" and nn: "0 \<le> cnt S p"
    using inv p by (auto simp: sched_inv_def inv_tree_def inv_cnt_def sched_keys_def)
  have lv: "live ?S p"
    using nn assms(4) by (simp add: live_def add_active_cnt_def)
  show ?thesis
  proof (cases "live S p")
    case True
    then have "relink p ?S = ?S"
      using ok p lv by (simp add: relink_def linked_ok_def add_active_cnt_def)
    with True p \<open>p \<noteq> sched_root\<close> show ?thesis
      by (subst sched_propagate_add.simps) (auto simp: Let_def live_def add_active_cnt_def)
  next
    case False
    then have st: "st_sched_state (sc_stream S p) = HTTP2_STREAM_SCHED_STATE_BLOCKED"
      using ok p by (simp add: linked_ok_def)
    then have "tfw_h2_stream_sched_insert_active p ?S = Some (relink p ?S)"
      using lv p by (subst insert_active_link [of _ _ q]) (auto simp: relink_def add_active_cnt_def)
    with False st p \<open>p \<noteq> sched_root\<close> show ?thesis
      by (subst sched_propagate_add.simps) (auto simp: Let_def live_def add_active_cnt_def)
  qed
qed

lemma propagate_dec_turn:
  assumes inv: "sched_inv (owes p (- c)) S" and p: "p \<in> stream_ids S" "par S p = Some q"
    and "0 < c"
  shows "sched_propagate_dec p c S
       = sched_propagate_dec q c (relink p (upd_entry p (add_active_cnt (- c)) S))"
proof -
  let ?S = "upd_entry p (add_active_cnt (- c)) S"
  have "p \<noteq> sched_root" and ok: "linked_ok S p" and nn: "0 \<le> cnt S p - c"
    using inv p owed_nonneg [of S "owes p (- c)" p]
    by (auto simp: sched_inv_def inv_tree_def inv_cnt_def sched_keys_def owes_def)
  then have st: "st_sched_state (sc_stream S p) = HTTP2_STREAM_SCHED_STATE_ACTIVE"
    using p assms(4) by (simp add: linked_ok_def live_def)
  show ?thesis
  proof (cases "live ?S p")
    case True
    then have "relink p ?S = ?S"
      using st p by (simp add: relink_def add_active_cnt_def)
    with True p \<open>p \<noteq> sched_root\<close> show ?thesis
      by (subst sched_propagate_dec.simps) (auto simp: Let_def live_def add_active_cnt_def)
  next
    case False
    then have "tfw_h2_stream_sched_insert_blocked p ?S = Some (relink p ?S)"
      using st p
      by (subst insert_blocked_link [of _ _ q]) (auto simp: relink_def add_active_cnt_def)
    with False st p \<open>p \<noteq> sched_root\<close> show ?thesis
      by (subst sched_propagate_dec.simps) (auto simp: Let_def live_def add_active_cnt_def)
  qed
qed

text \<open>
  The contract of the two loops: with a sign \<open>sg\<close>, one turn corrects an entry and goes to
  its parent, and an entry without parent ends the loop.
\<close>

locale propagation =
  fixes loop :: "sid \<Rightarrow> int \<Rightarrow> TfwStreamSched \<Rightarrow> TfwStreamSched option"
    and sg :: int
  assumes turn: "0 < c \<Longrightarrow> sched_inv (owes p (sg * c)) S \<Longrightarrow> p \<in> stream_ids S \<Longrightarrow> par S p = Some q \<Longrightarrow>
      loop p c S = loop q c (relink p (upd_entry p (add_active_cnt (sg * c)) S))"
    and top: "sched_inv (owes p (sg * c)) S \<Longrightarrow> p \<in> sched_keys S \<Longrightarrow> par S p = None \<Longrightarrow>
      loop p c S = Some (upd_entry p (add_active_cnt (sg * c)) S)"
begin

lemma loop_returns:
  assumes "0 < c" "sched_inv (owes p (sg * c)) S" "p \<in> sched_keys S"
  shows "\<exists>S'. loop p c S = Some S' \<and> propagated p S S'"
proof -
  define R where "R = (up S)\<inverse>"
  have "wf R"
    using assms(2) up_wf(1) by (simp add: R_def sched_inv_def)
  then show ?thesis
    using assms(2,3) R_def
proof (induction p arbitrary: S rule: wf_induct_rule)
  case (less p)
  show ?case
  proof (cases "par S p")
    case None
    with less(2,3) top propagated_top show ?thesis by blast
  next
    case (Some q)
    let ?T = "relink p (upd_entry p (add_active_cnt (sg * c)) S)"
    have p: "p \<in> stream_ids S"
      using key_cases [OF less(3)] Some root_par [OF less(2)] by fastforce
    have T: "sched_inv (owes q (sg * c)) ?T"
      by (rule sched_inv_bump [OF less(2) p Some])
    have sh: "same_shape S ?T"
      using same_shape_trans [OF same_shape_bump same_shape_relink] .
    have "(q, p) \<in> R" and "q \<in> sched_keys ?T" and "R = (up ?T)\<inverse>"
      using Some less(2,4) same_shapeD(3) [OF sh]
      by (auto simp: up_def sched_inv_def inv_tree_def sched_keys_def)
    with T less(1) [of q ?T] obtain S' where "loop q c ?T = Some S'" "propagated q ?T S'"
      by auto
    moreover have "cnt ?T t = cnt S t" if "t \<noteq> p" for t
      using that by simp
    ultimately show ?thesis
      using turn [OF assms(1) less(2) p Some] propagated_step [OF Some sh] by auto
  qed
qed
qed

end

end
