(* ===== verification/H2_Sched_Ops.thy ===== *)
theory H2_Sched_Ops
  imports H2_Sched_Inv
begin

text \<open>
  Every operation of the priority scheduler returns and preserves the invariant of
  \<^theory_text>\<open>H2_Sched_Inv\<close>.
\<close>

section \<open>The loops return\<close>

interpretation add_loop: propagation sched_propagate_add 1
proof
  show "sched_propagate_add p c S
      = sched_propagate_add q c (relink p (upd_entry p (add_active_cnt (1 * c)) S))"
    if "0 < c" "sched_inv (owes p (1 * c)) S" "p \<in> stream_ids S" "par S p = Some q" for c p S q
    using that propagate_add_turn [of p c S q] by simp
  show "sched_propagate_add p c S = Some (upd_entry p (add_active_cnt (1 * c)) S)"
    if "par S p = None" for p c S
    using that by (subst sched_propagate_add.simps) (auto simp: Let_def add_active_cnt_def)
qed

interpretation dec_loop: propagation sched_propagate_dec "-1"
proof
  show "sched_propagate_dec p c S
      = sched_propagate_dec q c (relink p (upd_entry p (add_active_cnt (- 1 * c)) S))"
    if "0 < c" "sched_inv (owes p (- 1 * c)) S" "p \<in> stream_ids S" "par S p = Some q" for c p S q
    using that propagate_dec_turn [of p c S q] by simp
  show "sched_propagate_dec p c S = Some (upd_entry p (add_active_cnt (- 1 * c)) S)"
    if "par S p = None" for p c S
    using that by (subst sched_propagate_dec.simps) (auto simp: Let_def add_active_cnt_def)
qed

section \<open>Taking a stream out and putting it in\<close>

text \<open>\<open>moved s q S S'\<close>: only the place of \<open>s\<close> in the tree has changed, it is now below \<open>q\<close>.\<close>

definition moved :: "sid \<Rightarrow> sid option \<Rightarrow> TfwStreamSched \<Rightarrow> TfwStreamSched \<Rightarrow> bool" where
  "moved s q S S' \<longleftrightarrow> sc_streams S' = sc_streams S
     \<and> sc_blocked_streams S' = sc_blocked_streams S
     \<and> (\<forall>t. par S' t = (if t = s then q else par S t))
     \<and> (\<forall>t. unlinked (sc_stream S' t) = unlinked (sc_stream S t))"

lemma movedD:
  assumes "moved s q S S'"
  shows "sc_streams S' = sc_streams S" "par S' t = (if t = s then q else par S t)"
    and "stream_ids S' = stream_ids S" "sched_keys S' = sched_keys S"
    and "stream_weight S' = stream_weight S"
    and "tfw_h2_stream_is_active S' = tfw_h2_stream_is_active S"
proof -
  have *: "st_weight (sc_stream S' t) = st_weight (sc_stream S t) \<and>
      st_xmit (sc_stream S' t) = st_xmit (sc_stream S t)" for t
    using assms unfolding moved_def by (metis unlinked_fields(1,2))
  show "sc_streams S' = sc_streams S" "par S' t = (if t = s then q else par S t)"
    "stream_ids S' = stream_ids S" "sched_keys S' = sched_keys S"
    using assms by (simp_all add: moved_def stream_ids_def sched_keys_def)
  show "stream_weight S' = stream_weight S"
    "tfw_h2_stream_is_active S' = tfw_h2_stream_is_active S"
    using * by (simp_all add: fun_eq_iff stream_weight_def tfw_h2_stream_is_active_def)
qed

lemma moved_children:
  assumes "moved s q S S'"
  shows "children S' k = (if q = Some k then insert s (children S k) else children S k - {s})"
  using movedD(2) [OF assms] by (auto simp: children_def split: if_splits)

lemma moved_up:
  assumes "moved s q S S'"
  shows "up S' = {(t, p) \<in> up S. t \<noteq> s} \<union> (case q of None \<Rightarrow> {} | Some p \<Rightarrow> {(s, p)})"
  using movedD(2) [OF assms] by (auto simp: up_def split: if_splits option.splits)

lemma moved_same_shape: "moved s q S S' \<Longrightarrow> same_shape S' S'' \<Longrightarrow> moved s q S S''"
  by (simp add: moved_def same_shape_def)

lemma moved_moved: "moved s q S S' \<Longrightarrow> moved s r S' S'' \<Longrightarrow> moved s r S S''"
  by (simp add: moved_def)

lemma inv_parD:
  assumes "sched_inv d S" "par S s = Some p"
  shows "s \<in> stream_ids S" and "p \<in> sched_keys S" and "p \<noteq> s"
  using assms par_neq_self [of S s p] by (auto simp: sched_inv_def inv_tree_def)

lemma linked_ok_cong:
  assumes "par S' t = par S t" "live S' t = live S t" "sc_stream S' t = sc_stream S t"
  shows "linked_ok S' t = linked_ok S t"
  using assms by (simp add: linked_ok_def split: option.splits)

definition owes_less :: "(sid \<Rightarrow> int) \<Rightarrow> sid \<Rightarrow> int \<Rightarrow> sid \<Rightarrow> int" where
  "owes_less d p c = (\<lambda>k. if k = p then d k - c else d k)"

lemma detach_ok:
  assumes inv: "sched_inv d S" and p: "par S s = Some p"
  shows "\<exists>S'. sched_detach s S = Some S' \<and> moved s None S S' \<and> (\<forall>t. cnt S' t = cnt S t)
           \<and> sched_inv (owes_less d p (stream_active_cnt S s)) S'"
proof -
  have tree: "inv_tree S" and lists: "inv_lists S" and ct: "inv_cnt d S"
    and lnk: "\<forall>t \<in> stream_ids S. linked_ok S t"
    using inv by (auto simp: sched_inv_def)
  have s: "s \<in> stream_ids S" and sp: "s \<noteq> p" and pk: "p \<in> sched_keys S"
    using tree p par_neq_self [OF tree p] by (auto simp: inv_tree_def)
  obtain S' where S': "sched_detach s S = Some S'"
    using p by (auto simp: sched_detach_def)
  then have mv: "moved s None S S'" and cn: "\<forall>t. cnt S' t = cnt S t"
    using p sp by (auto simp: sched_detach_def moved_def)
  have "inv_lists S'"
    using inv_lists_del [OF lists, of s] S' p sp
    by (subst inv_lists_cong [of S' "sched_list_del s S"])
       (auto simp: sched_detach_def)
  moreover have "linked_ok S' t" if "t \<in> stream_ids S'" for t
  proof (cases "t = s")
    case True
    with S' p sp show ?thesis by (auto simp: sched_detach_def linked_ok_def)
  next
    case False
    with S' p have "sc_stream S' t = sc_stream S t" by (auto simp: sched_detach_def)
    with False that lnk cn show ?thesis
      using movedD(2,3,6) [OF mv] by (subst linked_ok_cong [of _ _ S]) (auto simp: live_def)
  qed
  moreover have "inv_tree S'"
    using tree movedD(1,2,3,4) [OF mv] moved_up [OF mv]
    by (auto simp: inv_tree_def elim: acyclic_subset)
  moreover have "inv_cnt (owes_less d p (stream_active_cnt S s)) S'"
  proof -
    have v: "stream_active_cnt S' t = stream_active_cnt S t" for t
      using cn movedD(6) [OF mv] by (simp add: stream_active_cnt_def)
    have "(\<Sum>t \<in> children S k - {s}. stream_active_cnt S t) = (\<Sum>t \<in> children S k. stream_active_cnt S t)
        - (if k = p then stream_active_cnt S s else 0)" for k
      using p tree by (auto simp: sum_diff1 children_def)
    with ct cn v show ?thesis
      by (auto simp: inv_cnt_def owes_less_def movedD(4) [OF mv] moved_children [OF mv])
  qed
  ultimately show ?thesis
    using S' mv cn by (auto simp: sched_inv_def)
qed


definition owes_more :: "(sid \<Rightarrow> int) \<Rightarrow> sid \<Rightarrow> int \<Rightarrow> sid \<Rightarrow> int" where
  "owes_more d p c = (\<lambda>k. if k = p then d k + c else d k)"

lemma attach_relink:
  assumes "par S s = None" "node S s = Unlinked" "s \<noteq> p"
    and "st_sched_state (sc_stream S s) = HTTP2_STREAM_SCHED_STATE_UNKNOWN"
  shows "sched_attach s p S = Some (relink s (upd_entry s (\<lambda>e. e\<lparr>se_parent := Some p\<rparr>)
           (upd_entry p (\<lambda>e. e\<lparr>se_total_weight :=
              se_total_weight e + ucast (stream_weight S s)\<rparr>) S)))"
proof -
  let ?S = "upd_entry s (\<lambda>e. e\<lparr>se_parent := Some p\<rparr>) (upd_entry p (\<lambda>e. e\<lparr>se_total_weight :=
              se_total_weight e + ucast (stream_weight S s)\<rparr>) S)"
  have "par ?S s = Some p" by simp
  then show ?thesis
    using assms
    by (cases "live ?S s")
       (simp_all add: sched_attach_def Let_def insert_active_link insert_blocked_link relink_def,
        auto simp: live_def)
qed

lemma attach_ok:
  assumes inv: "sched_inv d S" and s: "s \<in> stream_ids S" "par S s = None"
    and p: "p \<in> sched_keys S" "(p, s) \<notin> (up S)\<^sup>*"
  shows "\<exists>S'. sched_attach s p S = Some S' \<and> moved s (Some p) S S' \<and> (\<forall>t. cnt S' t = cnt S t)
           \<and> sched_inv (owes_more d p (stream_active_cnt S s)) S'"
proof -
  have tree: "inv_tree S" and lists: "inv_lists S" and ct: "inv_cnt d S"
    and lnk: "\<forall>t \<in> stream_ids S. linked_ok S t"
    using inv by (auto simp: sched_inv_def)
  have sp: "s \<noteq> p" using p(2) by auto
  have un: "node S s = Unlinked"
    "st_sched_state (sc_stream S s) = HTTP2_STREAM_SCHED_STATE_UNKNOWN"
    using lnk s by (auto simp: linked_ok_def)
  define T where "T = upd_entry s (\<lambda>e. e\<lparr>se_parent := Some p\<rparr>) (upd_entry p (\<lambda>e. e\<lparr>se_total_weight :=
              se_total_weight e + ucast (stream_weight S s)\<rparr>) S)"
  have T: "moved s (Some p) S T" "\<forall>t. cnt T t = cnt S t" "sc_stream T = sc_stream S"
    using sp by (auto simp: T_def moved_def)
  have ids: "stream_ids T = stream_ids S" by (simp add: T_def)
  have "inv_lists T"
    using lists by (subst inv_lists_cong [of T S]) (auto simp: T_def)
  moreover have "half_linked T s"
    using un T(3) by (auto simp: half_linked_def movedD(2) [OF T(1)])
  moreover have "\<forall>t \<in> stream_ids T. t \<noteq> s \<longrightarrow> linked_ok T t"
    using lnk T(2,3) movedD(2,3,6) [OF T(1)]
    by (auto simp: linked_ok_def live_def split: option.splits)
  ultimately have rl: "inv_lists (relink s T)" "\<forall>t \<in> stream_ids T. linked_ok (relink s T) t"
    using relink_ok [of T s] s ids by auto
  have "acyclic (up T)"
  proof -
    have "up T = insert (s, p) (up S)"
      using moved_up [OF T(1)] s(2) by (auto simp: up_def)
    with tree p(2) show ?thesis by (simp add: inv_tree_def)
  qed
  then have "inv_tree T"
    using tree movedD(1,2,3,4) [OF T(1)] p(1) s(1) by (auto simp: inv_tree_def split: if_splits)
  moreover have "inv_cnt (owes_more d p (stream_active_cnt S s)) T"
  proof -
    have v: "stream_active_cnt T t = stream_active_cnt S t" for t
      using T(2) movedD(6) [OF T(1)] by (simp add: stream_active_cnt_def)
    have "s \<notin> children S k" for k using s(2) by (simp add: children_def)
    with ct T(2) v tree show ?thesis
      by (auto simp: inv_cnt_def owes_more_def movedD(4) [OF T(1)] moved_children [OF T(1)])
  qed
  ultimately have "sched_inv (owes_more d p (stream_active_cnt S s)) (relink s T)"
    using rl ids by (simp add: sched_inv_def inv_tree_cong [of "relink s T" T]
        inv_cnt_cong [of "relink s T" T])
  then show ?thesis
    using attach_relink [OF s(2) un(1) sp un(2)] T moved_same_shape [OF T(1) same_shape_relink]
    by (auto simp: T_def)
qed

section \<open>Removing and enqueueing a stream\<close>

lemma remove_ok:
  assumes inv: "sched_inv settled_cnt S" and p: "par S s = Some p"
  shows "\<exists>S'. tfw_h2_stream_sched_remove s S = Some S' \<and> sched_inv settled_cnt S' \<and> moved s None S S'
           \<and> (\<forall>t. (p, t) \<notin> (up S)\<^sup>* \<longrightarrow> cnt S' t = cnt S t)"
proof -
  obtain T where T: "sched_detach s S = Some T" "moved s None S T" "\<forall>t. cnt T t = cnt S t"
    "sched_inv (owes_less settled_cnt p (stream_active_cnt S s)) T"
    using detach_ok [OF inv p] by auto
  have owe: "owes_less settled_cnt p c = owes p (- c)" for c
    by (auto simp: owes_less_def owes_def)
  have nn: "0 \<le> stream_active_cnt S s" and pk: "p \<in> sched_keys T"
    using inv inv_parD [OF inv p] val_nonneg [of settled_cnt S s] movedD(4) [OF T(2)]
    by (auto simp: sched_inv_def sched_keys_def)
  show ?thesis
  proof (cases "stream_active_cnt S s = 0")
    case True
    with T p show ?thesis
      by (auto simp: tfw_h2_stream_sched_remove_def owe)
  next
    case False
    then obtain S' where S': "sched_propagate_dec p (stream_active_cnt S s) T = Some S'"
      "propagated p T S'"
      using dec_loop.loop_returns [of "stream_active_cnt S s" p T] T(4) nn pk by (auto simp: owe)
    have "(p, t) \<notin> (up T)\<^sup>*" if "(p, t) \<notin> (up S)\<^sup>*" for t
      using that rtrancl_mono [of "up T" "up S"] moved_up [OF T(2)] by auto
    with S' T p False show ?thesis
      using moved_same_shape [OF T(2)]
      by (auto simp: tfw_h2_stream_sched_remove_def propagated_def)
  qed
qed

lemma enqueue_ok:
  assumes inv: "sched_inv settled_cnt S" and s: "s \<in> stream_ids S" "par S s = None"
    and p: "p \<in> sched_keys S" "(p, s) \<notin> (up S)\<^sup>*"
  shows "\<exists>S'. tfw_h2_stream_sched_enqueue s p S = Some S' \<and> sched_inv settled_cnt S'
           \<and> moved s (Some p) S S' \<and> (\<forall>t. (p, t) \<notin> (up S)\<^sup>* \<longrightarrow> cnt S' t = cnt S t)"
proof -
  obtain T where T: "sched_attach s p S = Some T" "moved s (Some p) S T" "\<forall>t. cnt T t = cnt S t"
    "sched_inv (owes_more settled_cnt p (stream_active_cnt S s)) T"
    using attach_ok [OF inv s p] by auto
  have owe: "owes_more settled_cnt p c = owes p c" for c
    by (auto simp: owes_more_def owes_def)
  have v: "stream_active_cnt T s = stream_active_cnt S s"
    using T(3) movedD(6) [OF T(2)] by (simp add: stream_active_cnt_def)
  have nn: "0 \<le> stream_active_cnt S s" and pk: "p \<in> sched_keys T" and pr: "par T s = Some p"
    using inv s p val_nonneg [of settled_cnt S s] movedD(2,4) [OF T(2)]
    by (auto simp: sched_inv_def sched_keys_def)
  show ?thesis
  proof (cases "stream_active_cnt S s = 0")
    case True
    with T v show ?thesis
      by (auto simp: tfw_h2_stream_sched_enqueue_def owe
          tfw_h2_stream_sched_propagate_add_active_cnt_def)
  next
    case False
    then obtain S' where S': "sched_propagate_add p (stream_active_cnt S s) T = Some S'"
      "propagated p T S'"
      using add_loop.loop_returns [of "stream_active_cnt S s" p T] T(4) nn pk by (auto simp: owe)
    have upT: "up T = insert (s, p) (up S)"
      using moved_up [OF T(2)] s(2) by (auto simp: up_def)
    have "(p, t) \<notin> (up T)\<^sup>*" if "(p, t) \<notin> (up S)\<^sup>*" for t
      using that p(2) unfolding upT by (auto simp: rtrancl_insert)
    with S' T v pr False show ?thesis
      using moved_same_shape [OF T(2)]
      by (auto simp: tfw_h2_stream_sched_enqueue_def propagated_def
          tfw_h2_stream_sched_propagate_add_active_cnt_def)
  qed
qed

section \<open>Adding a stream to the tree\<close>

text \<open>The children of an entry are the members of its two lists.\<close>

lemma lists_children:
  assumes inv: "sched_inv d S" and k: "k \<in> sched_keys S"
  shows "set (se_active (sc_entry S k)) = {s \<in> children S k. live S s}"
    and "set (se_blocked (sc_entry S k)) = {s \<in> children S k. \<not> live S s}"
proof -
  have lo: "lists_ok S k" and lnk: "\<forall>t \<in> stream_ids S. linked_ok S t"
    and sub: "children S k \<subseteq> stream_ids S"
    using inv k children_subset by (auto simp: sched_inv_def inv_lists_def)
  have nodes: "node S x = In_active k \<longleftrightarrow> par S x = Some k \<and> live S x"
    "node S x = In_blocked k \<longleftrightarrow> par S x = Some k \<and> \<not> live S x" if "x \<in> stream_ids S" for x
    using bspec [OF lnk that] by (cases "par S x"; cases "live S x"; auto simp: linked_ok_def)+
  show "set (se_active (sc_entry S k)) = {s \<in> children S k. live S s}"
    "set (se_blocked (sc_entry S k)) = {s \<in> children S k. \<not> live S s}"
    using lo sub nodes by (auto simp: lists_ok_def children_def)
qed

lemma has_children_iff:
  assumes "sched_inv d S" "k \<in> sched_keys S"
  shows "tfw_h2_stream_sched_has_children S k \<longleftrightarrow> children S k \<noteq> {}"
  using lists_children [OF assms]
  unfolding tfw_h2_stream_sched_has_children_def set_empty [symmetric] by auto

text \<open>One child of \<open>dep\<close> goes below the detached stream \<open>s\<close>.\<close>

lemma move_child_ok:
  assumes inv: "sched_inv settled_cnt S" and s: "s \<in> stream_ids S" "par S s = None"
    and c: "par S c = Some dep" and ds: "(dep, s) \<notin> (up S)\<^sup>*"
  shows "\<exists>S'. Option.bind (tfw_h2_stream_sched_remove c S) (tfw_h2_stream_sched_enqueue c s) = Some S'
           \<and> sched_inv settled_cnt S' \<and> moved c (Some s) S S'
           \<and> (\<forall>t \<in> children S dep. cnt S' t = cnt S t)"
proof -
  have tree: "inv_tree S" using inv by (simp add: sched_inv_def)
  obtain T where T: "tfw_h2_stream_sched_remove c S = Some T" "sched_inv settled_cnt T"
    "moved c None S T" "\<forall>t. (dep, t) \<notin> (up S)\<^sup>* \<longrightarrow> cnt T t = cnt S t"
    using remove_ok [OF inv c] by auto
  have sc: "s \<noteq> c" using c s(2) by auto
  have Ts: "s \<in> stream_ids T" "c \<in> stream_ids T" "par T s = None" "par T c = None"
    using movedD(2,3) [OF T(3)] s inv_parD(1) [OF inv c] by auto
  then have no_up: "(s, t) \<in> (up T)\<^sup>* \<longleftrightarrow> t = s" for t
    by (auto simp: up_def elim: converse_rtranclE)
  obtain S' where S': "tfw_h2_stream_sched_enqueue c s T = Some S'" "sched_inv settled_cnt S'"
    "moved c (Some s) T S'" "\<forall>t. (s, t) \<notin> (up T)\<^sup>* \<longrightarrow> cnt S' t = cnt T t"
    using enqueue_ok [OF T(2) Ts(2,4), of s] Ts sc no_up by (auto simp: sched_keys_def)
  have "cnt S' t = cnt S t" if "t \<in> children S dep" for t
  proof -
    have "(t, dep) \<in> up S" and "t \<noteq> s"
      using that s(2) by (auto simp: children_def up_def)
    then have "(dep, t) \<notin> (up S)\<^sup>*"
      using tree by (auto simp: inv_tree_def acyclic_def dest: rtrancl_into_trancl2)
    with T(4) S'(4) no_up \<open>t \<noteq> s\<close> show ?thesis by simp
  qed
  then show ?thesis
    using T S' moved_moved [OF T(3) S'(3)] by auto
qed

text \<open>The streams themselves are the same, only their places may differ.\<close>

definition same_streams :: "TfwStreamSched \<Rightarrow> TfwStreamSched \<Rightarrow> bool" where
  "same_streams S S' \<longleftrightarrow> sc_streams S' = sc_streams S
     \<and> sc_blocked_streams S' = sc_blocked_streams S
     \<and> (\<forall>t. unlinked (sc_stream S' t) = unlinked (sc_stream S t))"

lemma same_streams_refl [simp]: "same_streams S S"
  by (simp add: same_streams_def)

lemma same_streams_trans: "same_streams S T \<Longrightarrow> same_streams T U \<Longrightarrow> same_streams S U"
  by (simp add: same_streams_def)

lemma same_streamsI:
  "moved s q S S' \<Longrightarrow> same_streams S S'" "same_shape S S' \<Longrightarrow> same_streams S S'"
  by (simp_all add: same_streams_def moved_def same_shape_def)

lemma same_streamsD:
  assumes "same_streams S S'"
  shows "stream_ids S' = stream_ids S" "sched_keys S' = sched_keys S"
    and "tfw_h2_stream_is_active S' = tfw_h2_stream_is_active S" "stream_weight S' = stream_weight S"
proof -
  have *: "st_weight (sc_stream S' t) = st_weight (sc_stream S t) \<and>
      st_xmit (sc_stream S' t) = st_xmit (sc_stream S t)" for t
    using assms unfolding same_streams_def by (metis unlinked_fields(1,2))
  show "tfw_h2_stream_is_active S' = tfw_h2_stream_is_active S" "stream_weight S' = stream_weight S"
    using * by (simp_all add: fun_eq_iff stream_weight_def tfw_h2_stream_is_active_def)
  show "stream_ids S' = stream_ids S" "sched_keys S' = sched_keys S"
    using assms by (simp_all add: same_streams_def stream_ids_def sched_keys_def)
qed

text \<open>The same up to the weights.\<close>

definition no_weight :: "TfwStream \<Rightarrow> TfwStream" where
  "no_weight t = (unlinked t)\<lparr>st_weight := 0\<rparr>"

definition same_but_weight :: "TfwStreamSched \<Rightarrow> TfwStreamSched \<Rightarrow> bool" where
  "same_but_weight S S' \<longleftrightarrow> sc_streams S' = sc_streams S
     \<and> sc_blocked_streams S' = sc_blocked_streams S
     \<and> (\<forall>t. no_weight (sc_stream S' t) = no_weight (sc_stream S t))"

lemma same_but_weight_trans:
  "same_but_weight S T \<Longrightarrow> same_but_weight T U \<Longrightarrow> same_but_weight S U"
  by (simp add: same_but_weight_def)

lemma same_but_weightI:
  "same_streams S S' \<Longrightarrow> same_but_weight S S'" "same_but_weight S (set_weight w s S)"
  by (auto simp: same_but_weight_def same_streams_def no_weight_def set_weight_def unlinked_def)

text \<open>\<open>rehung s dep S S'\<close>: some children of \<open>dep\<close> now hang below the detached stream \<open>s\<close>.\<close>

definition rehung :: "sid \<Rightarrow> sid \<Rightarrow> TfwStreamSched \<Rightarrow> TfwStreamSched \<Rightarrow> bool" where
  "rehung s dep S S' \<longleftrightarrow> same_streams S S' \<and> par S' s = None \<and> (dep, s) \<notin> (up S')\<^sup>*
     \<and> (\<forall>t. par S' t = par S t \<or> par S t = Some dep \<and> par S' t = Some s)
     \<and> (\<forall>c \<in> children S' dep. live S' c = live S c)"

lemma rehung_refl: "par S s = None \<Longrightarrow> (dep, s) \<notin> (up S)\<^sup>* \<Longrightarrow> rehung s dep S S"
  by (simp add: rehung_def)

lemma rehung_trans:
  assumes "rehung s dep S T" "rehung s dep T U"
  shows "rehung s dep S U"
proof -
  have "dep \<noteq> s" using assms(1) by (auto simp: rehung_def)
  then have "c \<in> children T dep" if "c \<in> children U dep" for c
    using that assms(2) unfolding rehung_def children_def
    by (metis (mono_tags) mem_Collect_eq option.inject)
  with assms show ?thesis
    by (auto simp: rehung_def children_def intro: same_streams_trans) metis+
qed

text \<open>
  The contract of the two loops of the exclusive insertion: each takes the first member of
  one list of \<open>dep\<close>, the list of the children with the property \<open>Q\<close>.
\<close>

locale move_loop =
  fixes loop :: "sid \<Rightarrow> sid \<Rightarrow> TfwStreamSched \<Rightarrow> TfwStreamSched option"
    and sel :: "TfwStreamSchedEntry \<Rightarrow> sid list"
    and Q :: "bool \<Rightarrow> bool"
  assumes loop_unfold: "loop s dep S =
      (case sel (sc_entry S dep) of [] \<Rightarrow> Some S
       | child # _ \<Rightarrow> Option.bind
           (Option.bind (tfw_h2_stream_sched_remove child S) (tfw_h2_stream_sched_enqueue child s))
           (loop s dep))"
    and sel_set: "sched_inv d S \<Longrightarrow> dep \<in> sched_keys S \<Longrightarrow>
      set (sel (sc_entry S dep)) = {c \<in> children S dep. Q (live S c)}"
begin

lemma loop_moves_all:
  assumes "sched_inv settled_cnt S" "s \<in> stream_ids S" "dep \<in> sched_keys S" "rehung s dep S S"
  shows "\<exists>S'. loop s dep S = Some S' \<and> sched_inv settled_cnt S' \<and> rehung s dep S S'
           \<and> (\<forall>c \<in> children S' dep. \<not> Q (live S' c))"
  using assms
proof (induction "card (children S dep)" arbitrary: S rule: less_induct)
  case less
  have tree: "inv_tree S" using less.prems(1) by (simp add: sched_inv_def)
  have s: "par S s = None" "(dep, s) \<notin> (up S)\<^sup>*" "dep \<noteq> s"
    using less.prems(4) by (auto simp: rehung_def)
  show ?case
  proof (cases "sel (sc_entry S dep)")
    case Nil
    with less.prems sel_set [OF less.prems(1,3)] show ?thesis
      by (auto simp: loop_unfold [of s dep S])
  next
    case (Cons c cs)
    then have c: "par S c = Some dep"
      using sel_set [OF less.prems(1,3)] by (auto simp: children_def)
    obtain T where T: "Option.bind (tfw_h2_stream_sched_remove c S)
          (tfw_h2_stream_sched_enqueue c s) = Some T" "sched_inv settled_cnt T"
      "moved c (Some s) S T" "\<forall>t \<in> children S dep. cnt T t = cnt S t"
      using move_child_ok [OF less.prems(1,2) s(1) c s(2)] by auto
    have ch: "children T dep = children S dep - {c}"
      using moved_children [OF T(3)] s(3) by auto
    have "(c, dep) \<in> up S" using c by (simp add: up_def)
    then have "(dep, c) \<notin> (up S)\<^sup>*"
      using tree by (auto simp: inv_tree_def acyclic_def dest: rtrancl_into_trancl2)
    then have "(dep, s) \<notin> (insert (c, s) (up S))\<^sup>*"
      using s(2) by (auto simp: rtrancl_insert)
    moreover have "up T \<subseteq> insert (c, s) (up S)"
      using moved_up [OF T(3)] by auto
    ultimately have "(dep, s) \<notin> (up T)\<^sup>*"
      using rtrancl_mono by blast
    then have re: "rehung s dep S T"
      using s T(3,4) c ch movedD(2,6) [OF T(3)] same_streamsI(1) [OF T(3)]
      by (auto simp: rehung_def live_def)
    have "card (children T dep) < card (children S dep)"
      unfolding ch using c tree by (intro card_Diff1_less) (auto simp: children_def)
    then obtain S' where "loop s dep T = Some S'" "sched_inv settled_cnt S'" "rehung s dep T S'"
      "\<forall>c \<in> children S' dep. \<not> Q (live S' c)"
      using less.hyps [of T] T(2) less.prems re movedD(3,4) [OF T(3)]
      by (auto simp: rehung_def)
    with Cons T(1) rehung_trans [OF re] show ?thesis
      by (auto simp: loop_unfold [of s dep S])
  qed
qed

end

interpretation blocked_loop: move_loop sched_move_blocked se_blocked Not
proof
  show "sched_move_blocked s dep S =
      (case se_blocked (sc_entry S dep) of [] \<Rightarrow> Some S
       | child # _ \<Rightarrow> Option.bind
           (Option.bind (tfw_h2_stream_sched_remove child S) (tfw_h2_stream_sched_enqueue child s))
           (sched_move_blocked s dep))" for s dep S
    by (subst sched_move_blocked.simps) (simp split: list.splits bind_splits)
qed (rule lists_children(2))

interpretation active_loop: move_loop sched_move_active se_active "\<lambda>b. b"
proof
  show "sched_move_active s dep S =
      (case se_active (sc_entry S dep) of [] \<Rightarrow> Some S
       | child # _ \<Rightarrow> Option.bind
           (Option.bind (tfw_h2_stream_sched_remove child S) (tfw_h2_stream_sched_enqueue child s))
           (sched_move_active s dep))" for s dep S
    by (subst sched_move_active.simps) (simp split: list.splits bind_splits)
qed (rule lists_children(1))

lemma add_stream_dep_ok:
  assumes inv: "sched_inv settled_cnt S" and s: "s \<in> stream_ids S" "par S s = None"
    and dep: "dep \<in> sched_keys S" "(dep, s) \<notin> (up S)\<^sup>*"
  shows "\<exists>S'. tfw_h2_add_stream_dep s dep excl S = Some S' \<and> sched_inv settled_cnt S'
           \<and> same_streams S S' \<and> par S' s = Some dep
           \<and> (\<forall>t. t \<noteq> s \<longrightarrow> par S' t = (if excl \<and> par S t = Some dep then Some s else par S t))"
proof (cases excl)
  case False
  with enqueue_ok [OF inv s dep] show ?thesis
    by (auto simp: tfw_h2_add_stream_dep_def same_streamsI movedD(2))
next
  case True
  have dep_s: "dep \<noteq> s" using dep(2) by auto
  obtain T where T: "sched_move_blocked s dep S = Some T" "sched_inv settled_cnt T"
    "rehung s dep S T" "\<forall>c \<in> children T dep. live T c"
    using blocked_loop.loop_moves_all [OF inv s(1) dep(1) rehung_refl [OF s(2) dep(2)]] by auto
  have sT: "s \<in> stream_ids T" "dep \<in> sched_keys T"
    using T(3) s dep same_streamsD(1,2) [of S T] by (auto simp: rehung_def)
  have "rehung s dep T T"
    using T(3) by (auto simp: rehung_def)
  then obtain U where U: "sched_move_active s dep T = Some U" "sched_inv settled_cnt U"
    "rehung s dep T U" "\<forall>c \<in> children U dep. \<not> live U c"
    using active_loop.loop_moves_all [OF T(2) sT] by auto
  have re: "rehung s dep S U" by (rule rehung_trans [OF T(3) U(3)])
  have sU: "s \<in> stream_ids U" "dep \<in> sched_keys U" "par U s = None" "(dep, s) \<notin> (up U)\<^sup>*"
    using re s dep same_streamsD(1,2) [of S U] by (auto simp: rehung_def)
  have "par T c = Some dep" if "par U c = Some dep" for c
    using U(3) dep_s that unfolding rehung_def by (metis option.inject)
  then have "children U dep = {}"
    using T(4) U(3,4) by (auto simp: rehung_def children_def)
  then have "\<not> tfw_h2_stream_sched_has_children U dep"
    using has_children_iff [OF U(2) sU(2)] by simp
  moreover obtain S' where S': "tfw_h2_stream_sched_enqueue s dep U = Some S'"
    "sched_inv settled_cnt S'" "moved s (Some dep) U S'"
    using enqueue_ok [OF U(2) sU(1,3,2,4)] by auto
  moreover have "par S' t = (if par S t = Some dep then Some s else par S t)" if "t \<noteq> s" for t
    using movedD(2) [OF S'(3), of t] that re \<open>children U dep = {}\<close>
    unfolding rehung_def children_def by (metis (mono_tags) Collect_empty_eq)
  ultimately show ?thesis
    using True T U re same_streamsI(1) [OF S'(3)] movedD(2) [OF S'(3)]
    by (auto simp: tfw_h2_add_stream_dep_def rehung_def intro: same_streams_trans)
qed

section \<open>Changing the dependency of a stream\<close>

lemma has_ancestor_correct:
  assumes inv: "sched_inv d S" and s: "s \<in> stream_ids S"
  shows "sched_has_ancestor s (par S k) S = Some ((k, s) \<in> (up S)\<^sup>+)"
proof -
  have tree: "inv_tree S" using inv by (simp add: sched_inv_def)
  have s0: "s \<noteq> sched_root" using tree s by (auto simp: inv_tree_def)
  show ?thesis
    using up_wf(1) [OF tree]
  proof (induction k rule: wf_induct_rule)
    case (less k)
    show ?case
    proof (cases "par S k")
      case None
      then have "(k, s) \<notin> (up S)\<^sup>+" by (auto simp: up_def dest: tranclD)
      with None show ?thesis by (subst sched_has_ancestor.simps) simp
    next
      case (Some p)
      then have kp: "(k, p) \<in> up S" and only: "(k, q) \<in> up S \<longleftrightarrow> q = p" for q
        by (auto simp: up_def)
      then have eq: "(k, s) \<in> (up S)\<^sup>+ \<longleftrightarrow> s = p \<or> (p, s) \<in> (up S)\<^sup>+"
        by (metis trancl.r_into_trancl trancl_into_trancl2 tranclD rtranclD)
      show ?thesis
      proof (cases "p = sched_root")
        case True
        then have "(p, s) \<notin> (up S)\<^sup>+"
          using root_par [OF inv] by (auto simp: up_def dest: tranclD)
        with True Some eq s0 show ?thesis
          by (subst sched_has_ancestor.simps) auto
      next
        case False
        with Some eq less [of p] kp show ?thesis
          by (subst sched_has_ancestor.simps) auto
      qed
    qed
  qed
qed

lemma set_weight_proj [simp]:
  "sc_streams (set_weight w s S) = sc_streams S" "sc_entry (set_weight w s S) = sc_entry S"
  "stream_ids (set_weight w s S) = stream_ids S" "sched_keys (set_weight w s S) = sched_keys S"
  "up (set_weight w s S) = up S" "children (set_weight w s S) k = children S k"
  "sc_blocked_streams (set_weight w s S) = sc_blocked_streams S"
  "node (set_weight w s S) t = node S t"
  "st_sched_state (sc_stream (set_weight w s S) t) = st_sched_state (sc_stream S t)"
  "tfw_h2_stream_is_active (set_weight w s S) = tfw_h2_stream_is_active S"
  "stream_weight (set_weight w s S) = (stream_weight S)(s := w)"
  by (auto simp: set_weight_def sched_keys_def up_def children_def stream_weight_def)

lemma set_weight_inv:
  assumes inv: "sched_inv d S" and s: "s \<in> stream_ids S" "par S s = None"
  shows "sched_inv d (set_weight w s S)"
proof -
  have lnk: "\<forall>t \<in> stream_ids S. linked_ok S t" and lists: "inv_lists S"
    using inv by (auto simp: sched_inv_def)
  have un: "node S s = Unlinked"
    using lnk s by (auto simp: linked_ok_def)
  have "lists_ok (set_weight w s S) k" if "lists_ok S k" for k
    using that un unfolding lists_ok_def
    by (subst set_weight_proj(11), subst sorted_before_cong [of _ _ "stream_weight S"]) auto
  then have "inv_lists (set_weight w s S)"
    using lists by (simp add: inv_lists_def)
  moreover have "\<forall>t \<in> stream_ids S. linked_ok (set_weight w s S) t"
    using lnk by (auto simp: linked_ok_def live_def split: option.splits)
  ultimately show ?thesis
    using inv
    by (simp add: sched_inv_def inv_tree_cong [of "set_weight w s S" S]
        inv_cnt_cong [of "set_weight w s S" S])
qed

text \<open>All streams are in the tree and all counters are right.\<close>

definition sched_ok :: "TfwStreamSched \<Rightarrow> bool" where
  "sched_ok S \<longleftrightarrow> sched_inv settled_cnt S \<and> (\<forall>s \<in> stream_ids S. par S s \<noteq> None)"

lemma find_stream_iff:
  "bst t \<Longrightarrow> tfw_h2_find_stream t i = (if i \<in> set_tree t then Some i else None)"
  by (induction t) auto

lemma find_stream_dep_key:
  assumes "sched_inv d S"
  shows "tfw_h2_find_stream_dep S i = (if i \<in> stream_ids S then i else sched_root)"
  using assms
  by (auto simp: tfw_h2_find_stream_dep_def sched_inv_def inv_tree_def find_stream_iff stream_ids_def)

lemma change_dep_plain:
  assumes ok: "sched_ok S" and s: "par S s = Some old" and np: "np \<in> sched_keys S"
    "(np, s) \<notin> (up S)\<^sup>*"
  shows "\<exists>S'. Option.bind (tfw_h2_stream_sched_remove s S)
             (\<lambda>T. tfw_h2_add_stream_dep s np excl (set_weight w s T)) = Some S'
           \<and> sched_ok S' \<and> same_but_weight S S' \<and> par S' s = Some np"
proof -
  have inv: "sched_inv settled_cnt S" using ok by (simp add: sched_ok_def)
  obtain T where T: "tfw_h2_stream_sched_remove s S = Some T" "sched_inv settled_cnt T"
    "moved s None S T"
    using remove_ok [OF inv s] by auto
  let ?T = "set_weight w s T"
  have sT: "s \<in> stream_ids T" "par T s = None" "np \<in> sched_keys T"
    using inv_parD [OF inv s] np movedD [OF T(3)] by auto
  have "(np, s) \<notin> (up T)\<^sup>*"
    using np(2) moved_up [OF T(3)] rtrancl_mono [of "up T" "up S"] by auto
  then obtain S' where S': "tfw_h2_add_stream_dep s np excl ?T = Some S'" "sched_inv settled_cnt S'"
    "same_streams ?T S'" "par S' s = Some np"
    "\<forall>t. t \<noteq> s \<longrightarrow> par S' t = (if excl \<and> par T t = Some np then Some s else par T t)"
    using add_stream_dep_ok [OF set_weight_inv [OF T(2) sT(1,2), of w], of s np excl] sT by auto
  have "sc_streams S' = sc_streams S"
    using S'(3) movedD(1) [OF T(3)] by (simp add: same_streams_def)
  moreover have "par S' t \<noteq> None" if "t \<in> stream_ids S'" for t
    using that S'(4,5) ok movedD(2) [OF T(3), of t] \<open>sc_streams S' = sc_streams S\<close>
    by (cases "t = s") (auto simp: sched_ok_def stream_ids_def)
  moreover have "same_but_weight S S'"
    using same_but_weightI(1) [OF same_streamsI(1) [OF T(3)]] same_but_weightI(2) [of T w s]
      same_but_weightI(1) [OF S'(3)] by (blast intro: same_but_weight_trans)
  ultimately show ?thesis
    using T(1) S' by (simp add: sched_ok_def)
qed

lemma change_dep_on_child:
  assumes ok: "sched_ok S" and s: "par S s = Some old" and np: "(np, s) \<in> (up S)\<^sup>+"
  shows "\<exists>S'. Option.bind (tfw_h2_stream_sched_remove np S)
             (\<lambda>T. Option.bind (tfw_h2_stream_sched_remove s T)
               (\<lambda>U. Option.bind (tfw_h2_add_stream_dep np old False (set_weight w s U))
                 (tfw_h2_add_stream_dep s np excl))) = Some S'
           \<and> sched_ok S' \<and> same_but_weight S S' \<and> par S' s = Some np"
proof -
  have inv: "sched_inv settled_cnt S" using ok by (simp add: sched_ok_def)
  have acyc: "acyclic (up S)" using inv by (simp add: sched_inv_def inv_tree_def)
  obtain pp where pp: "par S np = Some pp"
    using np by (auto simp: up_def dest: tranclD)
  have s_old: "(s, old) \<in> up S" using s by (simp add: up_def)
  have nps: "np \<noteq> s" and old_s: "(old, s) \<notin> (up S)\<^sup>*" and old_np: "(old, np) \<notin> (up S)\<^sup>*"
    using acyc np s_old unfolding acyclic_def
    by (blast, meson rtrancl_into_trancl2, meson rtrancl_into_trancl2 trancl_rtrancl_trancl trancl_trans)
  obtain T where T: "tfw_h2_stream_sched_remove np S = Some T" "sched_inv settled_cnt T"
    "moved np None S T"
    using remove_ok [OF inv pp] by auto
  have "par T s = Some old" using movedD(2) [OF T(3), of s] nps s by simp
  then obtain U where U: "tfw_h2_stream_sched_remove s T = Some U" "sched_inv settled_cnt U"
    "moved s None T U"
    using remove_ok [OF T(2)] by blast
  let ?U = "set_weight w s U"
  have upU: "up U \<subseteq> up S" using moved_up [OF U(3)] moved_up [OF T(3)] by auto
  have idsU: "stream_ids U = stream_ids S" "sched_keys U = sched_keys S"
    using movedD(3,4) [OF U(3)] movedD(3,4) [OF T(3)] by auto
  have parU: "par U np = None" "par U s = None" "t \<noteq> s \<Longrightarrow> t \<noteq> np \<Longrightarrow> par U t = par S t" for t
    using movedD(2) [OF U(3)] movedD(2) [OF T(3)] nps by auto
  have mem: "s \<in> stream_ids U" "np \<in> stream_ids U" "old \<in> sched_keys U"
    using inv_parD [OF inv s] inv_parD [OF inv pp] idsU by auto
  have "(old, np) \<notin> (up U)\<^sup>*" using old_np rtrancl_mono [OF upU] by auto
  then obtain V where V: "tfw_h2_add_stream_dep np old False ?U = Some V" "sched_inv settled_cnt V"
    "same_streams ?U V" "par V np = Some old" "\<forall>t. t \<noteq> np \<longrightarrow> par V t = par U t"
    using add_stream_dep_ok [OF set_weight_inv [OF U(2) mem(1) parU(2), of w], of np old False]
      mem parU by auto
  have "par V t = (if t = np then Some old else par U t)" for t using V(4,5) by simp
  then have upV: "up V = insert (np, old) (up U)"
    using parU(1) by (auto simp: up_def split: if_splits)
  have "(old, s) \<notin> (up U)\<^sup>*" "(np, s) \<notin> (up U)\<^sup>*"
    using old_s rtrancl_mono [OF upU] parU(1) nps
    by (auto simp: up_def elim: converse_rtranclE)
  then have "(np, s) \<notin> (up V)\<^sup>*"
    unfolding upV by (auto simp: rtrancl_insert)
  moreover have "s \<in> stream_ids V" "par V s = None" "np \<in> sched_keys V"
    using same_streamsD(1,2) [OF V(3)] mem V(5) parU nps by (auto simp: sched_keys_def)
  ultimately obtain S' where S': "tfw_h2_add_stream_dep s np excl V = Some S'"
    "sched_inv settled_cnt S'" "same_streams V S'" "par S' s = Some np"
    "\<forall>t. t \<noteq> s \<longrightarrow> par S' t = (if excl \<and> par V t = Some np then Some s else par V t)"
    using add_stream_dep_ok [OF V(2), of s np excl] by auto
  have str: "sc_streams S' = sc_streams S"
    using S'(3) V(3) movedD(1) [OF U(3)] movedD(1) [OF T(3)] by (simp add: same_streams_def)
  have "par S' t \<noteq> None" if "t \<in> stream_ids S'" for t
    using that S'(4,5) V(4,5) parU(3) [of t] ok str
    by (cases "t = s"; cases "t = np") (auto simp: sched_ok_def stream_ids_def)
  moreover have "same_but_weight S S'"
    using same_but_weightI(1) [OF same_streamsI(1) [OF T(3)]] same_but_weightI(2) [of U w s]
      same_but_weightI(1) [OF same_streamsI(1) [OF U(3)]] same_but_weightI(1) [OF V(3)]
      same_but_weightI(1) [OF S'(3)] by (blast intro: same_but_weight_trans)
  ultimately show ?thesis
    using T(1) U(1) V(1) S' str by (simp add: sched_ok_def)
qed

lemma change_stream_dep_ok:
  assumes ok: "sched_ok S" and i: "i \<in> stream_ids S" and "new_dep \<noteq> i"
  shows "\<exists>S'. tfw_h2_change_stream_dep i new_dep w excl S = Some S' \<and> sched_ok S'
           \<and> same_but_weight S S' \<and> par S' i = Some (tfw_h2_find_stream_dep S new_dep)"
proof -
  have inv: "sched_inv settled_cnt S" using ok by (simp add: sched_ok_def)
  obtain old where old: "par S i = Some old" using ok i by (auto simp: sched_ok_def)
  define np where "np = tfw_h2_find_stream_dep S new_dep"
  have np: "np \<in> sched_keys S" "np \<noteq> i"
    using find_stream_dep_key [OF inv, of new_dep] assms(3) i inv
    by (auto simp: np_def sched_keys_def sched_inv_def inv_tree_def)
  have fnd: "tfw_h2_find_stream (sc_streams S) i = Some i"
    using inv i by (simp add: find_stream_iff sched_inv_def inv_tree_def stream_ids_def)
  have dep: "tfw_h2_is_stream_depend_on_child i np S = Some ((np, i) \<in> (up S)\<^sup>+)"
    unfolding tfw_h2_is_stream_depend_on_child_def by (rule has_ancestor_correct [OF inv i])
  show ?thesis
  proof (cases "(np, i) \<in> (up S)\<^sup>+")
    case False
    then have "(np, i) \<notin> (up S)\<^sup>*" using np(2) by (auto simp: rtrancl_eq_or_trancl)
    from change_dep_plain [OF ok old np(1) this] False dep fnd old show ?thesis
      by (simp add: tfw_h2_change_stream_dep_def np_def Let_def)
  next
    case True
    then have "np \<noteq> sched_root"
      using root_par [OF inv] by (auto simp: up_def dest: tranclD)
    with change_dep_on_child [OF ok old True] True dep fnd old show ?thesis
      by (simp add: tfw_h2_change_stream_dep_def np_def Let_def)
  qed
qed

end
