(* ===== verification/H2_Sched_Remove.thy ===== *)
theory H2_Sched_Remove
  imports H2_Sched_Ops
begin

text \<open>
  Removal of a stream from the priority tree: \<^verbatim>\<open>tfw_h2_remove_stream_dep()\<close>, which gives the
  children of the stream to its parent with recalculated weights.
\<close>

section \<open>Total weights\<close>

lemma total_weight_inv [simp]:
  "sched_inv d (upd_entry k (\<lambda>e. e\<lparr>se_total_weight := x\<rparr>) S) = sched_inv d S"
proof -
  let ?S = "upd_entry k (\<lambda>e. e\<lparr>se_total_weight := x\<rparr>) S"
  have "live ?S t = live S t" for t
    by (simp add: live_def)
  then have "linked_ok ?S t = linked_ok S t" for t
    by (auto simp: linked_ok_def split: option.splits)
  then show ?thesis
    by (simp add: sched_inv_def inv_tree_cong [of ?S S] inv_cnt_cong [of ?S S]
        inv_lists_cong [of ?S S])
qed

lemma detach_total:
  assumes "sched_detach s S = Some S'" "par S s = Some p"
  shows "se_total_weight (sc_entry S' k) =
    se_total_weight (sc_entry S k) - (if k = p then ucast (stream_weight S s) else 0)"
  using assms by (auto simp: sched_detach_def)

lemma attach_total:
  assumes "sched_attach s p S = Some S'" "par S s = None" "node S s = Unlinked" "s \<noteq> p"
    and "st_sched_state (sc_stream S s) = HTTP2_STREAM_SCHED_STATE_UNKNOWN"
  shows "se_total_weight (sc_entry S' k) =
    se_total_weight (sc_entry S k) + (if k = p then ucast (stream_weight S s) else 0)"
proof -
  have "se_total_weight (sc_entry (relink s T) k) = se_total_weight (sc_entry T k)" for T
    using same_shape_relink [of T s] by (simp add: same_shape_def)
  then show ?thesis
    using assms attach_relink [OF assms(2,3,4,5)] by auto
qed

text \<open>Detaching a child after its weight was changed is changing it afterwards.\<close>

lemma detach_set_weight:
  assumes "par S c = Some s" "s \<noteq> c"
  shows "sched_detach c (set_weight w c S) =
    map_option (\<lambda>T. upd_entry s (\<lambda>e. e\<lparr>se_total_weight := se_total_weight (sc_entry S s) - ucast w\<rparr>)
      (set_weight w c T)) (sched_detach c S)"
  using assms
  by (auto simp: sched_detach_def set_weight_def upd_entry_def upd_stream_def sched_list_del_def
      stream_weight_def fun_eq_iff split: sched_link.splits)

section \<open>Handing the children over\<close>

text \<open>The counters are wrong at the removed stream \<open>s\<close> by \<open>A\<close> and at its old parent \<open>p\<close> by \<open>B\<close>.\<close>

definition two_owe :: "sid \<Rightarrow> sid \<Rightarrow> int \<Rightarrow> int \<Rightarrow> sid \<Rightarrow> int" where
  "two_owe s p A B = (\<lambda>k. if k = s then A else if k = p then B else 0)"

lemma two_owe_move:
  "s \<noteq> p \<Longrightarrow> owes_more (owes_less (two_owe s p A B) s v) p v = two_owe s p (A - v) (B + v)"
  by (auto simp: owes_more_def owes_less_def two_owe_def)

definition new_weight :: "bool \<Rightarrow> u16 \<Rightarrow> u64 \<Rightarrow> u16 \<Rightarrow> u16" where
  "new_weight phc sw tw cw = (if phc then the (sched_new_weight cw sw tw) else cw)"

text \<open>
  \<open>handed C f s p S S'\<close>: the children \<open>C\<close> of \<open>s\<close> have gone to \<open>p\<close> with the weights \<open>f\<close>.
\<close>

definition handed :: "sid set \<Rightarrow> (sid \<Rightarrow> u16) \<Rightarrow> sid \<Rightarrow> sid \<Rightarrow> TfwStreamSched \<Rightarrow> TfwStreamSched \<Rightarrow> bool" where
  "handed C f s p S S' \<longleftrightarrow> sc_streams S' = sc_streams S
     \<and> sc_blocked_streams S' = sc_blocked_streams S
     \<and> (\<forall>t. cnt S' t = cnt S t) \<and> (\<forall>t. no_weight (sc_stream S' t) = no_weight (sc_stream S t))
     \<and> (\<forall>t. par S' t = (if t \<in> C then Some p else par S t))
     \<and> (\<forall>t. stream_weight S' t = (if t \<in> C then f t else stream_weight S t))
     \<and> (\<forall>k. se_total_weight (sc_entry S' k) = se_total_weight (sc_entry S k)
           - (if k = s then \<Sum>c \<in> C. ucast (f c) else 0) + (if k = p then \<Sum>c \<in> C. ucast (f c) else 0))"

lemma handed_empty: "handed {} f s p S S"
  by (simp add: handed_def)

lemma handed_trans:
  assumes "handed C f s p S T" "handed D g s p T U" "finite C" "finite D" "C \<inter> D = {}"
    and "\<And>c. c \<in> C \<Longrightarrow> h c = f c" "\<And>c. c \<in> D \<Longrightarrow> h c = g c"
  shows "handed (C \<union> D) h s p S U"
proof -
  have "(\<Sum>c \<in> C \<union> D. ucast (h c)) = (\<Sum>c \<in> C. ucast (f c)) + (\<Sum>c \<in> D. ucast (g c) :: u64)"
    using assms(3-7) by (simp add: sum.union_disjoint)
  with assms show ?thesis
    by (auto simp: handed_def)
qed

lemma no_weight_active:
  assumes "\<forall>t. no_weight (sc_stream S' t) = no_weight (sc_stream S t)"
  shows "tfw_h2_stream_is_active S' = tfw_h2_stream_is_active S"
proof -
  have "st_xmit (sc_stream S' t) = st_xmit (sc_stream S t)" for t
    using arg_cong [OF spec [OF assms, of t], of st_xmit] by (simp add: no_weight_def unlinked_def)
  then show ?thesis by (simp add: fun_eq_iff tfw_h2_stream_is_active_def)
qed

lemma handedD:
  assumes "handed C f s p S S'"
  shows "stream_ids S' = stream_ids S" "sched_keys S' = sched_keys S"
    and "par S' t = (if t \<in> C then Some p else par S t)" "live S' t = live S t"
    and "stream_weight S' t = (if t \<in> C then f t else stream_weight S t)"
    and "tfw_h2_stream_is_active S' = tfw_h2_stream_is_active S"
  using assms no_weight_active [of S' S]
  by (simp_all add: handed_def stream_ids_def sched_keys_def live_def)

lemma hand_one:
  assumes inv: "sched_inv (two_owe s p A B) S" and c: "par S c = Some s"
    and p: "p \<in> sched_keys S" "(p, s) \<notin> (up S)\<^sup>*"
  shows "\<exists>S' v. tfw_h2_stream_sched_reinsert c p (set_weight w c S) = Some S'
           \<and> sched_inv (two_owe s p (A - v) (B + v)) S' \<and> handed {c} (\<lambda>_. w) s p S S'"
proof -
  have sp: "s \<noteq> p" using p(2) by auto
  have cs: "s \<noteq> c" and cid: "c \<in> stream_ids S" using inv_parD [OF inv c] by auto
  have cs_up: "(c, s) \<in> up S" using c by (simp add: up_def)
  have pc: "(p, c) \<notin> (up S)\<^sup>*"
    using p(2) cs_up by (meson rtrancl.rtrancl_into_rtrancl)
  obtain T where T: "sched_detach c S = Some T" "moved c None S T" "\<forall>t. cnt T t = cnt S t"
    "sched_inv (owes_less (two_owe s p A B) s (stream_active_cnt S c)) T"
    using detach_ok [OF inv c] by auto
  define T' where "T' = upd_entry s (\<lambda>e. e\<lparr>se_total_weight :=
      se_total_weight (sc_entry S s) - ucast w\<rparr>) (set_weight w c T)"
  have det: "sched_detach c (set_weight w c S) = Some T'"
    using detach_set_weight [OF c cs] T(1) by (simp add: T'_def)
  have cT: "c \<in> stream_ids T" "par T c = None"
    using movedD(2,3) [OF T(2)] cid by auto
  have invT': "sched_inv (owes_less (two_owe s p A B) s (stream_active_cnt S c)) T'"
    unfolding T'_def using set_weight_inv [OF T(4) cT] by simp
  have up_T': "up T' = up T" by (auto simp: T'_def up_def split: if_splits)
  have T'_funs: "stream_ids T' = stream_ids S" "sched_keys T' = sched_keys S" "up T' = up T"
    "par T' c = None" "stream_active_cnt T' c = stream_active_cnt S c"
    using movedD [OF T(2)] T(3) up_T'
    by (simp_all add: T'_def sched_keys_def stream_active_cnt_def)
  have "(p, c) \<notin> (up T')\<^sup>*"
    using pc moved_up [OF T(2)] rtrancl_mono [of "up T" "up S"] by (auto simp: T'_funs)
  then obtain S' where S': "sched_attach c p T' = Some S'" "moved c (Some p) T' S'"
    "\<forall>t. cnt S' t = cnt T' t"
    "sched_inv (owes_more (owes_less (two_owe s p A B) s (stream_active_cnt S c)) p
       (stream_active_cnt S c)) S'"
    using attach_ok [OF invT', of c p] T'_funs cid p(1) by auto
  have un: "node T' c = Unlinked"
    "st_sched_state (sc_stream T' c) = HTTP2_STREAM_SCHED_STATE_UNKNOWN"
    using invT' T'_funs(1,4) cid by (auto simp: sched_inv_def linked_ok_def)
  have pc_neq: "c \<noteq> p" using pc by auto
  have wT': "stream_weight T' c = w" by (simp add: T'_def)
  have "handed {c} (\<lambda>_. w) s p S S'"
    unfolding handed_def
  proof (intro conjI allI)
    fix t
    show "se_total_weight (sc_entry S' t) = se_total_weight (sc_entry S t)
           - (if t = s then \<Sum>c \<in> {c}. ucast w else 0) + (if t = p then \<Sum>c \<in> {c}. ucast w else 0)"
      using attach_total [OF S'(1) T'_funs(4) un(1) pc_neq un(2), of t] detach_total [OF T(1) c, of t]
      unfolding wT' by (cases "t = s"; cases "t = p") (simp_all add: T'_def)
    have "unlinked (sc_stream S' t) = unlinked (sc_stream T' t)"
      "unlinked (sc_stream T t) = unlinked (sc_stream S t)"
      using S'(2) T(2) by (simp_all add: moved_def)
    then show "no_weight (sc_stream S' t) = no_weight (sc_stream S t)"
      by (auto simp: no_weight_def T'_def set_weight_def unlinked_def)
    show "stream_weight S' t = (if t \<in> {c} then w else stream_weight S t)"
      using movedD(5) [OF S'(2)] movedD(5) [OF T(2)] by (simp add: T'_def)
    show "par S' t = (if t \<in> {c} then Some p else par S t)"
      using movedD(2) [OF S'(2), of t] movedD(2) [OF T(2), of t]
      by (auto simp: T'_def split: if_splits)
    show "cnt S' t = cnt S t"
      using S'(3) T(3) by (simp add: T'_def)
  qed (use S'(2) T(2) in \<open>simp_all add: moved_def T'_def\<close>)
  then show ?thesis
    using det S' two_owe_move [OF sp]
    by (auto simp: tfw_h2_stream_sched_reinsert_def)
qed

lemma reweight_eq:
  assumes "phc \<longrightarrow> tw \<noteq> 0"
  shows "sched_reweight phc s tw c S
       = Some (set_weight (new_weight phc (stream_weight S s) tw (stream_weight S c)) c S)"
proof (cases phc)
  case True
  with assms show ?thesis
    by (simp add: sched_reweight_def new_weight_def sched_new_weight_def set_weight_def Let_def)
next
  case False
  have "set_weight (stream_weight S c) c S = S"
    by (simp add: set_weight_def upd_stream_def stream_weight_def fun_upd_idem)
  with False show ?thesis
    by (simp add: sched_reweight_def new_weight_def)
qed

lemma children_of_set:
  assumes "sched_inv d S" "s \<in> sched_keys S"
  shows "set (children_of act (sc_entry S s)) = {c \<in> children S s. live S c = act}"
  using lists_children [OF assms] by (auto simp: children_of_def)

lemma handed_up:
  assumes h: "handed {c} f s p S S'" and c: "par S c = Some s" and ps: "(p, s) \<notin> (up S)\<^sup>*"
  shows "(p, s) \<notin> (up S')\<^sup>*"
proof -
  have "(c, s) \<in> up S" using c by (simp add: up_def)
  then have "(p, c) \<notin> (up S)\<^sup>*" using ps by (meson rtrancl.rtrancl_into_rtrancl)
  then have "(p, s) \<notin> (insert (c, p) (up S))\<^sup>*" using ps by (auto simp: rtrancl_insert)
  moreover have "up S' \<subseteq> insert (c, p) (up S)"
    using handedD(3) [OF h] by (auto simp: up_def split: if_splits)
  ultimately show ?thesis using rtrancl_mono by blast
qed

lemma move_children_ok:
  assumes "sched_inv (two_owe s p A B) S" "s \<in> stream_ids S" "par S s = None"
    and "p \<in> sched_keys S" "(p, s) \<notin> (up S)\<^sup>*" and tw: "phc \<longrightarrow> tw \<noteq> 0"
  shows "\<exists>S' A' B'. sched_move_children_loop act s p phc tw S = Some S'
           \<and> sched_inv (two_owe s p A' B') S' \<and> A' + B' = A + B \<and> (p, s) \<notin> (up S')\<^sup>*
           \<and> handed {c \<in> children S s. live S c = act}
               (\<lambda>c. new_weight phc (stream_weight S s) tw (stream_weight S c)) s p S S'"
  using assms(1-5)
proof (induction "card {c \<in> children S s. live S c = act}" arbitrary: S A B rule: less_induct)
  case less
  let ?C = "\<lambda>S. {c \<in> children S s. live S c = act}"
  let ?f = "\<lambda>c. new_weight phc (stream_weight S s) tw (stream_weight S c)"
  have tree: "inv_tree S" using less.prems(1) by (simp add: sched_inv_def)
  have set: "set (children_of act (sc_entry S s)) = ?C S"
    using children_of_set [OF less.prems(1)] less.prems(2) by (simp add: sched_keys_def)
  have fin: "finite (?C S)" using tree by simp
  have ps: "p \<noteq> s" using less.prems(5) by auto
  show ?case
  proof (cases "children_of act (sc_entry S s)")
    case Nil
    with set have e: "?C S = {}" by simp
    have "sched_move_children_loop act s p phc tw S = Some S"
      by (subst sched_move_children_loop.simps) (simp add: Nil)
    with less.prems show ?thesis
      unfolding e using handed_empty by blast
  next
    case (Cons c cs)
    then have cC: "c \<in> ?C S" using set by auto
    then have c: "par S c = Some s" by (simp add: children_def)
    obtain T v where T: "tfw_h2_stream_sched_reinsert c p (set_weight (?f c) c S) = Some T"
      "sched_inv (two_owe s p (A - v) (B + v)) T" and h: "handed {c} (\<lambda>_. ?f c) s p S T"
      using hand_one [OF less.prems(1) c less.prems(4,5)] by blast
    have CT: "?C T = ?C S - {c}"
      using handedD(3,4) [OF h] ps by (auto simp: children_def split: if_splits)
    have wT: "stream_weight T s = stream_weight S s" "t \<in> ?C T \<Longrightarrow> stream_weight T t = stream_weight S t" for t
      using handedD(5) [OF h] CT less.prems(3) c by (auto split: if_splits)
    have lt: "card (?C T) < card (?C S)"
      unfolding CT using fin cC by (intro card_Diff1_less)
    have "par T s = None" using handedD(3) [OF h, of s] less.prems(3) c by auto
    then obtain S' A' B' where S': "sched_move_children_loop act s p phc tw T = Some S'"
      "sched_inv (two_owe s p A' B') S'" "A' + B' = A - v + (B + v)" "(p, s) \<notin> (up S')\<^sup>*"
      "handed (?C T) (\<lambda>c. new_weight phc (stream_weight T s) tw (stream_weight T c)) s p T S'"
      using less.hyps [OF lt T(2)] handed_up [OF h c less.prems(5)] less.prems(2,4)
        handedD(1,2) [OF h] by auto
    have "handed ({c} \<union> ?C T) ?f s p S S'"
      using fin CT wT by (intro handed_trans [OF h S'(5)]) auto
    moreover have "{c} \<union> ?C T = ?C S" using CT cC by auto
    ultimately show ?thesis
      using Cons T(1) S' reweight_eq [OF tw]
      by (subst sched_move_children_loop.simps) auto
  qed
qed

section \<open>Removing a stream\<close>

text \<open>The weights which the blocked children of a removed stream get, and the total that is left.\<close>

definition blocked_children :: "TfwStreamSched \<Rightarrow> sid \<Rightarrow> sid set" where
  "blocked_children S s = {c \<in> children S s. \<not> live S c}"

definition active_children :: "TfwStreamSched \<Rightarrow> sid \<Rightarrow> sid set" where
  "active_children S s = {c \<in> children S s. live S c}"

definition left_total :: "TfwStreamSched \<Rightarrow> sid \<Rightarrow> u64" where
  "left_total S s = se_total_weight (sc_entry S s) -
     (\<Sum>c \<in> blocked_children S s. ucast (the (sched_new_weight (stream_weight S c)
        (stream_weight S s) (se_total_weight (sc_entry S s)))))"

text \<open>
  The removal divides by zero: the stream has siblings, and either its total weight is zero
  although it has blocked children, or nothing is left of it for the active children.
\<close>

definition remove_traps :: "TfwStreamSched \<Rightarrow> sid \<Rightarrow> bool" where
  "remove_traps S s \<longleftrightarrow> (\<exists>p. par S s = Some p \<and> children S p \<noteq> {s})
     \<and> (blocked_children S s \<noteq> {} \<and> se_total_weight (sc_entry S s) = 0
        \<or> active_children S s \<noteq> {} \<and> left_total S s = 0)"

lemma move_children_trap:
  assumes "sched_inv d S" "s \<in> sched_keys S" "{c \<in> children S s. live S c = act} \<noteq> {}"
  shows "sched_move_children_loop act s p True 0 S = None"
proof -
  obtain c cs where "children_of act (sc_entry S s) = c # cs"
    using children_of_set [OF assms(1,2), of act] assms(3)
    by (cases "children_of act (sc_entry S s)") auto
  then show ?thesis
    by (subst sched_move_children_loop.simps) (simp add: sched_reweight_def sched_new_weight_def)
qed

lemma move_children_nil:
  assumes "sched_inv d S" "s \<in> sched_keys S" "{c \<in> children S s. live S c = act} = {}"
  shows "sched_move_children_loop act s p phc tw S = Some S"
proof -
  have "children_of act (sc_entry S s) = []"
    using children_of_set [OF assms(1,2), of act] assms(3) by simp
  then show ?thesis
    by (subst sched_move_children_loop.simps) simp
qed

text \<open>The state in which the children are handed over.\<close>

lemma remove_start:
  assumes inv: "sched_inv settled_cnt S" and p: "par S s = Some p"
  obtains T where "sched_detach s S = Some T"
    and "sched_inv (two_owe s p (cnt S s) (- stream_active_cnt S s))
           (upd_entry s (\<lambda>e. e\<lparr>se_active_cnt := 0\<rparr>) T)"
    and "moved s None S T" and "\<forall>t. cnt T t = cnt S t"
    and "se_total_weight (sc_entry T s) = se_total_weight (sc_entry S s)"
proof -
  obtain T where T: "sched_detach s S = Some T" "moved s None S T" "\<forall>t. cnt T t = cnt S t"
    "sched_inv (owes_less settled_cnt p (stream_active_cnt S s)) T"
    using detach_ok [OF inv p] by auto
  have sp: "p \<noteq> s" using inv_parD(3) [OF inv p] .
  define d where "d = owes_less settled_cnt p (stream_active_cnt S s)"
  let ?U = "upd_entry s (\<lambda>e. e\<lparr>se_active_cnt := 0\<rparr>) T"
  have invT: "inv_tree T" "inv_lists T" "inv_cnt d T" "\<forall>t \<in> stream_ids T. linked_ok T t"
    using T(4) by (auto simp: sched_inv_def d_def)
  have parT: "par T s = None" using movedD(2) [OF T(2)] by simp
  have "linked_ok ?U t" if "t \<in> stream_ids T" for t
    using invT(4) that parT
    by (cases "t = s") (auto simp: linked_ok_def live_def split: option.splits)
  moreover have "inv_cnt (two_owe s p (cnt S s) (- stream_active_cnt S s)) ?U"
  proof -
    have "(\<Sum>t \<in> children ?U k. stream_active_cnt ?U t) = (\<Sum>t \<in> children T k. stream_active_cnt T t)" for k
      using sum_children_change [OF invT(1), of ?U s k] parT by (auto simp: stream_active_cnt_def)
    with invT(3) T(3) sp show ?thesis
      by (auto simp: inv_cnt_def d_def owes_less_def two_owe_def sched_keys_def)
  qed
  moreover have "inv_tree ?U" "inv_lists ?U"
    using invT(1,2) inv_tree_cong [of ?U T] inv_lists_cong [of ?U T] by auto
  ultimately have "sched_inv (two_owe s p (cnt S s) (- stream_active_cnt S s)) ?U"
    by (simp add: sched_inv_def)
  moreover have "se_total_weight (sc_entry T s) = se_total_weight (sc_entry S s)"
    using detach_total [OF T(1) p, of s] sp by simp
  ultimately show thesis using that T by blast
qed

lemma hand_list:
  fixes act phc :: bool
  assumes inv: "sched_inv (two_owe s p A B) S" and s: "s \<in> stream_ids S" "par S s = None"
    and p: "p \<in> sched_keys S" "(p, s) \<notin> (up S)\<^sup>*"
  defines "C \<equiv> {c \<in> children S s. live S c = act}"
    and "f \<equiv> (\<lambda>c. new_weight phc (stream_weight S s) (se_total_weight (sc_entry S s)) (stream_weight S c))"
  shows "if phc \<and> C \<noteq> {} \<and> se_total_weight (sc_entry S s) = 0
         then tfw_h2_stream_sched_move_children act s p phc S = None
         else \<exists>S' A' B'. tfw_h2_stream_sched_move_children act s p phc S = Some S'
           \<and> sched_inv (two_owe s p A' B') S' \<and> A' + B' = A + B \<and> (p, s) \<notin> (up S')\<^sup>*
           \<and> handed C f s p S S'"
proof -
  have sk: "s \<in> sched_keys S" using s(1) by (simp add: sched_keys_def)
  show ?thesis
  proof (cases "C = {}")
    case True
    then have "tfw_h2_stream_sched_move_children act s p phc S = Some S"
      unfolding tfw_h2_stream_sched_move_children_def C_def by (rule move_children_nil [OF inv sk])
    with True inv p show ?thesis
      using handed_empty [of f s p S] by (simp, blast)
  next
    case False
    show ?thesis
    proof (cases "phc \<and> se_total_weight (sc_entry S s) = 0")
      case True
      with False move_children_trap [OF inv sk, of act p] show ?thesis
        by (simp add: tfw_h2_stream_sched_move_children_def C_def)
    next
      case ok: False
      with move_children_ok [OF inv s p, of phc "se_total_weight (sc_entry S s)" act] show ?thesis
        by (auto simp: tfw_h2_stream_sched_move_children_def C_def f_def)
    qed
  qed
qed

text \<open>Both lists, one after the other; the second one sees the total that the first one left.\<close>

definition hand_trap :: "bool \<Rightarrow> TfwStreamSched \<Rightarrow> sid \<Rightarrow> bool" where
  "hand_trap phc S s \<longleftrightarrow> phc \<and>
     (blocked_children S s \<noteq> {} \<and> se_total_weight (sc_entry S s) = 0
      \<or> active_children S s \<noteq> {} \<and> left_total S s = 0)"

lemma hand_both:
  assumes inv: "sched_inv (two_owe s p A B) S" and s: "s \<in> stream_ids S" "par S s = None"
    and p: "p \<in> sched_keys S" "(p, s) \<notin> (up S)\<^sup>*" and c0: "cnt S s = 0"
  shows "if hand_trap phc S s then
           Option.bind (tfw_h2_stream_sched_move_children False s p phc S)
             (tfw_h2_stream_sched_move_children True s p phc) = None
         else \<exists>S' f. Option.bind (tfw_h2_stream_sched_move_children False s p phc S)
               (tfw_h2_stream_sched_move_children True s p phc) = Some S'
             \<and> sched_inv (owes p (A + B)) S' \<and> handed (children S s) f s p S S'"
proof (cases "phc \<and> blocked_children S s \<noteq> {} \<and> se_total_weight (sc_entry S s) = 0")
  case True
  with hand_list [OF inv s p, of phc False] show ?thesis
    by (simp add: hand_trap_def blocked_children_def)
next
  case blk: False
  define f where "f = (\<lambda>c. new_weight phc (stream_weight S s)
    (se_total_weight (sc_entry S s)) (stream_weight S c))"
  have sp: "s \<noteq> p" using p(2) by auto
  obtain V A' B' where V: "tfw_h2_stream_sched_move_children False s p phc S = Some V"
    "sched_inv (two_owe s p A' B') V" "A' + B' = A + B" "(p, s) \<notin> (up V)\<^sup>*"
    "handed (blocked_children S s) f s p S V"
    using hand_list [OF inv s p, of phc False] blk
    by (auto simp: blocked_children_def f_def split: if_splits)
  have sV: "s \<in> stream_ids V" "par V s = None" "p \<in> sched_keys V"
    using handedD(1,2,3) [OF V(5)] s p by (auto simp: blocked_children_def children_def)
  have act: "{c \<in> children V s. live V c = True} = active_children S s"
    using handedD(3,4) [OF V(5)] sp
    by (auto simp: active_children_def blocked_children_def children_def split: if_splits)
  have left: "se_total_weight (sc_entry V s) = left_total S s" if phc
    using V(5) sp that by (simp add: handed_def left_total_def f_def new_weight_def)
  show ?thesis
  proof (cases "phc \<and> active_children S s \<noteq> {} \<and> left_total S s = 0")
    case True
    with hand_list [OF V(2) sV V(4), of phc True, unfolded act] left V(1) show ?thesis
      by (simp add: hand_trap_def)
  next
    case False
    then obtain W A'' B'' g where W: "tfw_h2_stream_sched_move_children True s p phc V = Some W"
      "sched_inv (two_owe s p A'' B'') W" "A'' + B'' = A' + B'" "handed (active_children S s) g s p V W"
      using hand_list [OF V(2) sV V(4), of phc True, unfolded act] left
      by (auto split: if_splits)
    have fin: "finite (children S s)" using inv by (auto simp: sched_inv_def)
    have ch: "blocked_children S s \<union> active_children S s = children S s"
      by (auto simp: blocked_children_def active_children_def)
    have h: "handed (children S s) (\<lambda>c. if live S c then g c else f c) s p S W"
      using fin unfolding ch [symmetric]
      by (intro handed_trans [OF V(5) W(4)]) (auto simp: blocked_children_def active_children_def)
    have "children W s = {}"
      using handedD(3) [OF h] sp by (auto simp: children_def split: if_splits)
    moreover have "cnt W s = 0" using h c0 by (simp add: handed_def)
    moreover have "s \<in> sched_keys W" using handedD(2) [OF h] s(1) by (simp add: sched_keys_def)
    ultimately have "A'' = 0"
      using W(2) by (auto simp: sched_inv_def inv_cnt_def two_owe_def)
    then have "two_owe s p A'' B'' = owes p (A + B)"
      using W(3) V(3) sp by (auto simp: two_owe_def owes_def)
    with False blk V(1) W(1,2) h show ?thesis
      by (auto simp: hand_trap_def)
  qed
qed

lemma remove_stream_dep_ok:
  assumes inv: "sched_inv settled_cnt S" and p: "par S s = Some p"
  shows "if remove_traps S s then tfw_h2_remove_stream_dep s S = None
         else \<exists>S'. tfw_h2_remove_stream_dep s S = Some S' \<and> sched_inv settled_cnt S'
           \<and> sc_streams S' = sc_streams S \<and> sc_blocked_streams S' = sc_blocked_streams S
           \<and> (\<forall>t. no_weight (sc_stream S' t) = no_weight (sc_stream S t))
           \<and> (\<forall>t. par S' t = (if t = s then None else if par S t = Some s then Some p else par S t))"
proof -
  have s: "s \<in> stream_ids S" "p \<in> sched_keys S" and ps: "p \<noteq> s"
    using inv_parD [OF inv p] by auto
  have acyc: "acyclic (up S)" using inv by (simp add: sched_inv_def inv_tree_def)
  have "(s, p) \<in> up S" using p by (simp add: up_def)
  then have up: "(p, s) \<notin> (up S)\<^sup>*"
    using acyc by (auto simp: acyclic_def dest: rtrancl_into_trancl2)
  obtain T where T: "sched_detach s S = Some T"
    "sched_inv (two_owe s p (cnt S s) (- stream_active_cnt S s))
       (upd_entry s (\<lambda>e. e\<lparr>se_active_cnt := 0\<rparr>) T)"
    "moved s None S T" "\<forall>t. cnt T t = cnt S t"
    "se_total_weight (sc_entry T s) = se_total_weight (sc_entry S s)"
    by (rule remove_start [OF inv p])
  define U where "U = upd_entry s (\<lambda>e. e\<lparr>se_active_cnt := 0\<rparr>) T"
  define phc where "phc = tfw_h2_stream_sched_has_children U p"
  have invU: "sched_inv (two_owe s p (cnt S s) (- stream_active_cnt S s)) U"
    using T(2) by (simp add: U_def)
  have parU: "par U t = (if t = s then None else par S t)" for t
    using movedD(2) [OF T(3), of t] by (auto simp: U_def split: if_splits)
  have actU: "tfw_h2_stream_is_active U = tfw_h2_stream_is_active S"
    using movedD(6) [OF T(3)] by (simp add: U_def)
  have U: "s \<in> stream_ids U" "par U s = None" "p \<in> sched_keys U" "cnt U s = 0"
    using s movedD(3,4) [OF T(3)] parU [of s] by (auto simp: U_def sched_keys_def)
  have "up U \<subseteq> up S" using parU by (auto simp: up_def split: if_splits)
  then have upU: "(p, s) \<notin> (up U)\<^sup>*" using up rtrancl_mono by blast
  have chU: "children U s = children S s" "children U p = children S p - {s}"
    using parU p ps inv_parD(3) [OF inv] by (auto simp: children_def split: if_splits)
  have phc_iff: "phc \<longleftrightarrow> children S p \<noteq> {s}"
    using has_children_iff [OF invU U(3)] chU(2) p by (auto simp: phc_def children_def)
  have live: "live U c = live S c" if "c \<in> children S s" for c
    using that T(4) actU inv_parD(3) [OF inv] by (auto simp: live_def U_def children_def)
  have trap: "hand_trap phc U s = remove_traps S s"
    using phc_iff p live chU(1) T(5) movedD(5) [OF T(3)]
    by (simp add: hand_trap_def remove_traps_def left_total_def blocked_children_def
        active_children_def U_def cong: conj_cong)
  have unf: "tfw_h2_remove_stream_dep s S = Option.bind
      (Option.bind (tfw_h2_stream_sched_move_children False s p phc U)
        (tfw_h2_stream_sched_move_children True s p phc))
      (\<lambda>S4. if \<not> tfw_h2_stream_is_active S s then Some S4 else sched_propagate_dec p 1 S4)"
    using p T(1) by (simp add: tfw_h2_remove_stream_dep_def U_def [symmetric] phc_def Let_def)
  show ?thesis
  proof (cases "remove_traps S s")
    case True
    with hand_both [OF invU U(1,2,3) upU U(4), of phc] trap unf show ?thesis by simp
  next
    case False
    then obtain V f where V: "Option.bind (tfw_h2_stream_sched_move_children False s p phc U)
        (tfw_h2_stream_sched_move_children True s p phc) = Some V"
      "sched_inv (owes p (cnt S s + - stream_active_cnt S s)) V" "handed (children U s) f s p U V"
      using hand_both [OF invU U(1,2,3) upU U(4), of phc] trap by auto
    have owe: "cnt S s + - stream_active_cnt S s = - (if tfw_h2_stream_is_active S s then 1 else 0)"
      by (simp add: stream_active_cnt_def)
    obtain S' where S': "(if \<not> tfw_h2_stream_is_active S s then Some V
        else sched_propagate_dec p 1 V) = Some S'" "sched_inv settled_cnt S'" "same_shape V S'"
      using dec_loop.loop_returns [of 1 p V] V(2) handedD(2) [OF V(3)] U(3)
      unfolding owe by (cases "tfw_h2_stream_is_active S s") (auto simp: propagated_def)
    have "no_weight (sc_stream S' t) = no_weight (sc_stream S t)" for t
      using S'(3) V(3) T(3)
      by (auto simp: same_shape_def handed_def moved_def U_def no_weight_def)
    moreover have "par S' t = (if t = s then None else if par S t = Some s then Some p else par S t)" for t
      using same_shapeD(2) [OF S'(3), of t] handedD(3) [OF V(3), of t] parU [of t] chU(1) p ps
      by (auto simp: children_def)
    moreover have "sc_streams S' = sc_streams S" "sc_blocked_streams S' = sc_blocked_streams S"
      using S'(3) V(3) T(3) by (auto simp: same_shape_def handed_def moved_def U_def)
    ultimately show ?thesis
      using False unf V(1) S'(1,2) by simp
  qed
qed

end
