(* ===== verification/H2_Sched_Props.thy ===== *)
theory H2_Sched_Props
  imports H2_Sched_Remove
begin

text \<open>
  The search for the stream to send from, activation and deactivation of streams, the
  storage of streams, and the properties of the HTTP/2 priority scheduler.
\<close>

section \<open>Activation and deactivation\<close>

text \<open>The transmit state of a stream changes, and the stream is relinked.\<close>

definition set_xmit :: "TfwHttpXmit \<Rightarrow> sid \<Rightarrow> TfwStreamSched \<Rightarrow> TfwStreamSched" where
  "set_xmit x s = upd_stream s (\<lambda>t. t\<lparr>st_xmit := x\<rparr>)"

definition xmit_active :: "TfwHttpXmit \<Rightarrow> bool" where
  "xmit_active x \<longleftrightarrow> x_skb_head x \<noteq> [] \<and> \<not> x_is_blocked x"

lemma set_xmit_proj [simp]:
  "sc_streams (set_xmit x s S) = sc_streams S" "sc_entry (set_xmit x s S) = sc_entry S"
  "stream_ids (set_xmit x s S) = stream_ids S" "sched_keys (set_xmit x s S) = sched_keys S"
  "node (set_xmit x s S) t = node S t"
  "st_sched_state (sc_stream (set_xmit x s S) t) = st_sched_state (sc_stream S t)"
  "tfw_h2_stream_is_active (set_xmit x s S) = (tfw_h2_stream_is_active S)(s := xmit_active x)"
  "stream_weight (set_xmit x s S) = stream_weight S"
  by (auto simp: set_xmit_def sched_keys_def stream_weight_def tfw_h2_stream_is_active_def
      xmit_active_def fun_eq_iff)

lemma set_xmit_inv:
  assumes inv: "sched_inv settled_cnt S" and p: "par S s = Some p"
  shows "sched_inv (owes p (of_bool (xmit_active x) - of_bool (tfw_h2_stream_is_active S s)))
           (relink s (set_xmit x s S))"
proof -
  let ?S = "set_xmit x s S"
  have tree: "inv_tree S" and lists: "inv_lists S" and ct: "inv_cnt settled_cnt S"
    and lnk: "\<forall>t \<in> stream_ids S. linked_ok S t"
    using inv by (auto simp: sched_inv_def)
  have s: "s \<in> stream_ids S" using inv_parD(1) [OF inv p] .
  have "inv_lists ?S"
    using lists by (subst inv_lists_cong [of ?S S]) auto
  moreover have "half_linked ?S s"
    using lnk s p by (auto simp: half_linked_def linked_ok_def split: if_splits)
  moreover have "\<forall>t \<in> stream_ids ?S. t \<noteq> s \<longrightarrow> linked_ok ?S t"
    using lnk by (auto simp: linked_ok_def live_def split: option.splits)
  ultimately have "inv_lists (relink s ?S) \<and> (\<forall>t \<in> stream_ids S. linked_ok (relink s ?S) t)"
    using relink_ok [of ?S s] s by simp
  moreover have "inv_tree (relink s ?S)"
    using tree by (subst inv_tree_cong [of _ S]) auto
  moreover have "inv_cnt (owes p (of_bool (xmit_active x) - of_bool (tfw_h2_stream_is_active S s))) ?S"
    using ct sum_children_change [OF tree, of ?S s] p
    by (auto simp: inv_cnt_def owes_def stream_active_cnt_def)
  then have "inv_cnt (owes p (of_bool (xmit_active x) - of_bool (tfw_h2_stream_is_active S s)))
      (relink s ?S)"
    by (subst inv_cnt_cong [of _ ?S]) auto
  ultimately show ?thesis by (simp add: sched_inv_def)
qed

lemma activate_ok:
  assumes ok: "sched_ok S" and s: "s \<in> stream_ids S"
    and x: "\<not> tfw_h2_stream_is_active S s" "xmit_active x"
  shows "\<exists>S'. tfw_h2_sched_activate_stream s (set_xmit x s S) = Some S' \<and> sched_ok S'
           \<and> same_shape (set_xmit x s S) S'"
proof -
  let ?S = "set_xmit x s S"
  have inv: "sched_inv settled_cnt S" using ok by (simp add: sched_ok_def)
  obtain p where p: "par S s = Some p" using ok s by (auto simp: sched_ok_def)
  have lnk: "linked_ok S s" using inv s by (simp add: sched_inv_def)
  have "(if cnt S s = 0 then tfw_h2_stream_sched_insert_active s ?S else Some ?S)
      = Some (relink s ?S)"
    using lnk p x insert_active_link [of ?S s p]
    by (auto simp: linked_ok_def live_def relink_def)
  moreover obtain S' where "sched_propagate_add p 1 (relink s ?S) = Some S'"
    "propagated p (relink s ?S) S'"
    using add_loop.loop_returns [of 1 p "relink s ?S"] set_xmit_inv [OF inv p, of x] x
      inv_parD(2) [OF inv p] by auto
  ultimately show ?thesis
    using p x ok same_shape_trans [OF same_shape_relink, of s ?S S']
      same_shapeD(2,4) [of "relink s ?S" S']
    by (auto simp: tfw_h2_sched_activate_stream_def propagated_def sched_ok_def)
qed

lemma deactivate_ok:
  assumes ok: "sched_ok S" and s: "s \<in> stream_ids S"
    and x: "tfw_h2_stream_is_active S s" "\<not> xmit_active x"
  shows "\<exists>S'. tfw_h2_sched_deactivate_stream s (set_xmit x s S) = Some S' \<and> sched_ok S'
           \<and> same_shape (set_xmit x s S) S'"
proof -
  let ?S = "set_xmit x s S"
  have inv: "sched_inv settled_cnt S" using ok by (simp add: sched_ok_def)
  obtain p where p: "par S s = Some p" using ok s by (auto simp: sched_ok_def)
  have lnk: "linked_ok S s" using inv s by (simp add: sched_inv_def)
  have "(if cnt S s = 0 then tfw_h2_stream_sched_insert_blocked s ?S else Some ?S)
      = Some (relink s ?S)"
    using lnk p x insert_blocked_link [of ?S s p]
    by (auto simp: linked_ok_def live_def relink_def)
  moreover obtain S' where "sched_propagate_dec p 1 (relink s ?S) = Some S'"
    "propagated p (relink s ?S) S'"
    using dec_loop.loop_returns [of 1 p "relink s ?S"] set_xmit_inv [OF inv p, of x] x
      inv_parD(2) [OF inv p] by auto
  ultimately show ?thesis
    using p x ok same_shape_trans [OF same_shape_relink, of s ?S S']
      same_shapeD(2,4) [of "relink s ?S" S']
    by (auto simp: tfw_h2_sched_deactivate_stream_def propagated_def sched_ok_def)
qed

section \<open>The most priority stream\<close>

text \<open>
  The specification: below an entry the child with the largest weight, and among these with the
  smallest id, is chosen out of the children that have something to send; it sends itself
  if it can, otherwise the search goes on below it.
\<close>

definition best_child :: "TfwStreamSched \<Rightarrow> sid \<Rightarrow> sid \<Rightarrow> bool" where
  "best_child S k b \<longleftrightarrow> b \<in> children S k \<and> live S b
     \<and> (\<forall>c \<in> children S k. live S c \<longrightarrow> c = b \<or> stream_weight S c < stream_weight S b
          \<or> stream_weight S c = stream_weight S b \<and> c > b)"

inductive most_prio :: "TfwStreamSched \<Rightarrow> sid \<Rightarrow> sid \<Rightarrow> bool" for S where
  here: "best_child S k b \<Longrightarrow> tfw_h2_stream_is_active S b \<Longrightarrow> most_prio S k b"
| below: "best_child S k b \<Longrightarrow> \<not> tfw_h2_stream_is_active S b \<Longrightarrow> most_prio S b s \<Longrightarrow> most_prio S k s"

lemma active_list_best:
  assumes inv: "sched_inv d S" and k: "k \<in> sched_keys S" and ne: "se_active (sc_entry S k) \<noteq> []"
  shows "best_child S k (last (se_active (sc_entry S k)))"
proof -
  obtain xs b where xs: "se_active (sc_entry S k) = xs @ [b]"
    using ne by (cases "se_active (sc_entry S k)" rule: rev_cases) auto
  have "sorted_wrt (sched_before (stream_weight S)) (xs @ [b])"
    using inv k xs by (auto simp: sched_inv_def inv_lists_def lists_ok_def)
  moreover have "set (xs @ [b]) = {c \<in> children S k. live S c}"
    using lists_children(1) [OF inv k] xs by simp
  ultimately show ?thesis
    by (auto simp: best_child_def xs sorted_wrt_append sched_before_def)
qed

lemma active_list_empty:
  assumes ok: "sched_ok S" and k: "k \<in> sched_keys S"
  shows "se_active (sc_entry S k) = [] \<longleftrightarrow> cnt S k = 0"
proof -
  have inv: "sched_inv settled_cnt S" using ok by (simp add: sched_ok_def)
  have tree: "inv_tree S" and ct: "inv_cnt settled_cnt S" using inv by (auto simp: sched_inv_def)
  have nn: "0 \<le> stream_active_cnt S c" "0 \<le> cnt S c" if "c \<in> children S k" for c
    using val_nonneg [OF ct] children_subset [OF tree] that ct
    by (auto simp: sched_keys_def inv_cnt_def)
  have "cnt S k = 0 \<longleftrightarrow> (\<forall>c \<in> children S k. stream_active_cnt S c = 0)"
    using ct k tree nn(1) by (simp add: inv_cnt_def sum_nonneg_eq_0_iff)
  also have "\<dots> \<longleftrightarrow> (\<forall>c \<in> children S k. \<not> live S c)"
    by (intro ball_cong) (auto simp: stream_active_cnt_def live_def dest: nn(2))
  also have "\<dots> \<longleftrightarrow> se_active (sc_entry S k) = []"
    using lists_children(1) [OF inv k] by (metis (no_types, lifting) Collect_empty_eq set_empty)
  finally show ?thesis by simp
qed

lemma sched_most_prio_correct:
  assumes ok: "sched_ok S" and "k \<in> sched_keys S"
  shows "if cnt S k = 0 then sched_most_prio k S = Some None
         else \<exists>s. sched_most_prio k S = Some (Some s) \<and> most_prio S k s"
proof -
  have inv: "sched_inv settled_cnt S" using ok by (simp add: sched_ok_def)
  have "wf (up S)" using inv up_wf(2) by (simp add: sched_inv_def)
  then show ?thesis using assms(2)
  proof (induction k rule: wf_induct_rule)
    case (less k)
    show ?case
    proof (cases "cnt S k = 0")
      case True
      then have "se_active (sc_entry S k) = []" using active_list_empty [OF ok less(2)] by simp
      with True show ?thesis by (subst sched_most_prio.simps) simp
    next
      case False
      define b where "b = last (se_active (sc_entry S k))"
      have ne: "se_active (sc_entry S k) \<noteq> []" using active_list_empty [OF ok less(2)] False by simp
      have best: "best_child S k b" unfolding b_def by (rule active_list_best [OF inv less(2) ne])
      then have b: "(b, k) \<in> up S" "b \<in> sched_keys S" "live S b"
        using inv_parD(1) [OF inv] by (auto simp: best_child_def children_def up_def sched_keys_def)
      have unf: "sched_most_prio k S = (if tfw_h2_stream_is_active S b then Some (Some b)
          else if cnt S b \<noteq> 0 then sched_most_prio b S else None)"
        using ne by (subst sched_most_prio.simps) (auto simp: b_def split: list.splits)
      show ?thesis
      proof (cases "tfw_h2_stream_is_active S b")
        case True
        with False unf best show ?thesis by (auto intro: most_prio.here)
      next
        case nact: False
        then have "cnt S b \<noteq> 0" using b(3) by (simp add: live_def)
        with less(1) [OF b(1,2)] False nact unf best show ?thesis
          by (auto intro: most_prio.below)
      qed
    qed
  qed
qed

section \<open>The storage of streams\<close>

text \<open>The contract of the storage: a set of ids with lookup, insertion and deletion.\<close>

locale id_store =
  fixes find :: "'t \<Rightarrow> sid \<Rightarrow> sid option"
    and ins :: "sid \<Rightarrow> 't \<Rightarrow> 't option"
    and del :: "sid \<Rightarrow> 't \<Rightarrow> 't"
    and ids :: "'t \<Rightarrow> sid set"
    and wf :: "'t \<Rightarrow> bool"
  assumes find_spec: "wf t \<Longrightarrow> find t i = (if i \<in> ids t then Some i else None)"
    and ins_spec: "wf t \<Longrightarrow> (case ins i t of None \<Rightarrow> i \<in> ids t
        | Some t' \<Rightarrow> i \<notin> ids t \<and> wf t' \<and> ids t' = insert i (ids t))"
    and del_spec: "wf t \<Longrightarrow> wf (del i t) \<and> ids (del i t) = ids t - {i}"
begin

lemma find_ins:
  assumes "wf t" "ins i t = Some t'"
  shows "find t' j = (if j = i then Some i else find t j)"
  using assms ins_spec [of t i] by (auto simp: find_spec)

lemma find_del:
  assumes "wf t"
  shows "find (del i t) j = (if j = i then None else find t j)"
  using assms del_spec [of t i] by (auto simp: find_spec)

lemma ins_fails_iff: "wf t \<Longrightarrow> ins i t = None \<longleftrightarrow> find t i = Some i"
  using ins_spec [of t i] by (auto simp: find_spec split: option.splits)

end

lemma set_tree_insert:
  "bst t \<Longrightarrow> (case streams_insert i t of None \<Rightarrow> i \<in> set_tree t
     | Some t' \<Rightarrow> i \<notin> set_tree t \<and> bst t' \<and> set_tree t' = insert i (set_tree t))"
  by (induction t) (auto split: option.splits)

lemma join_bst:
  "bst l \<Longrightarrow> bst r \<Longrightarrow> (\<forall>x \<in> set_tree l. \<forall>y \<in> set_tree r. x < y) \<Longrightarrow>
   bst (tree_join l r) \<and> set_tree (tree_join l r) = set_tree l \<union> set_tree r"
  by (induction l) auto

lemma erase_bst: "bst t \<Longrightarrow> bst (rb_erase i t) \<and> set_tree (rb_erase i t) = set_tree t - {i}"
proof (induction t)
  case (Node l a r)
  then have "bst (tree_join l r) \<and> set_tree (tree_join l r) = set_tree l \<union> set_tree r"
    by (intro join_bst) (auto intro: less_trans)
  with Node show ?case by auto
qed simp

interpretation streams: id_store tfw_h2_find_stream streams_insert rb_erase set_tree bst
  by unfold_locales (use find_stream_iff set_tree_insert erase_bst in auto)

text \<open>Streams enter and leave the storage while they are not in the tree.\<close>

definition fresh_entry :: "TfwStreamSched \<Rightarrow> sid \<Rightarrow> bool" where
  "fresh_entry S s \<longleftrightarrow> sc_entry S s = tfw_h2_init_stream_sched_entry \<and> node S s = Unlinked
     \<and> st_sched_state (sc_stream S s) = HTTP2_STREAM_SCHED_STATE_UNKNOWN"

lemma up_insert_ids:
  assumes inv: "sched_inv settled_cnt S" and s: "s \<noteq> sched_root"
    and ins: "streams_insert s (sc_streams S) = Some t"
    and S': "sc_streams S' = t" "\<And>k. k \<noteq> s \<Longrightarrow> sc_entry S' k = sc_entry S k"
      "\<And>k. k \<noteq> s \<Longrightarrow> sc_stream S' k = sc_stream S k" "fresh_entry S' s"
  shows "sched_inv settled_cnt S' \<and> stream_ids S' = insert s (stream_ids S) \<and> par S' s = None
         \<and> (\<forall>t. par S' t = par S t)"
proof -
  have tree: "inv_tree S" and lists: "inv_lists S" and ct: "inv_cnt settled_cnt S"
    and lnk: "\<forall>t \<in> stream_ids S. linked_ok S t"
    using inv by (auto simp: sched_inv_def)
  have t: "s \<notin> stream_ids S" "bst t" "stream_ids S' = insert s (stream_ids S)"
    using set_tree_insert [of "sc_streams S" s] tree ins S'(1)
    by (auto simp: inv_tree_def stream_ids_def)
  have keys: "sched_keys S' = insert s (sched_keys S)" "s \<notin> sched_keys S"
    using t s by (auto simp: sched_keys_def)
  have par: "par S' k = par S k" for k
    using S'(2) [of k] S'(4) tree t(1)
    by (cases "k = s") (auto simp: fresh_entry_def tfw_h2_init_stream_sched_entry_def inv_tree_def)
  have chs: "children S' k = children S k" "children S s = {}" for k
    using par tree keys(2) by (auto simp: children_def inv_tree_def)
  have act: "stream_active_cnt S' k = stream_active_cnt S k" "live S' k = live S k" if "k \<noteq> s" for k
    using S'(2,3) [OF that] by (auto simp: stream_active_cnt_def tfw_h2_stream_is_active_def live_def)
  have ch_neq: "c \<noteq> s" if "c \<in> children S k" for c k
    using that children_subset [OF tree] t(1) by auto
  have "inv_tree S'"
    using tree t s par keys S'(1) by (auto simp: inv_tree_def up_def)
  moreover have "linked_ok S' k" if "k \<in> stream_ids S'" for k
  proof (cases "k = s")
    case True
    with S'(4) show ?thesis
      by (auto simp: linked_ok_def fresh_entry_def tfw_h2_init_stream_sched_entry_def)
  next
    case False
    with lnk that t(3) act(2) [OF False] par S'(3) [OF False] show ?thesis
      by (auto simp: linked_ok_def split: option.splits)
  qed
  moreover have "lists_ok S' k" if k: "k \<in> sched_keys S'" for k
  proof (cases "k = s")
    case True
    have "node S' c \<noteq> In_active s \<and> node S' c \<noteq> In_blocked s" if c: "c \<in> stream_ids S" for c
    proof -
      have "sc_stream S' c = sc_stream S c" using S'(3) c t(1) by metis
      then show ?thesis
        using bspec [OF lnk c] inv_parD(2) [OF inv, of c] keys(2)
        by (auto simp: linked_ok_def split: option.splits if_splits)
    qed
    with True S'(4) t(1,3) show ?thesis
      by (auto simp: lists_ok_def fresh_entry_def tfw_h2_init_stream_sched_entry_def)
  next
    case False
    then have ok: "lists_ok S k" using k keys lists by (auto simp: inv_lists_def)
    then have ns: "s \<notin> set (se_active (sc_entry S k))" using t(1) by (auto simp: lists_ok_def)
    have "sorted_wrt (sched_before (stream_weight S')) (se_active (sc_entry S k))
        = sorted_wrt (sched_before (stream_weight S)) (se_active (sc_entry S k))"
      using S'(3) ns by (intro sorted_before_cong) (metis stream_weight_def)
    moreover have "c \<in> stream_ids S \<and> node S c = l \<longleftrightarrow> c \<in> stream_ids S' \<and> node S' c = l"
      if "l \<noteq> Unlinked" for c l
      using S'(3) [of c] S'(4) t(1,3) that by (cases "c = s") (auto simp: fresh_entry_def)
    ultimately show ?thesis
      using ok S'(2) [OF False] by (simp add: lists_ok_def)
  qed
  moreover have "inv_cnt settled_cnt S'"
  proof -
    have "(\<Sum>c \<in> children S k. stream_active_cnt S' c) = (\<Sum>c \<in> children S k. stream_active_cnt S c)" for k
      by (intro sum.cong) (auto simp: act(1) ch_neq)
    moreover have "cnt S' k = (if k = s then 0 else cnt S k)" for k
      using S'(2,4) by (auto simp: fresh_entry_def tfw_h2_init_stream_sched_entry_def)
    ultimately show ?thesis
      using ct chs keys by (auto simp: inv_cnt_def)
  qed
  ultimately show ?thesis
    using t par tree by (auto simp: sched_inv_def inv_lists_def inv_tree_def)
qed

lemma erase_inv:
  assumes inv: "sched_inv settled_cnt S" and s: "s \<in> stream_ids S" "par S s = None" "children S s = {}"
    and S': "sc_streams S' = rb_erase s (sc_streams S)" "sc_entry S' = sc_entry S"
      "\<And>k. k \<noteq> s \<Longrightarrow> sc_stream S' k = sc_stream S k"
  shows "sched_inv settled_cnt S' \<and> stream_ids S' = stream_ids S - {s}"
proof -
  have tree: "inv_tree S" and lists: "inv_lists S" and ct: "inv_cnt settled_cnt S"
    and lnk: "\<forall>t \<in> stream_ids S. linked_ok S t"
    using inv by (auto simp: sched_inv_def)
  have t: "bst (sc_streams S')" "stream_ids S' = stream_ids S - {s}"
    using erase_bst [of "sc_streams S" s] tree S'(1) by (auto simp: inv_tree_def stream_ids_def)
  have s0: "s \<noteq> sched_root" using tree s(1) by (auto simp: inv_tree_def)
  then have keys: "sched_keys S' = sched_keys S - {s}" using t by (auto simp: sched_keys_def)
  have act: "stream_active_cnt S' k = stream_active_cnt S k" "live S' k = live S k" if "k \<noteq> s" for k
    using S'(2) S'(3) [OF that] by (auto simp: stream_active_cnt_def tfw_h2_stream_is_active_def live_def)
  have un: "node S s = Unlinked" using lnk s by (auto simp: linked_ok_def)
  have ch_neq: "c \<noteq> s" if "par S c = Some k" for c k using that s(2) by auto
  have "inv_tree S'"
    unfolding inv_tree_def
  proof (intro conjI allI impI)
    show "p \<in> sched_keys S'" if "par S' c = Some p" for c p
      using that s(3) inv_parD(2) [OF inv, of c p] S'(2) keys by (auto simp: children_def)
    show "par S' k = None" if "k \<notin> stream_ids S'" for k
      using that t(2) s(2) tree S'(2) by (auto simp: inv_tree_def)
  qed (use tree t S'(2) in \<open>auto simp: inv_tree_def up_def\<close>)
  moreover have "linked_ok S' k" if "k \<in> stream_ids S'" for k
    using that lnk t(2) act(2) [of k] S'(2) S'(3) [of k]
    by (auto simp: linked_ok_def split: option.splits)
  moreover have "lists_ok S' k" if k: "k \<in> sched_keys S'" for k
  proof -
    have ok: "lists_ok S k" using k keys lists by (auto simp: inv_lists_def)
    then have ns: "s \<notin> set (se_active (sc_entry S k))" using un by (auto simp: lists_ok_def)
    have "sorted_wrt (sched_before (stream_weight S')) (se_active (sc_entry S k))
        = sorted_wrt (sched_before (stream_weight S)) (se_active (sc_entry S k))"
      using S'(3) ns by (intro sorted_before_cong) (metis stream_weight_def)
    moreover have "c \<in> stream_ids S \<and> node S c = l \<longleftrightarrow> c \<in> stream_ids S' \<and> node S' c = l"
      if "l \<noteq> Unlinked" for c l
      using S'(3) [of c] t(2) un that by (cases "c = s") auto
    ultimately show ?thesis
      using ok S'(2) by (simp add: lists_ok_def)
  qed
  moreover have "inv_cnt settled_cnt S'"
  proof -
    have "children S' k = children S k" for k using S'(2) by (simp add: children_def)
    moreover have "(\<Sum>c \<in> children S k. stream_active_cnt S' c) = (\<Sum>c \<in> children S k. stream_active_cnt S c)" for k
      by (intro sum.cong refl act(1)) (auto simp: children_def ch_neq)
    ultimately show ?thesis
      using ct S'(2) keys by (auto simp: inv_cnt_def)
  qed
  ultimately show ?thesis
    using t by (simp add: sched_inv_def inv_lists_def)
qed

section \<open>The scheduler of a new connection\<close>

definition zero_stream :: TfwStream where
  "zero_stream =
     \<lparr>st_sched_node = Unlinked, st_sched_state = HTTP2_STREAM_SCHED_STATE_UNKNOWN,
      st_state = HTTP2_STREAM_IDLE, st_weight = 0, st_loc_wnd = 0, st_rem_wnd = 0,
      st_msg = None, st_queue = None,
      st_xmit = \<lparr>x_resp = False, x_skb_head = [], x_postponed = [], x_h_len = 0,
                 x_frame_length = 0, x_b_len = 0, x_is_blocked = False,
                 x_state = HTTP2_ENCODE_HEADERS, x_t_len = 0\<rparr>\<rparr>"

definition tfw_h2_init_stream_sched :: TfwStreamSched where
  "tfw_h2_init_stream_sched =
     \<lparr>sc_streams = Leaf, sc_entry = (\<lambda>_. tfw_h2_init_stream_sched_entry),
      sc_stream = (\<lambda>_. zero_stream), sc_blocked_streams = 0\<rparr>"

lemma init_sched_ok: "sched_ok tfw_h2_init_stream_sched"
  by (auto simp: sched_ok_def sched_inv_def inv_tree_def inv_lists_def lists_ok_def inv_cnt_def
      children_def up_def stream_ids_def sched_keys_def tfw_h2_init_stream_sched_def
      tfw_h2_init_stream_sched_entry_def acyclic_def)

end
