(* ===== verification/H2_Ctx.thy ===== *)
theory H2_Ctx
  imports H2_Sched_Props
begin

unbundle bit_operations_syntax

text \<open>
  The HTTP/2 connection context: \<^verbatim>\<open>TfwH2Ctx\<close> of \<^verbatim>\<open>src/fw/http2.h\<close>, creation, unlinking and
  deletion of streams (\<^verbatim>\<open>src/fw/http_stream.c\<close>), and the queues of idle and closed streams,
  the settings and the control frames sent by the server (\<^verbatim>\<open>src/fw/http2.c\<close>,
  \<^verbatim>\<open>src/fw/http_frame.c\<close>).

  What comes from outside of the modelled code is kept in the context as an environment
  record: the result of the n-th allocation from a slab cache, the result of handing the n-th
  control frame to the connection (allocation of its buffer and \<^verbatim>\<open>tfw_connection_send()\<close>),
  the clock, the segment size of the socket and the configured rate multipliers.
\<close>

section \<open>Data\<close>

record TfwSettings =
  s_hdr_tbl_sz :: u32
  s_push :: u32
  s_max_streams :: u32
  s_wnd_sz :: u32
  s_max_frame_sz :: u32
  s_max_lhdr_sz :: u32

record CtrlFrameStat =
  cf_ping_cnt :: u32
  cf_settings_cnt :: u32
  cf_rst_cnt :: u32
  cf_priority_cnt :: u32
  cf_ts :: u32

record TfwStreamQueue =
  q_list :: "sid list"
  q_num :: u64

record TfwFramePri =
  pri_stream_id :: u32
  pri_weight :: u16
  pri_exclusive :: bool

record TfwFrameHdr =
  h_length :: int
  h_stream_id :: u32
  h_type :: u8
  h_flags :: u8

datatype TfwFrameState =
    HTTP2_RECV_FRAME_HEADER
  | HTTP2_RECV_CLI_START_SEQ
  | HTTP2_RECV_FIRST_SETTINGS
  | HTTP2_RECV_FRAME_PRIORITY
  | HTTP2_RECV_FRAME_WND_UPDATE
  | HTTP2_RECV_FRAME_PING
  | HTTP2_RECV_FRAME_RST_STREAM
  | HTTP2_RECV_FRAME_SETTINGS
  | HTTP2_RECV_FRAME_GOAWAY
  | HTTP2_RECV_FRAME_PADDED
  | HTTP2_RECV_HEADER_PRI
  | HTTP2_IGNORE_FRAME_DATA
  | HTTP2_RECV_HEADER
  | HTTP2_RECV_CONT
  | HTTP2_RECV_DATA
  | HTTP2_RECV_APP_DATA_POST

datatype TfwCloseType = TFW_FRAME_DEFAULT | TFW_FRAME_SHUTDOWN | TFW_FRAME_CLOSE

text \<open>A control frame that was handed to the connection.\<close>

record sent_frame =
  sf_hdr :: TfwFrameHdr
  sf_payload :: "u8 list"
  sf_close :: TfwCloseType

record h2_env =
  e_alloc :: "nat \<Rightarrow> bool"
  e_send :: "nat \<Rightarrow> rc"
  e_ts :: u64
  e_mss_now :: u32
  e_tls_max_overhead :: u32
  e_ctrl_frame_rate_mul :: u32
  e_wnd_update_frame_rate_mul :: u32

record TfwH2Ctx =
  cx_lsettings :: TfwSettings
  cx_rsettings :: TfwSettings
  cx_lstream_id :: u32
  cx_streams_num :: u64
  cx_sched :: TfwStreamSched
  cx_free_entries :: nat
  cx_dflt_entry :: "sid \<Rightarrow> bool"
  cx_closed_streams :: TfwStreamQueue
  cx_idle_streams :: TfwStreamQueue
  cx_loc_wnd :: int
  cx_rem_wnd :: int
  cx_hpack_max_window :: u32
  cx_hpack_wnd_update :: bool
  cx_enc_window :: u16
  cx_enc_wnd_changed :: bool
  cx_cur_send_headers :: "sid option"
  cx_cur_recv_headers :: "sid option"
  cx_error :: "sid option"
  cx_new_settings :: "u32 list"
  cx_settings_to_apply :: "nat \<Rightarrow> bool"
  cx_stat :: "CtrlFrameStat list"
  cx_wnd_update_cnt :: u64
  cx_data_frames_sent :: u64
  cx_data_bytes_sent :: u64
  cx_skb_head :: "u8 list list list"
  cx_cur_stream :: "sid option"
  cx_priority :: TfwFramePri
  cx_hdr :: TfwFrameHdr
  cx_plen :: u32
  cx_state :: TfwFrameState
  cx_to_read :: int
  cx_rlen :: int
  cx_rbuf :: "u8 list"
  cx_padlen :: u8
  cx_data_off :: u8
  cx_sent :: "sent_frame list"
  cx_conn_stop :: bool
  cx_conn_closed :: bool
  cx_has_data :: bool
  cx_freed_msgs :: "sid list"
  cx_env :: h2_env
  cx_sends :: nat
  cx_allocs :: nat

definition upd_sched :: "(TfwStreamSched \<Rightarrow> TfwStreamSched) \<Rightarrow> TfwH2Ctx \<Rightarrow> TfwH2Ctx" where
  "upd_sched f c = c\<lparr>cx_sched := f (cx_sched c)\<rparr>"

definition strm :: "TfwH2Ctx \<Rightarrow> sid \<Rightarrow> TfwStream" where
  "strm c s = sc_stream (cx_sched c) s"

definition put_strm :: "sid \<Rightarrow> (TfwStream \<Rightarrow> TfwStream) \<Rightarrow> TfwH2Ctx \<Rightarrow> TfwH2Ctx" where
  "put_strm s f = upd_sched (upd_stream s f)"

text \<open>Run a scheduler operation; \<open>None\<close> is a failed assertion or an endless loop.\<close>

definition on_sched ::
    "(TfwStreamSched \<Rightarrow> TfwStreamSched option) \<Rightarrow> TfwH2Ctx \<Rightarrow> TfwH2Ctx option" where
  "on_sched f c = map_option (\<lambda>S. c\<lparr>cx_sched := S\<rparr>) (f (cx_sched c))"

section \<open>Queues of idle and closed streams\<close>

definition queue_upd ::
    "stream_queue \<Rightarrow> (TfwStreamQueue \<Rightarrow> TfwStreamQueue) \<Rightarrow> TfwH2Ctx \<Rightarrow> TfwH2Ctx" where
  "queue_upd q f c =
     (case q of
        Closed_Queue \<Rightarrow> c\<lparr>cx_closed_streams := f (cx_closed_streams c)\<rparr>
      | Idle_Queue \<Rightarrow> c\<lparr>cx_idle_streams := f (cx_idle_streams c)\<rparr>)"

definition queue_get :: "stream_queue \<Rightarrow> TfwH2Ctx \<Rightarrow> TfwStreamQueue" where
  "queue_get q c = (case q of Closed_Queue \<Rightarrow> cx_closed_streams c | Idle_Queue \<Rightarrow> cx_idle_streams c)"

definition tfw_h2_stream_add_to_queue_nolock :: "stream_queue \<Rightarrow> sid \<Rightarrow> TfwH2Ctx \<Rightarrow> TfwH2Ctx" where
  "tfw_h2_stream_add_to_queue_nolock q s c =
     (if st_queue (strm c s) \<noteq> None then c
      else put_strm s (\<lambda>t. t\<lparr>st_queue := Some q\<rparr>)
             (queue_upd q (\<lambda>l. l\<lparr>q_list := q_list l @ [s], q_num := q_num l + 1\<rparr>) c))"

definition tfw_h2_stream_del_from_queue_nolock :: "sid \<Rightarrow> TfwH2Ctx \<Rightarrow> TfwH2Ctx option" where
  "tfw_h2_stream_del_from_queue_nolock s c =
     (case st_queue (strm c s) of
        None \<Rightarrow> Some c
      | Some q \<Rightarrow>
          if q_num (queue_get q c) = 0 then None
          else Some (put_strm s (\<lambda>t. t\<lparr>st_queue := None\<rparr>)
                 (queue_upd q (\<lambda>l. l\<lparr>q_list := remove1 s (q_list l), q_num := q_num l - 1\<rparr>) c)))"

definition tfw_h2_stream_add_closed :: "sid \<Rightarrow> TfwH2Ctx \<Rightarrow> TfwH2Ctx" where
  "tfw_h2_stream_add_closed = tfw_h2_stream_add_to_queue_nolock Closed_Queue"

text \<open>
  \<^verbatim>\<open>tfw_h2_stream_add_idle()\<close>: the reverse walk stops at the last queued id which is smaller
  than the new one; the new stream goes right behind it, or to the tail if there is none.
\<close>

definition tfw_h2_stream_add_idle :: "sid \<Rightarrow> TfwH2Ctx \<Rightarrow> TfwH2Ctx" where
  "tfw_h2_stream_add_idle s c =
     (let xs = q_list (cx_idle_streams c);
          back = takeWhile (\<lambda>cur. \<not> s > cur) (rev xs);
          front = dropWhile (\<lambda>cur. \<not> s > cur) (rev xs) in
      if front \<noteq> [] then
        put_strm s (\<lambda>t. t\<lparr>st_queue := Some Idle_Queue\<rparr>)
          (queue_upd Idle_Queue
            (\<lambda>l. l\<lparr>q_list := rev front @ s # rev back, q_num := q_num l + 1\<rparr>) c)
      else tfw_h2_stream_add_to_queue_nolock Idle_Queue s c)"

definition tfw_h2_stream_remove_idle :: "sid \<Rightarrow> TfwH2Ctx \<Rightarrow> TfwH2Ctx option" where
  "tfw_h2_stream_remove_idle = tfw_h2_stream_del_from_queue_nolock"

text \<open>The walk over the idle streams stops at the first id that is not smaller.\<close>

fun remove_idle_loop :: "sid list \<Rightarrow> u32 \<Rightarrow> TfwH2Ctx \<Rightarrow> TfwH2Ctx option" where
  "remove_idle_loop [] i c = Some c"
| "remove_idle_loop (s # ss) i c =
     (if i \<le> s then Some c
      else Option.bind (tfw_h2_stream_del_from_queue_nolock s c)
        (\<lambda>c. remove_idle_loop ss i (tfw_h2_stream_add_closed s
           (put_strm s (\<lambda>t. t\<lparr>st_state := tfw_h2_set_stream_state HTTP2_STREAM_CLOSED (st_state t)\<rparr>) c))))"

definition tfw_h2_remove_idle_streams :: "u32 \<Rightarrow> TfwH2Ctx \<Rightarrow> TfwH2Ctx option" where
  "tfw_h2_remove_idle_streams i c = remove_idle_loop (q_list (cx_idle_streams c)) i c"

section \<open>Creation and deletion of streams\<close>

definition kmem_alloc :: "TfwH2Ctx \<Rightarrow> bool \<times> TfwH2Ctx" where
  "kmem_alloc c = (e_alloc (cx_env c) (cx_allocs c), c\<lparr>cx_allocs := Suc (cx_allocs c)\<rparr>)"

text \<open>
  A scheduler entry comes from the list of preallocated entries, or from the slab cache.
  The first component says whether there is one, the second whether it is preallocated.
\<close>

definition tfw_h2_alloc_stream_sched_entry :: "TfwH2Ctx \<Rightarrow> bool \<times> bool \<times> TfwH2Ctx" where
  "tfw_h2_alloc_stream_sched_entry c =
     (if cx_free_entries c = 0 then
        (case kmem_alloc c of (ok, c) \<Rightarrow> (ok, False, c))
      else (True, True, c\<lparr>cx_free_entries := cx_free_entries c - 1\<rparr>))"

definition tfw_h2_free_stream_sched_entry :: "bool \<Rightarrow> TfwH2Ctx \<Rightarrow> TfwH2Ctx" where
  "tfw_h2_free_stream_sched_entry dflt c =
     (if dflt then c\<lparr>cx_free_entries := Suc (cx_free_entries c)\<rparr> else c)"

abbreviation (input) HTTP2_DEF_WEIGHT :: u16 where "HTTP2_DEF_WEIGHT \<equiv> 16"

definition tfw_h2_init_stream :: "u16 \<Rightarrow> int \<Rightarrow> int \<Rightarrow> TfwStream" where
  "tfw_h2_init_stream weight loc_wnd rem_wnd =
     zero_stream\<lparr>st_loc_wnd := loc_wnd, st_rem_wnd := rem_wnd,
                 st_weight := (if weight \<noteq> 0 then weight else HTTP2_DEF_WEIGHT)\<rparr>"

text \<open>\<^verbatim>\<open>tfw_h2_add_stream()\<close>; the first component of the result is \<^verbatim>\<open>stream != NULL\<close>.\<close>

definition tfw_h2_add_stream ::
    "sid \<Rightarrow> u16 \<Rightarrow> int \<Rightarrow> int \<Rightarrow> TfwH2Ctx \<Rightarrow> bool \<times> TfwH2Ctx" where
  "tfw_h2_add_stream i weight loc_wnd rem_wnd c =
     (case streams_insert i (sc_streams (cx_sched c)) of
        None \<Rightarrow> (False, c)
      | Some t \<Rightarrow>
          (case kmem_alloc c of (ok, c) \<Rightarrow>
             if \<not> ok then (False, c)
             else (True, upd_sched (\<lambda>S. S\<lparr>sc_streams := t,
                 sc_stream := (sc_stream S)(i := tfw_h2_init_stream weight loc_wnd rem_wnd),
                 sc_entry := (sc_entry S)(i := tfw_h2_init_stream_sched_entry)\<rparr>) c)))"

definition tfw_h2_stream_create :: "sid \<Rightarrow> TfwH2Ctx \<Rightarrow> (sid option \<times> TfwH2Ctx) option" where
  "tfw_h2_stream_create i c =
     (case tfw_h2_alloc_stream_sched_entry c of (ok, dflt, c) \<Rightarrow>
        if \<not> ok then Some (None, c)
        else
          let pri = cx_priority c;
              dep = tfw_h2_find_stream_dep (cx_sched c) (pri_stream_id pri) in
          (case tfw_h2_add_stream i (pri_weight pri) (uint (s_wnd_sz (cx_lsettings c)))
                  (uint (s_wnd_sz (cx_rsettings c))) c of
             (False, c) \<Rightarrow> Some (None, tfw_h2_free_stream_sched_entry dflt c)
           | (True, c) \<Rightarrow> do {
               c \<leftarrow> on_sched (tfw_h2_add_stream_dep i dep (pri_exclusive pri)) c;
               Some (Some i, c\<lparr>cx_streams_num := cx_streams_num c + 1,
                               cx_dflt_entry := (cx_dflt_entry c)(i := dflt)\<rparr>)
             }))"

definition tfw_h2_stream_purge_all :: "TfwStream \<Rightarrow> TfwStream" where
  "tfw_h2_stream_purge_all t =
     t\<lparr>st_xmit := (st_xmit t)\<lparr>x_skb_head := [], x_postponed := [],
                             x_h_len := 0, x_b_len := 0, x_t_len := 0\<rparr>\<rparr>"

definition tfw_h2_stream_purge_all_and_free_response :: "TfwStream \<Rightarrow> TfwStream" where
  "tfw_h2_stream_purge_all_and_free_response t =
     tfw_h2_stream_purge_all
       (if x_resp (st_xmit t) then t\<lparr>st_xmit := (st_xmit t)\<lparr>x_resp := False\<rparr>\<rparr> else t)"

text \<open>
  \<^verbatim>\<open>tfw_h2_stream_purge_send_queue()\<close>: buffers are dropped until the accounted bytes are
  gone; the lengths are 64-bit values that wrap around.
\<close>

fun purge_send_loop :: "u64 \<Rightarrow> sk_buff list \<Rightarrow> sk_buff list option" where
  "purge_send_loop n [] = (if n = 0 then Some [] else None)"
| "purge_send_loop n (b # bs) = (if n = 0 then Some (b # bs) else purge_send_loop (n - ucast (sk_len b)) bs)"

definition tfw_h2_stream_purge_send_queue :: "TfwStream \<Rightarrow> TfwStream option" where
  "tfw_h2_stream_purge_send_queue t =
     (let x = st_xmit t;
          n = (ucast (x_h_len x) + ucast (x_b_len x) + ucast (x_t_len x) + ucast (x_frame_length x) :: u64) in
      map_option (\<lambda>bs. t\<lparr>st_xmit := x\<lparr>x_skb_head := bs, x_h_len := 0, x_b_len := 0, x_t_len := 0,
                                     x_frame_length := 0\<rparr>\<rparr>)
        (purge_send_loop n (x_skb_head x)))"

definition ctx_reset_stream_on_close :: "sid \<Rightarrow> TfwH2Ctx \<Rightarrow> TfwH2Ctx" where
  "ctx_reset_stream_on_close s c =
     c\<lparr>cx_cur_send_headers := (if cx_cur_send_headers c = Some s then None else cx_cur_send_headers c),
       cx_cur_recv_headers := (if cx_cur_recv_headers c = Some s then None else cx_cur_recv_headers c)\<rparr>"

definition tfw_h2_stop_stream :: "sid \<Rightarrow> TfwH2Ctx \<Rightarrow> TfwH2Ctx option" where
  "tfw_h2_stop_stream s c = do {
     c \<leftarrow> on_sched (tfw_h2_remove_stream_dep s) c;
     let c = put_strm s tfw_h2_stream_purge_all_and_free_response c;
     let c = ctx_reset_stream_on_close s c;
     Some (upd_sched (\<lambda>S. S\<lparr>sc_streams := rb_erase s (sc_streams S)\<rparr>) c)
   }"

definition tfw_h2_delete_stream :: "sid \<Rightarrow> TfwH2Ctx \<Rightarrow> TfwH2Ctx option" where
  "tfw_h2_delete_stream s c =
     (if x_resp (st_xmit (strm c s)) \<or> x_skb_head (st_xmit (strm c s)) \<noteq> [] then None
      else Some (tfw_h2_free_stream_sched_entry (cx_dflt_entry c s) c))"

definition tfw_h2_stream_clean :: "sid \<Rightarrow> TfwH2Ctx \<Rightarrow> TfwH2Ctx option" where
  "tfw_h2_stream_clean s c = do {
     c \<leftarrow> tfw_h2_stop_stream s c;
     c \<leftarrow> tfw_h2_delete_stream s c;
     Some (c\<lparr>cx_streams_num := cx_streams_num c - 1\<rparr>)
   }"

text \<open>
  Of a request linked with a stream the model keeps whether it is fully parsed.  A request
  that is not is freed here; \<^const>\<open>cx_freed_msgs\<close> lists the streams this happened for.
\<close>

definition tfw_h2_stream_unlink_nolock :: "sid \<Rightarrow> TfwH2Ctx \<Rightarrow> TfwH2Ctx option" where
  "tfw_h2_stream_unlink_nolock s c =
     (let hmreq = st_msg (strm c s) in
      map_option (\<lambda>c.
          (case hmreq of
             None \<Rightarrow> c
           | Some fully_parsed \<Rightarrow>
               let c = put_strm s (\<lambda>t. t\<lparr>st_msg := None\<rparr>) c in
               if fully_parsed then c else c\<lparr>cx_freed_msgs := s # cx_freed_msgs c\<rparr>))
        (tfw_h2_stream_del_from_queue_nolock s c))"

text \<open>
  The operations on behalf of a request are given its \<^verbatim>\<open>req->stream\<close> and return the new one.
\<close>

definition tfw_h2_req_unlink_stream :: "sid option \<Rightarrow> TfwH2Ctx \<Rightarrow> sid option \<times> TfwH2Ctx" where
  "tfw_h2_req_unlink_stream rs c =
     (case rs of
        None \<Rightarrow> (None, c)
      | Some s \<Rightarrow> (None, put_strm s (\<lambda>t. t\<lparr>st_msg := None\<rparr>) c))"

definition tfw_h2_req_unlink_and_close_stream ::
    "sid option \<Rightarrow> TfwH2Ctx \<Rightarrow> sid option \<times> TfwH2Ctx" where
  "tfw_h2_req_unlink_and_close_stream rs c =
     (case rs of
        None \<Rightarrow> (None, c)
      | Some s \<Rightarrow>
          (None, tfw_h2_stream_add_to_queue_nolock Closed_Queue s
             (put_strm s (\<lambda>t. t\<lparr>st_msg := None,
                st_state := tfw_h2_set_stream_state HTTP2_STREAM_CLOSED (st_state t)\<rparr>) c)))"

definition tfw_h2_stream_init_for_xmit ::
    "sid option \<Rightarrow> TfwStreamXmitState \<Rightarrow> u64 \<Rightarrow> u64 \<Rightarrow> TfwH2Ctx \<Rightarrow> rc \<times> TfwH2Ctx" where
  "tfw_h2_stream_init_for_xmit rs st h_len b_len c =
     (case rs of
        None \<Rightarrow> (EPIPE, c)
      | Some s \<Rightarrow>
          (T_OK, put_strm s (\<lambda>t. t\<lparr>st_xmit := (st_xmit t)
             \<lparr>x_resp := False, x_skb_head := [], x_h_len := ucast h_len, x_b_len := ucast b_len,
              x_t_len := 0, x_state := st, x_frame_length := 0, x_is_blocked := False\<rparr>\<rparr>) c))"

definition tfw_h2_stream_init_t_len_for_xmit ::
    "sid option \<Rightarrow> u64 \<Rightarrow> TfwH2Ctx \<Rightarrow> rc \<times> TfwH2Ctx" where
  "tfw_h2_stream_init_t_len_for_xmit rs t_len c =
     (case rs of
        None \<Rightarrow> (EPIPE, c)
      | Some s \<Rightarrow> (T_OK, put_strm s (\<lambda>t. t\<lparr>st_xmit := (st_xmit t)\<lparr>x_t_len := ucast t_len\<rparr>\<rparr>) c))"

definition tfw_h2_find_not_closed_stream :: "TfwH2Ctx \<Rightarrow> sid \<Rightarrow> sid option" where
  "tfw_h2_find_not_closed_stream c i =
     (case tfw_h2_find_stream (sc_streams (cx_sched c)) i of
        None \<Rightarrow> None
      | Some s \<Rightarrow> if tfw_h2_stream_is_closed (st_state (strm c s)) then None else Some s)"

text \<open>A NULL \<^verbatim>\<open>cur_stream\<close> is dereferenced at once, hence \<open>None\<close>.\<close>

definition tfw_h2_current_stream_remove :: "TfwH2Ctx \<Rightarrow> TfwH2Ctx option" where
  "tfw_h2_current_stream_remove c = do {
     s \<leftarrow> cx_cur_stream c;
     c \<leftarrow> tfw_h2_stream_unlink_nolock s c;
     c \<leftarrow> tfw_h2_stream_clean s c;
     Some (c\<lparr>cx_cur_stream := None\<rparr>)
   }"

definition tfw_h2_check_current_stream_is_closed :: "TfwH2Ctx \<Rightarrow> TfwH2Ctx option" where
  "tfw_h2_check_current_stream_is_closed c = do {
     s \<leftarrow> cx_cur_stream c;
     if tfw_h2_stream_is_closed (st_state (strm c s)) then tfw_h2_current_stream_remove c
     else Some c
   }"

abbreviation (input) TFW_MAX_CLOSED_STREAMS :: u64 where "TFW_MAX_CLOSED_STREAMS \<equiv> 5"

partial_function (option) tfw_h2_closed_streams_shrink :: "TfwH2Ctx \<Rightarrow> TfwH2Ctx option" where
  [code]: "tfw_h2_closed_streams_shrink c =
     (let q = cx_closed_streams c in
      if q_num q \<le> TFW_MAX_CLOSED_STREAMS
         \<and> (cx_streams_num c < ucast (s_max_streams (cx_lsettings c)) \<or> q_num q = 0)
      then Some c
      else (case q_list q of
          [] \<Rightarrow> None
        | cur # _ \<Rightarrow>
            Option.bind (tfw_h2_stream_unlink_nolock cur c)
              (\<lambda>c. Option.bind (tfw_h2_stream_clean cur c)
                (\<lambda>c. tfw_h2_closed_streams_shrink c))))"

text \<open>The whole connection is torn down.\<close>

fun streams_cleanup_loop :: "sid list \<Rightarrow> TfwH2Ctx \<Rightarrow> TfwH2Ctx option" where
  "streams_cleanup_loop [] c = Some c"
| "streams_cleanup_loop (s # ss) c = do {
     c \<leftarrow> tfw_h2_stream_unlink_nolock s (put_strm s tfw_h2_stream_purge_all_and_free_response c);
     c \<leftarrow> tfw_h2_delete_stream s c;
     streams_cleanup_loop ss (c\<lparr>cx_streams_num := cx_streams_num c - 1\<rparr>)
   }"

definition tfw_h2_conn_streams_cleanup :: "TfwH2Ctx \<Rightarrow> TfwH2Ctx option" where
  "tfw_h2_conn_streams_cleanup c =
     map_option (upd_sched (\<lambda>S. S\<lparr>sc_streams := Leaf\<rparr>))
       (streams_cleanup_loop (postorder (sc_streams (cx_sched c))) c)"

end
