(* ===== verification/H2_Conn.thy ===== *)
theory H2_Conn
  imports H2_Ctx
begin

unbundle bit_operations_syntax

text \<open>
  Settings, windows and control frames of an HTTP/2 connection: the settings functions and
  \<^verbatim>\<open>tfw_h2_context_init()\<close> of \<^verbatim>\<open>src/fw/http2.c\<close>, the frame header codec of
  \<^verbatim>\<open>src/fw/http_frame.h\<close>, and the rate limits and the functions that build and send control
  frames of \<^verbatim>\<open>src/fw/http_frame.c\<close>.
\<close>

section \<open>Byte order and the frame header\<close>

definition htonl :: "u32 \<Rightarrow> u8 list" where
  "htonl w = [ucast (drop_bit 24 w), ucast (drop_bit 16 w), ucast (drop_bit 8 w), ucast w]"

definition ntohl :: "u8 list \<Rightarrow> u32" where
  "ntohl b = push_bit 24 (ucast (b ! 0)) OR push_bit 16 (ucast (b ! 1))
             OR push_bit 8 (ucast (b ! 2)) OR ucast (b ! 3)"

definition ntohs :: "u8 list \<Rightarrow> u16" where
  "ntohs b = push_bit 8 (ucast (b ! 0)) OR ucast (b ! 1)"

definition htons :: "u16 \<Rightarrow> u8 list" where
  "htons w = [ucast (drop_bit 8 w), ucast w]"

abbreviation (input) FRAME_HEADER_SIZE :: int where "FRAME_HEADER_SIZE \<equiv> 9"
abbreviation (input) FRAME_STREAM_ID_MASK :: u32 where "FRAME_STREAM_ID_MASK \<equiv> 0x7fffffff"
abbreviation (input) FRAME_MAX_LENGTH :: u32 where "FRAME_MAX_LENGTH \<equiv> 0xffffff"
abbreviation (input) FRAME_DEF_LENGTH :: u32 where "FRAME_DEF_LENGTH \<equiv> 16384"
abbreviation (input) MAX_WND_SIZE :: u32 where "MAX_WND_SIZE \<equiv> 0x7fffffff"
abbreviation (input) DEF_WND_SIZE :: u32 where "DEF_WND_SIZE \<equiv> 65535"
abbreviation (input) UINT_MAX :: u32 where "UINT_MAX \<equiv> 0xffffffff"

definition tfw_h2_pack_frame_header :: "TfwFrameHdr \<Rightarrow> u8 list" where
  "tfw_h2_pack_frame_header h =
     take 3 (htonl (push_bit 8 (word_of_int (h_length h)))) @ [h_type h, h_flags h]
     @ htonl (h_stream_id h)"

definition tfw_h2_unpack_frame_header :: "u8 list \<Rightarrow> TfwFrameHdr" where
  "tfw_h2_unpack_frame_header b =
     \<lparr>h_length = uint (drop_bit 8 (ntohl b)), h_stream_id = ntohl (drop 5 b) AND FRAME_STREAM_ID_MASK,
      h_type = b ! 3, h_flags = b ! 4\<rparr>"

definition tfw_h2_unpack_priority :: "u8 list \<Rightarrow> TfwFramePri" where
  "tfw_h2_unpack_priority b =
     \<lparr>pri_stream_id = ntohl b AND FRAME_STREAM_ID_MASK, pri_weight = ucast (b ! 4) + 1,
      pri_exclusive = (b ! 0 AND 0x80 > 0)\<rparr>"

section \<open>Rate limits of control frames\<close>

abbreviation (input) FRANG_FREQ :: nat where "FRANG_FREQ \<equiv> 8"

definition time_before :: "u64 \<Rightarrow> u64 \<Rightarrow> bool" where
  "time_before a b \<longleftrightarrow> sint (a - b) < 0"

definition frang_time_in_frame :: "u64 \<Rightarrow> u64 \<Rightarrow> bool" where
  "frang_time_in_frame tcur tprev = time_before tcur (tprev + of_nat FRANG_FREQ)"

datatype ctrl_counter = Ping_Cnt | Settings_Cnt | Rst_Cnt | Priority_Cnt

fun ctrl_cnt :: "ctrl_counter \<Rightarrow> CtrlFrameStat \<Rightarrow> u32" where
  "ctrl_cnt Ping_Cnt s = cf_ping_cnt s"
| "ctrl_cnt Settings_Cnt s = cf_settings_cnt s"
| "ctrl_cnt Rst_Cnt s = cf_rst_cnt s"
| "ctrl_cnt Priority_Cnt s = cf_priority_cnt s"

fun set_ctrl_cnt :: "ctrl_counter \<Rightarrow> u32 \<Rightarrow> CtrlFrameStat \<Rightarrow> CtrlFrameStat" where
  "set_ctrl_cnt Ping_Cnt n s = s\<lparr>cf_ping_cnt := n\<rparr>"
| "set_ctrl_cnt Settings_Cnt n s = s\<lparr>cf_settings_cnt := n\<rparr>"
| "set_ctrl_cnt Rst_Cnt n s = s\<lparr>cf_rst_cnt := n\<rparr>"
| "set_ctrl_cnt Priority_Cnt n s = s\<lparr>cf_priority_cnt := n\<rparr>"

fun ctrl_limit :: "ctrl_counter \<Rightarrow> u32" where
  "ctrl_limit Ping_Cnt = 100"
| "ctrl_limit Settings_Cnt = 5"
| "ctrl_limit Rst_Cnt = 5"
| "ctrl_limit Priority_Cnt = 30"

text \<open>
  The four functions generated by \<^verbatim>\<open>TFW_H2_CTRL_FRAME_RATE_LIMIT\<close>; the result is true when
  the frame is within the limit.  The time stamp of a slot is 32 bits wide, the clock 64.
\<close>

definition ctrl_account :: "ctrl_counter \<Rightarrow> u64 \<Rightarrow> CtrlFrameStat \<Rightarrow> CtrlFrameStat" where
  "ctrl_account k ts s =
     (let s = (if ucast (cf_ts s) \<noteq> ts then set_ctrl_cnt k 0 (s\<lparr>cf_ts := ucast ts\<rparr>) else s) in
      set_ctrl_cnt k (ctrl_cnt k s + 1) s)"

definition ctrl_sum :: "ctrl_counter \<Rightarrow> u64 \<Rightarrow> CtrlFrameStat list \<Rightarrow> u32" where
  "ctrl_sum k ts stat =
     sum_list (map (ctrl_cnt k) (filter (\<lambda>s. frang_time_in_frame ts (ucast (cf_ts s))) stat))"

definition tfw_h2_ctrl_frame_rate_limit :: "ctrl_counter \<Rightarrow> TfwH2Ctx \<Rightarrow> bool \<times> TfwH2Ctx" where
  "tfw_h2_ctrl_frame_rate_limit k c =
     (let ts = e_ts (cx_env c);
          i = unat (ts mod of_nat FRANG_FREQ);
          stat = (cx_stat c)[i := ctrl_account k ts (cx_stat c ! i)] in
      (ctrl_sum k ts stat \<le> ctrl_limit k * e_ctrl_frame_rate_mul (cx_env c), c\<lparr>cx_stat := stat\<rparr>))"

section \<open>Sending of control frames\<close>

fun ecode :: "TfwH2Err \<Rightarrow> u32" where
  "ecode HTTP2_ECODE_NO_ERROR = 0"
| "ecode HTTP2_ECODE_PROTO = 1"
| "ecode HTTP2_ECODE_INTERNAL = 2"
| "ecode HTTP2_ECODE_FLOW = 3"
| "ecode HTTP2_ECODE_SETTINGS_TIMEOUT = 4"
| "ecode HTTP2_ECODE_CLOSED = 5"
| "ecode HTTP2_ECODE_SIZE = 6"
| "ecode HTTP2_ECODE_REFUSED = 7"
| "ecode HTTP2_ECODE_CANCEL = 8"
| "ecode HTTP2_ECODE_COMPRESSION = 9"
| "ecode HTTP2_ECODE_CONNECT = 10"
| "ecode HTTP2_ECODE_ENHANCE_YOUR_CALM = 11"
| "ecode HTTP2_ECODE_INADEQUATE_SECURITY = 12"
| "ecode HTTP2_ECODE_HTTP_1_1_REQUIRED = 13"

definition tfw_h2_send_frame_type ::
    "TfwCloseType \<Rightarrow> TfwFrameHdr \<Rightarrow> u8 list \<Rightarrow> TfwH2Ctx \<Rightarrow> rc \<times> TfwH2Ctx" where
  "tfw_h2_send_frame_type ty h payload c =
     (let r = e_send (cx_env c) (cx_sends c);
          c = c\<lparr>cx_sends := Suc (cx_sends c)\<rparr> in
      if r \<noteq> T_OK then (r, c)
      else (T_OK,
            c\<lparr>cx_sent := cx_sent c @ [\<lparr>sf_hdr = h, sf_payload = payload, sf_close = ty\<rparr>],
              cx_conn_stop := (cx_conn_stop c \<or> ty = TFW_FRAME_CLOSE \<or> ty = TFW_FRAME_SHUTDOWN)\<rparr>))"

definition tfw_h2_send_frame :: "TfwFrameHdr \<Rightarrow> u8 list \<Rightarrow> TfwH2Ctx \<Rightarrow> rc \<times> TfwH2Ctx" where
  "tfw_h2_send_frame = tfw_h2_send_frame_type TFW_FRAME_DEFAULT"

definition tfw_h2_send_ping :: "TfwH2Ctx \<Rightarrow> rc \<times> TfwH2Ctx" where
  "tfw_h2_send_ping c =
     tfw_h2_send_frame
       \<lparr>h_length = cx_rlen c, h_stream_id = 0, h_type = HTTP2_PING, h_flags = HTTP2_F_ACK\<rparr>
       (take (nat (cx_rlen c)) (cx_rbuf c)) c"

definition tfw_h2_send_wnd_update :: "u32 \<Rightarrow> u32 \<Rightarrow> TfwH2Ctx \<Rightarrow> rc \<times> TfwH2Ctx" where
  "tfw_h2_send_wnd_update i wnd_incr c =
     tfw_h2_send_frame
       \<lparr>h_length = 4, h_stream_id = i, h_type = HTTP2_WINDOW_UPDATE, h_flags = 0\<rparr>
       (htonl wnd_incr) c"

definition settings_field :: "u16 \<Rightarrow> u32 \<Rightarrow> u8 list" where
  "settings_field key v = htons key @ htonl v"

abbreviation (input) HPACK_ENC_TABLE_MAX_SIZE :: u32 where "HPACK_ENC_TABLE_MAX_SIZE \<equiv> 4096"
abbreviation (input) HTTP2_SETTINGS_MAX :: nat where "HTTP2_SETTINGS_MAX \<equiv> 7"

definition tfw_h2_send_settings_init :: "TfwH2Ctx \<Rightarrow> rc \<times> TfwH2Ctx" where
  "tfw_h2_send_settings_init c =
     (let ls = cx_lsettings c;
          bits = (cx_settings_to_apply c)
            (HTTP2_SETTINGS_MAX - 1 + 1 := True, HTTP2_SETTINGS_MAX - 1 + 4 := True);
          fields = settings_field 1 HPACK_ENC_TABLE_MAX_SIZE @ settings_field 4 (s_wnd_sz ls)
                   @ settings_field 3 (s_max_streams ls) in
      if s_max_lhdr_sz ls \<noteq> UINT_MAX then
        tfw_h2_send_frame
          \<lparr>h_length = 24, h_stream_id = 0, h_type = HTTP2_SETTINGS, h_flags = 0\<rparr>
          (fields @ settings_field 6 (s_max_lhdr_sz ls))
          (c\<lparr>cx_settings_to_apply := bits(HTTP2_SETTINGS_MAX - 1 + 6 := True)\<rparr>)
      else
        tfw_h2_send_frame
          \<lparr>h_length = 18, h_stream_id = 0, h_type = HTTP2_SETTINGS, h_flags = 0\<rparr>
          fields (c\<lparr>cx_settings_to_apply := bits\<rparr>))"

definition tfw_h2_send_settings_ack :: "TfwH2Ctx \<Rightarrow> rc \<times> TfwH2Ctx" where
  "tfw_h2_send_settings_ack =
     tfw_h2_send_frame \<lparr>h_length = 0, h_stream_id = 0, h_type = HTTP2_SETTINGS, h_flags = HTTP2_F_ACK\<rparr> []"

definition tfw_h2_send_goaway :: "TfwH2Err \<Rightarrow> bool \<Rightarrow> TfwH2Ctx \<Rightarrow> rc \<times> TfwH2Ctx" where
  "tfw_h2_send_goaway err attack c =
     tfw_h2_send_frame_type (if attack then TFW_FRAME_CLOSE else TFW_FRAME_SHUTDOWN)
       \<lparr>h_length = 8, h_stream_id = 0, h_type = HTTP2_GOAWAY, h_flags = 0\<rparr>
       (htonl (cx_lstream_id c) @ htonl (ecode err)) c"

definition tfw_h2_send_rst_stream :: "u32 \<Rightarrow> TfwH2Err \<Rightarrow> TfwH2Ctx \<Rightarrow> rc \<times> TfwH2Ctx" where
  "tfw_h2_send_rst_stream i err c =
     (case tfw_h2_ctrl_frame_rate_limit Rst_Cnt c of
        (False, c) \<Rightarrow> (T_BLOCK_WITH_RST, c)
      | (True, c) \<Rightarrow>
          (case tfw_h2_send_frame
              \<lparr>h_length = 4, h_stream_id = i, h_type = HTTP2_RST_STREAM, h_flags = 0\<rparr>
              (htonl (ecode err)) c of
             (r, c) \<Rightarrow> (if r \<noteq> T_OK then T_BAD else T_OK, c)))"

definition tfw_h2_conn_terminate_close :: "TfwH2Err \<Rightarrow> bool \<Rightarrow> bool \<Rightarrow> TfwH2Ctx \<Rightarrow> TfwH2Ctx" where
  "tfw_h2_conn_terminate_close err close attack c =
     (case tfw_h2_send_goaway err attack c of
        (r, c) \<Rightarrow> if r \<noteq> T_OK \<and> close then c\<lparr>cx_conn_closed := True\<rparr> else c)"

definition tfw_h2_conn_terminate :: "TfwH2Err \<Rightarrow> TfwH2Ctx \<Rightarrow> TfwH2Ctx" where
  "tfw_h2_conn_terminate err = tfw_h2_conn_terminate_close err False False"

definition tfw_h2_current_stream_send_rst ::
    "TfwH2Err \<Rightarrow> TfwH2Ctx \<Rightarrow> (rc \<times> TfwH2Ctx) option" where
  "tfw_h2_current_stream_send_rst err c = do {
     s \<leftarrow> cx_cur_stream c;
     c \<leftarrow> tfw_h2_stream_unlink_nolock s c;
     let c = tfw_h2_stream_add_to_queue_nolock Closed_Queue s c;
     Some (tfw_h2_send_rst_stream s err (c\<lparr>cx_cur_stream := None\<rparr>))
   }"

section \<open>Windows\<close>

definition tfw_h2_is_ready_to_send :: "TfwH2Ctx \<Rightarrow> bool" where
  "tfw_h2_is_ready_to_send c \<longleftrightarrow>
     se_active_cnt (sc_entry (cx_sched c) sched_root) \<noteq> 0 \<and> cx_rem_wnd c \<noteq> 0"

definition tfw_h2_conn_or_stream_wnd_is_exceeded :: "sid \<Rightarrow> TfwH2Ctx \<Rightarrow> bool" where
  "tfw_h2_conn_or_stream_wnd_is_exceeded s c \<longleftrightarrow> cx_rem_wnd c \<le> 0 \<or> st_rem_wnd (strm c s) \<le> 0"

definition tfw_h2_stream_try_unblock :: "sid \<Rightarrow> TfwStreamSched \<Rightarrow> TfwStreamSched option" where
  "tfw_h2_stream_try_unblock s S =
     (let t = sc_stream S s; was_blocked = x_is_blocked (st_xmit t) in
      if st_rem_wnd t > 0 then
        (let S = upd_stream s (\<lambda>t. t\<lparr>st_xmit := (st_xmit t)\<lparr>x_is_blocked := False\<rparr>\<rparr>) S in
         if x_skb_head (st_xmit t) \<noteq> [] \<and> was_blocked then
           (let S = S\<lparr>sc_blocked_streams := sc_blocked_streams S - 1\<rparr> in
            if sc_blocked_streams S < 0 then None
            else tfw_h2_sched_activate_stream s S)
         else Some S)
      else Some S)"

definition set_has_data :: "bool \<Rightarrow> TfwH2Ctx \<Rightarrow> TfwH2Ctx" where
  "set_has_data was_blocked c =
     (if was_blocked \<and> tfw_h2_is_ready_to_send c then c\<lparr>cx_has_data := True\<rparr> else c)"

definition apply_wnd_one :: "int \<Rightarrow> sid \<Rightarrow> TfwH2Ctx \<Rightarrow> TfwH2Ctx option" where
  "apply_wnd_one delta s c =
     (let st = tfw_h2_get_stream_state (st_state (strm c s));
          was_blocked = \<not> tfw_h2_is_ready_to_send c in
      if st = HTTP2_STREAM_OPENED \<or> st = HTTP2_STREAM_REM_HALF_CLOSED then
        map_option (set_has_data was_blocked)
          (on_sched (tfw_h2_stream_try_unblock s)
            (put_strm s (\<lambda>t. t\<lparr>st_rem_wnd := st_rem_wnd t + delta\<rparr>) c))
      else Some c)"

fun apply_wnd_loop :: "int \<Rightarrow> sid list \<Rightarrow> TfwH2Ctx \<Rightarrow> TfwH2Ctx option" where
  "apply_wnd_loop delta [] c = Some c"
| "apply_wnd_loop delta (s # ss) c = Option.bind (apply_wnd_one delta s c) (apply_wnd_loop delta ss)"

definition tfw_h2_apply_wnd_sz_change :: "int \<Rightarrow> TfwH2Ctx \<Rightarrow> TfwH2Ctx option" where
  "tfw_h2_apply_wnd_sz_change delta c = apply_wnd_loop delta (postorder (sc_streams (cx_sched c))) c"

section \<open>Settings\<close>

text \<open>
  Of the HPACK encoder table the size limit and its change flag are kept; the eviction of
  entries that no longer fit is part of the table, which is not modelled here.
\<close>

definition tfw_hpack_set_rbuf_size :: "u16 \<Rightarrow> TfwH2Ctx \<Rightarrow> TfwH2Ctx" where
  "tfw_hpack_set_rbuf_size sz c =
     (let sz = (if sz > 4096 then 4096 else sz) in
      if cx_enc_window c \<noteq> sz
         \<and> (\<not> cx_enc_wnd_changed c \<or> cx_enc_window c = 0 \<or> sz < cx_enc_window c)
      then c\<lparr>cx_enc_window := sz, cx_enc_wnd_changed := True\<rparr> else c)"

definition upd_rset :: "(TfwSettings \<Rightarrow> TfwSettings) \<Rightarrow> TfwH2Ctx \<Rightarrow> TfwH2Ctx" where
  "upd_rset f c = c\<lparr>cx_rsettings := f (cx_rsettings c)\<rparr>"

definition tfw_h2_apply_settings_entry :: "u16 \<Rightarrow> u32 \<Rightarrow> TfwH2Ctx \<Rightarrow> TfwH2Ctx option" where
  "tfw_h2_apply_settings_entry i v c =
     (if i = 1 then
        (let sz = min v HPACK_ENC_TABLE_MAX_SIZE in
         Some (tfw_hpack_set_rbuf_size (ucast sz) (upd_rset (\<lambda>s. s\<lparr>s_hdr_tbl_sz := sz\<rparr>) c)))
      else if i = 2 then
        (if v > 1 then None else Some (upd_rset (\<lambda>s. s\<lparr>s_push := v\<rparr>) c))
      else if i = 3 then Some (upd_rset (\<lambda>s. s\<lparr>s_max_streams := v\<rparr>) c)
      else if i = 4 then
        (if v > MAX_WND_SIZE then None
         else map_option (upd_rset (\<lambda>s. s\<lparr>s_wnd_sz := v\<rparr>))
                (tfw_h2_apply_wnd_sz_change (uint v - uint (s_wnd_sz (cx_rsettings c))) c))
      else if i = 5 then
        (if v < FRAME_DEF_LENGTH \<or> v > FRAME_MAX_LENGTH then None
         else Some (upd_rset (\<lambda>s. s\<lparr>s_max_frame_sz := v\<rparr>) c))
      else if i = 6 then Some (upd_rset (\<lambda>s. s\<lparr>s_max_lhdr_sz := v\<rparr>) c)
      else Some c)"

definition tfw_h2_check_settings_entry :: "u16 \<Rightarrow> u32 \<Rightarrow> rc" where
  "tfw_h2_check_settings_entry i v =
     (if i = 2 then (if v > 1 then EINVAL else T_OK)
      else if i = 4 then (if v > MAX_WND_SIZE then EINVAL else T_OK)
      else if i = 5 then (if v < FRAME_DEF_LENGTH \<or> v > FRAME_MAX_LENGTH then EINVAL else T_OK)
      else T_OK)"

definition tfw_h2_save_settings_entry :: "u16 \<Rightarrow> u32 \<Rightarrow> TfwH2Ctx \<Rightarrow> TfwH2Ctx" where
  "tfw_h2_save_settings_entry i v c =
     (if i > 0 \<and> unat i < HTTP2_SETTINGS_MAX then
        c\<lparr>cx_new_settings := (cx_new_settings c)[unat i - 1 := v],
          cx_settings_to_apply := (cx_settings_to_apply c)(unat i := True, 0 := True)\<rparr>
      else c)"

fun apply_settings_loop :: "nat list \<Rightarrow> TfwH2Ctx \<Rightarrow> TfwH2Ctx option" where
  "apply_settings_loop [] c = Some c"
| "apply_settings_loop (i # is) c =
     (if cx_settings_to_apply c i then
        Option.bind (tfw_h2_apply_settings_entry (of_nat i) (cx_new_settings c ! (i - 1)) c)
          (apply_settings_loop is)
      else apply_settings_loop is c)"

definition tfw_h2_apply_new_settings :: "TfwH2Ctx \<Rightarrow> TfwH2Ctx option" where
  "tfw_h2_apply_new_settings c =
     map_option (\<lambda>c. c\<lparr>cx_settings_to_apply := (cx_settings_to_apply c)(0 := False)\<rparr>)
       (apply_settings_loop [1..<HTTP2_SETTINGS_MAX] c)"

definition tfw_h2_on_tcp_entail_setting_ack :: "TfwH2Ctx \<Rightarrow> TfwH2Ctx option" where
  "tfw_h2_on_tcp_entail_setting_ack c =
     (if cx_settings_to_apply c 0 then tfw_h2_apply_new_settings c else Some c)"

definition tfw_h2_settings_ack_process :: "TfwH2Ctx \<Rightarrow> TfwH2Ctx" where
  "tfw_h2_settings_ack_process c =
     (if cx_settings_to_apply c (HTTP2_SETTINGS_MAX - 1 + 1) then
        c\<lparr>cx_hpack_max_window := s_hdr_tbl_sz (cx_lsettings c), cx_hpack_wnd_update := True,
          cx_settings_to_apply := (cx_settings_to_apply c)(HTTP2_SETTINGS_MAX - 1 + 1 := False)\<rparr>
      else c)"

section \<open>The initial context\<close>

definition zero_stat :: CtrlFrameStat where
  "zero_stat = \<lparr>cf_ping_cnt = 0, cf_settings_cnt = 0, cf_rst_cnt = 0, cf_priority_cnt = 0, cf_ts = 0\<rparr>"

definition zero_pri :: TfwFramePri where
  "zero_pri = \<lparr>pri_stream_id = 0, pri_weight = 0, pri_exclusive = False\<rparr>"

definition zero_hdr :: TfwFrameHdr where
  "zero_hdr = \<lparr>h_length = 0, h_stream_id = 0, h_type = 0, h_flags = 0\<rparr>"

definition empty_queue :: TfwStreamQueue where
  "empty_queue = \<lparr>q_list = [], q_num = 0\<rparr>"

definition init_settings :: "u32 \<Rightarrow> u32 \<Rightarrow> TfwSettings" where
  "init_settings max_streams max_lhdr =
     \<lparr>s_hdr_tbl_sz = 4096, s_push = 1, s_max_streams = max_streams, s_wnd_sz = DEF_WND_SIZE,
      s_max_frame_sz = FRAME_DEF_LENGTH, s_max_lhdr_sz = max_lhdr\<rparr>"

text \<open>
  \<^verbatim>\<open>tfw_h2_context_init()\<close> for the configured \<^verbatim>\<open>tfw_cli_max_concurrent_streams\<close> and
  \<^verbatim>\<open>max_header_list_size\<close> and for the number of scheduler entries that fit in the rest of
  the context page; the pools of the HPACK tables are not modelled.
\<close>

definition tfw_h2_context_init :: "u32 \<Rightarrow> u32 \<Rightarrow> nat \<Rightarrow> h2_env \<Rightarrow> TfwH2Ctx" where
  "tfw_h2_context_init max_streams max_header_list_size list_sz env =
     \<lparr>cx_lsettings = init_settings max_streams
        (if max_header_list_size \<noteq> 0 then max_header_list_size else UINT_MAX),
      cx_rsettings = init_settings 0xffffffff UINT_MAX,
      cx_lstream_id = 0, cx_streams_num = 0, cx_sched = tfw_h2_init_stream_sched,
      cx_free_entries = list_sz, cx_dflt_entry = (\<lambda>_. False),
      cx_closed_streams = empty_queue, cx_idle_streams = empty_queue,
      cx_loc_wnd = uint DEF_WND_SIZE, cx_rem_wnd = uint DEF_WND_SIZE,
      cx_hpack_max_window = 4096, cx_hpack_wnd_update = False,
      cx_enc_window = 4096, cx_enc_wnd_changed = False,
      cx_cur_send_headers = None, cx_cur_recv_headers = None, cx_error = None,
      cx_new_settings = replicate 6 0, cx_settings_to_apply = (\<lambda>_. False),
      cx_stat = replicate FRANG_FREQ zero_stat,
      cx_wnd_update_cnt = 0, cx_data_frames_sent = 0, cx_data_bytes_sent = 0,
      cx_skb_head = [], cx_cur_stream = None, cx_priority = zero_pri, cx_hdr = zero_hdr, cx_plen = 0,
      cx_state = HTTP2_RECV_CLI_START_SEQ, cx_to_read = 0, cx_rlen = 0, cx_rbuf = replicate 9 0,
      cx_padlen = 0, cx_data_off = 0,
      cx_sent = [], cx_conn_stop = False, cx_conn_closed = False, cx_has_data = False,
      cx_freed_msgs = [], cx_env = env, cx_sends = 0, cx_allocs = 0\<rparr>"

end
