(* ===== verification/H2_Frame.thy ===== *)
theory H2_Frame
  imports H2_Conn
begin

unbundle bit_operations_syntax

text \<open>
  Reception of HTTP/2 frames (\<^verbatim>\<open>src/fw/http_frame.c\<close>): the handlers of the frame types, the
  verification of frame headers, the byte-wise frame machine \<^verbatim>\<open>tfw_h2_frame_recv()\<close> and
  \<^verbatim>\<open>tfw_h2_frame_process()\<close>, which feeds it with socket buffers and hands application frames
  to the HTTP layer.

  A handler returns its C return code and the new context; \<open>None\<close> is a failed assertion, a
  NULL dereference or a read pointer that would move backwards.
\<close>

section \<open>Stream state processing\<close>

definition ctx_fsm_view :: "sid \<Rightarrow> TfwH2Ctx \<Rightarrow> fsm_view" where
  "ctx_fsm_view s c =
     \<lparr>fv_state = st_state (strm c s), fv_send_headers = cx_cur_send_headers c,
      fv_recv_headers = cx_cur_recv_headers c\<rparr>"

definition put_fsm_view :: "sid \<Rightarrow> fsm_view \<Rightarrow> TfwH2Ctx \<Rightarrow> TfwH2Ctx" where
  "put_fsm_view s v c =
     put_strm s (\<lambda>t. t\<lparr>st_state := fv_state v\<rparr>)
       (c\<lparr>cx_cur_send_headers := fv_send_headers v, cx_cur_recv_headers := fv_recv_headers v\<rparr>)"

text \<open>The machine of \<^theory_text>\<open>H2_Stream_Fsm\<close> on the context; a NULL stream is ignored.\<close>

definition h2_stream_fsm ::
    "sid option \<Rightarrow> u8 \<Rightarrow> u8 \<Rightarrow> bool \<Rightarrow> TfwH2Ctx \<Rightarrow> (TfwStreamFsmRes \<times> TfwH2Err \<times> TfwH2Ctx) option" where
  "h2_stream_fsm so ty flags send c =
     (case so of
        None \<Rightarrow> Some (STREAM_FSM_RES_IGNORE, HTTP2_ECODE_NO_ERROR, c)
      | Some s \<Rightarrow>
          map_option (\<lambda>(res, err, v). (res, err, put_fsm_view s v c))
            (tfw_h2_stream_fsm
               \<lparr>fa_stream = s, fa_type = ty, fa_flags = flags, fa_send = send,
                fa_plen = cx_plen c, fa_hdr_flags = h_flags (cx_hdr c)\<rparr>
               HTTP2_ECODE_NO_ERROR (ctx_fsm_view s c)))"

definition upd_hdr :: "(TfwFrameHdr \<Rightarrow> TfwFrameHdr) \<Rightarrow> TfwH2Ctx \<Rightarrow> TfwH2Ctx" where
  "upd_hdr f c = c\<lparr>cx_hdr := f (cx_hdr c)\<rparr>"

definition SET_TO_READ :: "TfwH2Ctx \<Rightarrow> TfwH2Ctx" where
  "SET_TO_READ c = upd_hdr (\<lambda>h. h\<lparr>h_length := 0\<rparr>) (c\<lparr>cx_to_read := h_length (cx_hdr c)\<rparr>)"

definition SET_TO_READ_VERIFY :: "TfwFrameState \<Rightarrow> TfwH2Ctx \<Rightarrow> TfwH2Ctx" where
  "SET_TO_READ_VERIFY next_state c =
     (if h_length (cx_hdr c) \<noteq> 0 then (SET_TO_READ c)\<lparr>cx_state := next_state\<rparr>
      else c\<lparr>cx_state := HTTP2_IGNORE_FRAME_DATA\<rparr>)"

text \<open>
  \<^verbatim>\<open>STREAM_RECV_PROCESS\<close>: the first component is the code with which the enclosing function
  returns, or \<open>None\<close> when it goes on.
\<close>

definition STREAM_RECV_PROCESS :: "TfwH2Ctx \<Rightarrow> (rc option \<times> TfwH2Ctx) option" where
  "STREAM_RECV_PROCESS c =
     (if cx_cur_stream c = None then None
      else do {
        (res, err, c) \<leftarrow> h2_stream_fsm (cx_cur_stream c) (h_type (cx_hdr c)) (h_flags (cx_hdr c)) False c;
        (case res of
           STREAM_FSM_RES_OK \<Rightarrow> Some (None, c)
         | STREAM_FSM_RES_TERM_CONN \<Rightarrow>
             Some (Some T_BAD, tfw_h2_conn_terminate err (SET_TO_READ_VERIFY HTTP2_IGNORE_FRAME_DATA c))
         | STREAM_FSM_RES_TERM_STREAM \<Rightarrow>
             map_option (\<lambda>(r, c). (Some r, c))
               (tfw_h2_current_stream_send_rst err (SET_TO_READ_VERIFY HTTP2_IGNORE_FRAME_DATA c))
         | STREAM_FSM_RES_IGNORE \<Rightarrow>
             Some (Some T_OK, SET_TO_READ_VERIFY HTTP2_IGNORE_FRAME_DATA c))
      })"

definition tfw_h2_current_stream_state_process :: "TfwH2Ctx \<Rightarrow> (rc \<times> TfwH2Ctx) option" where
  "tfw_h2_current_stream_state_process c = do {
     (ret, c) \<leftarrow> STREAM_RECV_PROCESS c;
     (case ret of
        Some r \<Rightarrow> Some (r, c)
      | None \<Rightarrow> map_option (\<lambda>c. (T_OK, c)) (tfw_h2_check_current_stream_is_closed c))
   }"

section \<open>Handlers of frame payloads\<close>

definition VERIFY_FRAME_SIZE ::
    "(TfwH2Ctx \<Rightarrow> (rc \<times> TfwH2Ctx) option) \<Rightarrow> TfwH2Ctx \<Rightarrow> (rc \<times> TfwH2Ctx) option" where
  "VERIFY_FRAME_SIZE k c =
     (if h_length (cx_hdr c) < 0 then Some (EINVAL, tfw_h2_conn_terminate HTTP2_ECODE_SIZE c) else k c)"

definition recv_optional :: "int \<Rightarrow> TfwFrameState \<Rightarrow> TfwH2Ctx \<Rightarrow> (rc \<times> TfwH2Ctx) option" where
  "recv_optional n st c =
     VERIFY_FRAME_SIZE (\<lambda>c. Some (T_OK, c\<lparr>cx_state := st\<rparr>))
       (upd_hdr (\<lambda>h. h\<lparr>h_length := h_length h - n\<rparr>)
         (c\<lparr>cx_to_read := n, cx_plen := cx_plen c - word_of_int n\<rparr>))"

definition tfw_h2_recv_priority :: "TfwH2Ctx \<Rightarrow> (rc \<times> TfwH2Ctx) option" where
  "tfw_h2_recv_priority = recv_optional 5 HTTP2_RECV_HEADER_PRI"

definition tfw_h2_recv_padded :: "TfwH2Ctx \<Rightarrow> (rc \<times> TfwH2Ctx) option" where
  "tfw_h2_recv_padded = recv_optional 1 HTTP2_RECV_FRAME_PADDED"

definition tfw_h2_headers_pri_process :: "TfwH2Ctx \<Rightarrow> (rc \<times> TfwH2Ctx) option" where
  "tfw_h2_headers_pri_process c =
     (if \<not> has_flag (h_flags (cx_hdr c)) HTTP2_F_PRIORITY then None
      else Some (T_OK, SET_TO_READ_VERIFY HTTP2_RECV_HEADER
        (c\<lparr>cx_priority := tfw_h2_unpack_priority (cx_rbuf c), cx_data_off := cx_data_off c + 5\<rparr>)))"

definition tfw_h2_headers_process :: "TfwH2Ctx \<Rightarrow> (rc \<times> TfwH2Ctx) option" where
  "tfw_h2_headers_process c =
     (let i = h_stream_id (cx_hdr c);
          c = c\<lparr>cx_lstream_id := i\<rparr> in
      if pri_stream_id (cx_priority c) = i then
        (let c = c\<lparr>cx_state := HTTP2_IGNORE_FRAME_DATA\<rparr> in
         if cx_cur_stream c = None then Some (tfw_h2_send_rst_stream i HTTP2_ECODE_PROTO c)
         else tfw_h2_current_stream_send_rst HTTP2_ECODE_PROTO c)
      else
        (case cx_cur_stream c of
           None \<Rightarrow> do {
             (so, c) \<leftarrow> tfw_h2_stream_create i c;
             let c = c\<lparr>cx_cur_stream := so\<rparr>;
             (if so = None then Some (ENOMEM, c) else tfw_h2_current_stream_state_process c)
           }
         | Some s \<Rightarrow>
             if st_state (strm c s) = HTTP2_STREAM_IDLE then
               Option.bind (tfw_h2_stream_remove_idle s c) tfw_h2_current_stream_state_process
             else tfw_h2_current_stream_state_process c))"

text \<open>The new window, or \<open>None\<close> for \<^verbatim>\<open>-EINVAL\<close>.\<close>

definition tfw_h2_increment_wnd_sz :: "int \<Rightarrow> u32 \<Rightarrow> int option" where
  "tfw_h2_increment_wnd_sz window wnd_incr =
     (let w = window + uint wnd_incr in if w > uint MAX_WND_SIZE then None else Some w)"

definition tfw_h2_stream_fsm_ignore_err ::
    "sid option \<Rightarrow> u8 \<Rightarrow> u8 \<Rightarrow> TfwH2Ctx \<Rightarrow> (TfwStreamFsmRes \<times> TfwH2Ctx) option" where
  "tfw_h2_stream_fsm_ignore_err so ty flags c =
     map_option (\<lambda>(res, err, c). (res, c)) (h2_stream_fsm so ty flags True c)"

text \<open>A stream error found by a handler: reset the stream, or fail with \<^verbatim>\<open>-EPERM\<close>.\<close>

definition reset_current_stream :: "TfwH2Err \<Rightarrow> TfwH2Ctx \<Rightarrow> (rc \<times> TfwH2Ctx) option" where
  "reset_current_stream err c = do {
     (res, c) \<leftarrow> tfw_h2_stream_fsm_ignore_err (cx_cur_stream c) HTTP2_RST_STREAM 0 c;
     (if res \<noteq> STREAM_FSM_RES_OK then Some (EPERM, c) else tfw_h2_current_stream_send_rst err c)
   }"

definition wnd_update_fail :: "TfwH2Err \<Rightarrow> TfwH2Ctx \<Rightarrow> (rc \<times> TfwH2Ctx) option" where
  "wnd_update_fail err c =
     (if cx_cur_stream c = None then Some (EPIPE, tfw_h2_conn_terminate err c)
      else reset_current_stream err c)"

definition tfw_h2_wnd_update_process :: "TfwH2Ctx \<Rightarrow> (rc \<times> TfwH2Ctx) option" where
  "tfw_h2_wnd_update_process c =
     (let wnd_incr = ntohl (cx_rbuf c) AND 0x7fffffff;
          was_blocked = \<not> tfw_h2_is_ready_to_send c in
      if wnd_incr = 0 then wnd_update_fail HTTP2_ECODE_PROTO c
      else
        (case cx_cur_stream c of
           None \<Rightarrow>
             (case tfw_h2_increment_wnd_sz (cx_rem_wnd c) wnd_incr of
                None \<Rightarrow> wnd_update_fail HTTP2_ECODE_FLOW c
              | Some w \<Rightarrow> Some (T_OK, set_has_data was_blocked (c\<lparr>cx_rem_wnd := w\<rparr>)))
         | Some s \<Rightarrow>
             (case tfw_h2_increment_wnd_sz (st_rem_wnd (strm c s)) wnd_incr of
                None \<Rightarrow> wnd_update_fail HTTP2_ECODE_FLOW c
              | Some w \<Rightarrow>
                  map_option (\<lambda>c. (T_OK, set_has_data was_blocked c))
                    (on_sched (tfw_h2_stream_try_unblock s)
                      (put_strm s (\<lambda>t. t\<lparr>st_rem_wnd := w\<rparr>) c)))))"

definition tfw_h2_priority_process :: "TfwH2Ctx \<Rightarrow> (rc \<times> TfwH2Ctx) option" where
  "tfw_h2_priority_process c =
     (let pri = tfw_h2_unpack_priority (cx_rbuf c);
          c = c\<lparr>cx_priority := pri\<rparr>;
          i = h_stream_id (cx_hdr c) in
      if pri_stream_id pri \<noteq> i then
        map_option (\<lambda>c. (T_OK, c))
          (on_sched (tfw_h2_change_stream_dep i (pri_stream_id pri) (pri_weight pri)
             (pri_exclusive pri)) c)
      else
        (case cx_cur_stream c of
           None \<Rightarrow> None
         | Some s \<Rightarrow>
             if st_state (strm c s) = HTTP2_STREAM_IDLE then
               Some (T_BAD, tfw_h2_conn_terminate HTTP2_ECODE_PROTO c)
             else reset_current_stream HTTP2_ECODE_PROTO c))"

definition tfw_h2_rst_stream_process :: "TfwH2Ctx \<Rightarrow> TfwH2Ctx option" where
  "tfw_h2_rst_stream_process c =
     (if cx_cur_stream c = None then None else tfw_h2_current_stream_remove c)"

definition next_settings_entry :: "TfwH2Ctx \<Rightarrow> TfwH2Ctx" where
  "next_settings_entry c =
     (let n = (if h_length (cx_hdr c) \<noteq> 0 then 6 else 0) in
      upd_hdr (\<lambda>h. h\<lparr>h_length := h_length h - n\<rparr>) (c\<lparr>cx_to_read := n\<rparr>))"

definition tfw_h2_settings_process :: "TfwH2Ctx \<Rightarrow> rc \<times> TfwH2Ctx" where
  "tfw_h2_settings_process c =
     (let i = ntohs (cx_rbuf c);
          v = ntohl (drop 2 (cx_rbuf c));
          r = tfw_h2_check_settings_entry i v in
      if r \<noteq> T_OK then (r, c)
      else (T_OK, next_settings_entry (tfw_h2_save_settings_entry i v c)))"

definition tfw_h2_goaway_process :: "TfwH2Ctx \<Rightarrow> TfwH2Ctx" where
  "tfw_h2_goaway_process c = SET_TO_READ c"

definition tfw_h2_first_settings_verify :: "TfwH2Ctx \<Rightarrow> (rc \<times> TfwH2Ctx) option" where
  "tfw_h2_first_settings_verify c =
     (if cx_to_read c \<noteq> 0 then None
      else
        (let h = tfw_h2_unpack_frame_header (cx_rbuf c);
             c = c\<lparr>cx_hdr := h\<rparr> in
         if h_length h \<noteq> 0 \<and> h_length h mod 6 \<noteq> 0 then
           Some (EINVAL, tfw_h2_conn_terminate HTTP2_ECODE_SIZE c)
         else if h_type h \<noteq> HTTP2_SETTINGS \<or> has_flag (h_flags h) HTTP2_F_ACK \<or> h_stream_id h \<noteq> 0 then
           Some (EINVAL, tfw_h2_conn_terminate HTTP2_ECODE_PROTO c)
         else Some (T_OK, next_settings_entry c)))"

definition tfw_h2_current_stream_id_verify :: "TfwH2Ctx \<Rightarrow> rc" where
  "tfw_h2_current_stream_id_verify c =
     (let i = h_stream_id (cx_hdr c) in
      if cx_cur_stream c \<noteq> None then T_OK
      else if cx_lstream_id c \<ge> i then EINVAL
      else if i AND 1 = 0 then EINVAL
      else T_OK)"

definition flow_control_conn :: "TfwH2Ctx \<Rightarrow> rc \<times> TfwH2Ctx" where
  "flow_control_conn c =
     (if cx_loc_wnd c \<le> uint DEF_WND_SIZE div 2 then
        (case tfw_h2_send_wnd_update 0 (word_of_int (uint DEF_WND_SIZE - cx_loc_wnd c)) c of
           (r, c) \<Rightarrow> if r \<noteq> T_OK then (r, c) else (T_OK, c\<lparr>cx_loc_wnd := uint DEF_WND_SIZE\<rparr>))
      else (T_OK, c))"

definition tfw_h2_flow_control :: "TfwH2Ctx \<Rightarrow> (rc \<times> TfwH2Ctx) option" where
  "tfw_h2_flow_control c =
     (case cx_cur_stream c of
        None \<Rightarrow> None
      | Some s \<Rightarrow>
          let n = h_length (cx_hdr c);
              wnd_sz = s_wnd_sz (cx_lsettings c);
              w = st_loc_wnd (strm c s) - n;
              c = put_strm s (\<lambda>t. t\<lparr>st_loc_wnd := w\<rparr>) (c\<lparr>cx_loc_wnd := cx_loc_wnd c - n\<rparr>) in
          Some (if w \<le> uint wnd_sz div 2 then
                  (case tfw_h2_send_wnd_update s (word_of_int (uint wnd_sz - w)) c of
                     (r, c) \<Rightarrow>
                       if r \<noteq> T_OK then (r, c)
                       else flow_control_conn (put_strm s (\<lambda>t. t\<lparr>st_loc_wnd := uint wnd_sz\<rparr>) c))
                else flow_control_conn c))"

definition tfw_h2_frame_pad_process :: "TfwH2Ctx \<Rightarrow> (rc \<times> TfwH2Ctx) option" where
  "tfw_h2_frame_pad_process c =
     (let padlen = cx_rbuf c ! 0 in
      VERIFY_FRAME_SIZE
        (\<lambda>c. let h = cx_hdr c in
             if h_length h = 0 then
               Some (T_OK, c\<lparr>cx_state := HTTP2_IGNORE_FRAME_DATA, cx_to_read := 0\<rparr>)
             else if h_type h = HTTP2_DATA then
               Some (T_OK, SET_TO_READ (c\<lparr>cx_state := HTTP2_RECV_DATA\<rparr>))
             else if h_type h = HTTP2_HEADERS then
               (if has_flag (h_flags h) HTTP2_F_PRIORITY then tfw_h2_recv_priority c
                else Some (T_OK, SET_TO_READ (c\<lparr>cx_state := HTTP2_RECV_HEADER\<rparr>)))
             else None)
        (upd_hdr (\<lambda>h. h\<lparr>h_length := h_length h - uint padlen\<rparr>)
          (c\<lparr>cx_data_off := cx_data_off c + 1, cx_padlen := padlen\<rparr>)))"

section \<open>Limits of received control frames\<close>

definition tfw_h2_calc_min_to_send :: "TfwH2Ctx \<Rightarrow> u32 \<Rightarrow> u32" where
  "tfw_h2_calc_min_to_send c mss_now =
     (let ovh = e_tls_max_overhead (cx_env c);
          by_mss = (if mss_now > ovh then mss_now - ovh else 1);
          wnd_sz = s_wnd_sz (cx_rsettings c);
          by_wnd_sz = (if wnd_sz \<ge> 2 then drop_bit 1 wnd_sz else 1) in
      min 512 (min by_mss by_wnd_sz))"

definition tfw_h2_wnd_update_rate_limit :: "TfwH2Ctx \<Rightarrow> bool \<times> TfwH2Ctx" where
  "tfw_h2_wnd_update_rate_limit c =
     (let c = c\<lparr>cx_wnd_update_cnt := cx_wnd_update_cnt c + 1\<rparr>;
          mul = ucast (e_wnd_update_frame_rate_mul (cx_env c)) in
      if cx_wnd_update_cnt c < ucast (s_max_streams (cx_lsettings c)) then (True, c)
      else if cx_wnd_update_cnt c > cx_data_frames_sent c * 6 * mul then (False, c)
      else
        (let min_to_send = ucast (tfw_h2_calc_min_to_send c (e_mss_now (cx_env c))) in
         (\<not> cx_wnd_update_cnt c > (cx_data_bytes_sent c div min_to_send) * mul, c)))"

definition tfw_h2_ctrl_frame_limit :: "u8 \<Rightarrow> TfwH2Ctx \<Rightarrow> bool \<times> TfwH2Ctx" where
  "tfw_h2_ctrl_frame_limit hdr_type c =
     (if hdr_type = HTTP2_PRIORITY then tfw_h2_ctrl_frame_rate_limit Priority_Cnt c
      else if hdr_type = HTTP2_RST_STREAM then tfw_h2_ctrl_frame_rate_limit Rst_Cnt c
      else if hdr_type = HTTP2_SETTINGS then tfw_h2_ctrl_frame_rate_limit Settings_Cnt c
      else if hdr_type = HTTP2_PING then tfw_h2_ctrl_frame_rate_limit Ping_Cnt c
      else if hdr_type = HTTP2_WINDOW_UPDATE then tfw_h2_wnd_update_rate_limit c
      else (True, c))"

section \<open>Verification of frame headers\<close>

definition conn_term :: "TfwH2Err \<Rightarrow> TfwH2Ctx \<Rightarrow> (rc \<times> TfwH2Ctx) option" where
  "conn_term err c = Some (EINVAL, tfw_h2_conn_terminate err c)"

definition find_cur_stream :: "TfwH2Ctx \<Rightarrow> TfwH2Ctx" where
  "find_cur_stream c =
     c\<lparr>cx_cur_stream := tfw_h2_find_not_closed_stream c (h_stream_id (cx_hdr c))\<rparr>"

definition start_payload :: "TfwH2Ctx \<Rightarrow> TfwH2Ctx" where
  "start_payload c = c\<lparr>cx_data_off := 9, cx_plen := word_of_int (h_length (cx_hdr c))\<rparr>"

text \<open>\<open>Inl\<close>: the limit is reached, the ACTION of the macro runs; \<open>Inr\<close>: go on.\<close>

definition VERIFY_MAX_CONCURRENT_STREAMS ::
    "TfwH2Ctx \<Rightarrow> (TfwH2Ctx + TfwH2Ctx) option" where
  "VERIFY_MAX_CONCURRENT_STREAMS c = do {
     c \<leftarrow> tfw_h2_closed_streams_shrink c;
     Some (if ucast (s_max_streams (cx_lsettings c)) = cx_streams_num c
           then Inl (SET_TO_READ_VERIFY HTTP2_IGNORE_FRAME_DATA c) else Inr c)
   }"

definition type_process_data :: "TfwH2Ctx \<Rightarrow> (rc \<times> TfwH2Ctx) option" where
  "type_process_data c =
     (let i = h_stream_id (cx_hdr c) in
      if i = 0 then conn_term HTTP2_ECODE_PROTO c
      else if i > cx_lstream_id c then conn_term HTTP2_ECODE_PROTO c
      else
        let c = find_cur_stream c in
        if cx_cur_stream c = None then conn_term HTTP2_ECODE_CLOSED c
        else do {
          (r, c) \<leftarrow> tfw_h2_flow_control c;
          (if r \<noteq> T_OK then Some (r, c)
           else
             let c = start_payload c in
             if has_flag (h_flags (cx_hdr c)) HTTP2_F_PADDED then tfw_h2_recv_padded c
             else Some (T_OK, SET_TO_READ (c\<lparr>cx_state := HTTP2_RECV_DATA\<rparr>)))
        })"

definition type_process_headers_tail :: "TfwH2Ctx \<Rightarrow> (rc \<times> TfwH2Ctx) option" where
  "type_process_headers_tail c =
     (let c = start_payload c in
      if has_flag (h_flags (cx_hdr c)) HTTP2_F_PADDED then tfw_h2_recv_padded c
      else if has_flag (h_flags (cx_hdr c)) HTTP2_F_PRIORITY then tfw_h2_recv_priority c
      else Some (T_OK, SET_TO_READ (c\<lparr>cx_state := HTTP2_RECV_HEADER\<rparr>)))"

definition type_process_headers :: "TfwH2Ctx \<Rightarrow> (rc \<times> TfwH2Ctx) option" where
  "type_process_headers c =
     (let i = h_stream_id (cx_hdr c) in
      if i = 0 then conn_term HTTP2_ECODE_PROTO c
      else
        let c = find_cur_stream c in
        if tfw_h2_current_stream_id_verify c \<noteq> T_OK then conn_term HTTP2_ECODE_PROTO c
        else do {
          c \<leftarrow> tfw_h2_remove_idle_streams i c;
          (if cx_cur_stream c \<noteq> None then type_process_headers_tail c
           else do {
             v \<leftarrow> VERIFY_MAX_CONCURRENT_STREAMS c;
             (case v of
                Inl c \<Rightarrow> Some (tfw_h2_send_rst_stream i HTTP2_ECODE_REFUSED c)
              | Inr c \<Rightarrow> type_process_headers_tail c)
           })
        })"

definition priority_recv_process :: "TfwH2Ctx \<Rightarrow> (rc \<times> TfwH2Ctx) option" where
  "priority_recv_process c = do {
     (ret, c) \<leftarrow> STREAM_RECV_PROCESS c;
     Some (case ret of
             Some r \<Rightarrow> (r, c)
           | None \<Rightarrow> (T_OK, SET_TO_READ (c\<lparr>cx_state := HTTP2_RECV_FRAME_PRIORITY\<rparr>)))
   }"

definition type_process_priority :: "TfwH2Ctx \<Rightarrow> (rc \<times> TfwH2Ctx) option" where
  "type_process_priority c =
     (let i = h_stream_id (cx_hdr c) in
      if i = 0 then conn_term HTTP2_ECODE_PROTO c
      else
        let c = c\<lparr>cx_cur_stream := tfw_h2_find_stream (sc_streams (cx_sched c)) i\<rparr> in
        if h_length (cx_hdr c) \<noteq> 5 then conn_term HTTP2_ECODE_SIZE c
        else if cx_cur_stream c \<noteq> None then priority_recv_process c
        else if i > cx_lstream_id c then do {
          v \<leftarrow> VERIFY_MAX_CONCURRENT_STREAMS c;
          (case v of
             Inl c \<Rightarrow> conn_term HTTP2_ECODE_PROTO c
           | Inr c \<Rightarrow> do {
               (so, c) \<leftarrow> tfw_h2_stream_create i c;
               let c = c\<lparr>cx_cur_stream := so\<rparr>;
               (case so of
                  None \<Rightarrow> Some (ENOMEM, c)
                | Some s \<Rightarrow> priority_recv_process (tfw_h2_stream_add_idle s c))
             })
        }
        else Some (T_OK, SET_TO_READ (c\<lparr>cx_state := HTTP2_IGNORE_FRAME_DATA\<rparr>)))"

text \<open>WINDOW_UPDATE and RST_STREAM of an existing stream, or of one that is gone.\<close>

definition recv_for_stream :: "TfwFrameState \<Rightarrow> TfwH2Ctx \<Rightarrow> (rc \<times> TfwH2Ctx) option" where
  "recv_for_stream st c =
     (let c = find_cur_stream c in
      if cx_cur_stream c \<noteq> None then do {
        (ret, c) \<leftarrow> STREAM_RECV_PROCESS c;
        Some (case ret of
                Some r \<Rightarrow> (r, c)
              | None \<Rightarrow> (T_OK, SET_TO_READ (c\<lparr>cx_state := st\<rparr>)))
      }
      else Some (T_OK, SET_TO_READ (c\<lparr>cx_state := HTTP2_IGNORE_FRAME_DATA\<rparr>)))"

definition type_process_window_update :: "TfwH2Ctx \<Rightarrow> (rc \<times> TfwH2Ctx) option" where
  "type_process_window_update c =
     (let i = h_stream_id (cx_hdr c) in
      if h_length (cx_hdr c) \<noteq> 4 then conn_term HTTP2_ECODE_SIZE c
      else if i > cx_lstream_id c then conn_term HTTP2_ECODE_PROTO c
      else if i \<noteq> 0 then recv_for_stream HTTP2_RECV_FRAME_WND_UPDATE c
      else Some (T_OK, SET_TO_READ (c\<lparr>cx_state := HTTP2_RECV_FRAME_WND_UPDATE\<rparr>)))"

definition type_process_settings :: "TfwH2Ctx \<Rightarrow> (rc \<times> TfwH2Ctx) option" where
  "type_process_settings c =
     (let h = cx_hdr c in
      if h_stream_id h \<noteq> 0 then conn_term HTTP2_ECODE_PROTO c
      else if h_length h mod 6 \<noteq> 0 \<or> (has_flag (h_flags h) HTTP2_F_ACK \<and> h_length h > 0) then
        conn_term HTTP2_ECODE_SIZE c
      else
        let c = (if has_flag (h_flags h) HTTP2_F_ACK then tfw_h2_settings_ack_process c else c) in
        if h_length h \<noteq> 0 then
          Some (T_OK, upd_hdr (\<lambda>h. h\<lparr>h_length := h_length h - 6\<rparr>)
            (c\<lparr>cx_state := HTTP2_RECV_FRAME_SETTINGS, cx_to_read := 6\<rparr>))
        else Some (T_OK, c\<lparr>cx_to_read := 0\<rparr>))"

definition type_process_ping :: "TfwH2Ctx \<Rightarrow> (rc \<times> TfwH2Ctx) option" where
  "type_process_ping c =
     (if h_stream_id (cx_hdr c) \<noteq> 0 then conn_term HTTP2_ECODE_PROTO c
      else if h_length (cx_hdr c) \<noteq> 8 then conn_term HTTP2_ECODE_SIZE c
      else Some (T_OK, SET_TO_READ (c\<lparr>cx_state := HTTP2_RECV_FRAME_PING\<rparr>)))"

definition type_process_rst_stream :: "TfwH2Ctx \<Rightarrow> (rc \<times> TfwH2Ctx) option" where
  "type_process_rst_stream c =
     (let i = h_stream_id (cx_hdr c) in
      if i = 0 then conn_term HTTP2_ECODE_PROTO c
      else if h_length (cx_hdr c) \<noteq> 4 then conn_term HTTP2_ECODE_SIZE c
      else if i > cx_lstream_id c then conn_term HTTP2_ECODE_PROTO c
      else recv_for_stream HTTP2_RECV_FRAME_RST_STREAM c)"

definition type_process_goaway :: "TfwH2Ctx \<Rightarrow> (rc \<times> TfwH2Ctx) option" where
  "type_process_goaway c =
     (if h_stream_id (cx_hdr c) \<noteq> 0 then conn_term HTTP2_ECODE_PROTO c
      else if h_length (cx_hdr c) < 8 then conn_term HTTP2_ECODE_SIZE c
      else Some (T_OK, upd_hdr (\<lambda>h. h\<lparr>h_length := h_length h - 8\<rparr>)
        (c\<lparr>cx_state := HTTP2_RECV_FRAME_GOAWAY, cx_to_read := 8\<rparr>)))"

definition type_process_continuation :: "TfwH2Ctx \<Rightarrow> (rc \<times> TfwH2Ctx) option" where
  "type_process_continuation c =
     (let i = h_stream_id (cx_hdr c) in
      if i = 0 then conn_term HTTP2_ECODE_PROTO c
      else if i > cx_lstream_id c then conn_term HTTP2_ECODE_PROTO c
      else
        let c = find_cur_stream c in
        if cx_cur_stream c = None then conn_term HTTP2_ECODE_CLOSED c
        else Some (T_OK, (SET_TO_READ (start_payload c))\<lparr>cx_state := HTTP2_RECV_CONT\<rparr>))"

definition type_process_unknown :: "TfwH2Ctx \<Rightarrow> (rc \<times> TfwH2Ctx) option" where
  "type_process_unknown c =
     (if cx_cur_recv_headers c \<noteq> None then conn_term HTTP2_ECODE_PROTO c
      else Some (T_OK, SET_TO_READ (c\<lparr>cx_state := HTTP2_IGNORE_FRAME_DATA\<rparr>)))"

definition tfw_h2_frame_type_process :: "TfwH2Ctx \<Rightarrow> (rc \<times> TfwH2Ctx) option" where
  "tfw_h2_frame_type_process c =
     (let hdr_type = (if h_type (cx_hdr c) \<le> HTTP2_UNDEFINED then h_type (cx_hdr c) else HTTP2_UNDEFINED) in
      if h_length (cx_hdr c) > uint (s_max_frame_sz (cx_lsettings c)) then conn_term HTTP2_ECODE_SIZE c
      else
        (case tfw_h2_ctrl_frame_limit hdr_type c of
           (False, c) \<Rightarrow> Some (T_BLOCK_WITH_RST, c)
         | (True, c) \<Rightarrow>
             if hdr_type = HTTP2_DATA then type_process_data c
             else if hdr_type = HTTP2_HEADERS then type_process_headers c
             else if hdr_type = HTTP2_PRIORITY then type_process_priority c
             else if hdr_type = HTTP2_WINDOW_UPDATE then type_process_window_update c
             else if hdr_type = HTTP2_SETTINGS then type_process_settings c
             else if hdr_type = HTTP2_PUSH_PROMISE then conn_term HTTP2_ECODE_PROTO c
             else if hdr_type = HTTP2_PING then type_process_ping c
             else if hdr_type = HTTP2_RST_STREAM then type_process_rst_stream c
             else if hdr_type = HTTP2_GOAWAY then type_process_goaway c
             else if hdr_type = HTTP2_CONTINUATION then type_process_continuation c
             else type_process_unknown c))"

end
