(* ===== verification/H2_Ctx_Inv.thy ===== *)
theory H2_Ctx_Inv
  imports H2_Frame
begin

text \<open>
  The invariant of the HTTP/2 connection context, and that the operations on streams keep it:
  the scheduler is well formed, the queues hold exactly the streams marked with them, the
  counters agree with the lists, and no pointer of the context is left behind when a stream goes.
\<close>

section \<open>The invariant\<close>

abbreviation (input) ids :: "TfwH2Ctx \<Rightarrow> sid set" where
  "ids c \<equiv> stream_ids (cx_sched c)"

definition queue_ok :: "stream_queue \<Rightarrow> TfwH2Ctx \<Rightarrow> bool" where
  "queue_ok q c \<longleftrightarrow> distinct (q_list (queue_get q c))
     \<and> set (q_list (queue_get q c)) = {s \<in> ids c. st_queue (strm c s) = Some q}
     \<and> q_num (queue_get q c) = of_nat (length (q_list (queue_get q c)))"

text \<open>Streams that wait for a window with data to send.\<close>

definition blocked_set :: "TfwStreamSched \<Rightarrow> sid set" where
  "blocked_set S = {s \<in> stream_ids S. x_is_blocked (st_xmit (sc_stream S s))
                      \<and> x_skb_head (st_xmit (sc_stream S s)) \<noteq> []}"

definition blocked_ok :: "TfwStreamSched \<Rightarrow> bool" where
  "blocked_ok S \<longleftrightarrow> int (card (blocked_set S)) \<le> sc_blocked_streams S"

definition owners_ok :: "TfwH2Ctx \<Rightarrow> bool" where
  "owners_ok c \<longleftrightarrow> set_option (cx_cur_send_headers c) \<subseteq> ids c
     \<and> set_option (cx_cur_recv_headers c) \<subseteq> ids c"

text \<open>Every stream is in a state the stream machine knows; an idle stream has no flags.\<close>

definition state_ok :: "u16 \<Rightarrow> bool" where
  "state_ok st \<longleftrightarrow> stream_state_valid st
     \<and> (tfw_h2_get_stream_state st = HTTP2_STREAM_IDLE \<longrightarrow> st = HTTP2_STREAM_IDLE)"

definition states_ok :: "TfwH2Ctx \<Rightarrow> bool" where
  "states_ok c \<longleftrightarrow> (\<forall>s \<in> ids c. state_ok (st_state (strm c s)))"

definition ctx_ok :: "TfwH2Ctx \<Rightarrow> bool" where
  "ctx_ok c \<longleftrightarrow> sched_ok (cx_sched c) \<and> (\<forall>q. queue_ok q c) \<and> blocked_ok (cx_sched c)
     \<and> cx_streams_num c = of_nat (card (ids c)) \<and> owners_ok c \<and> states_ok c"

section \<open>Projections\<close>

lemma put_strm_proj [simp]:
  "cx_free_entries (put_strm s f c) = cx_free_entries c" "cx_dflt_entry (put_strm s f c) = cx_dflt_entry c"
  "cx_sched (put_strm s f c) = upd_stream s f (cx_sched c)"
  "cx_closed_streams (put_strm s f c) = cx_closed_streams c"
  "cx_idle_streams (put_strm s f c) = cx_idle_streams c"
  "cx_streams_num (put_strm s f c) = cx_streams_num c"
  "cx_cur_send_headers (put_strm s f c) = cx_cur_send_headers c"
  "cx_cur_recv_headers (put_strm s f c) = cx_cur_recv_headers c"
  "cx_cur_stream (put_strm s f c) = cx_cur_stream c"
  "cx_lsettings (put_strm s f c) = cx_lsettings c"
  "cx_rsettings (put_strm s f c) = cx_rsettings c"
  "cx_lstream_id (put_strm s f c) = cx_lstream_id c"
  "cx_hdr (put_strm s f c) = cx_hdr c" "cx_env (put_strm s f c) = cx_env c"
  "cx_sent (put_strm s f c) = cx_sent c" "cx_loc_wnd (put_strm s f c) = cx_loc_wnd c"
  "cx_rem_wnd (put_strm s f c) = cx_rem_wnd c"
  "queue_get q (put_strm s f c) = queue_get q c"
  "strm (put_strm s f c) t = (if t = s then f (strm c s) else strm c t)"
  by (simp_all add: put_strm_def upd_sched_def strm_def queue_get_def split: stream_queue.splits)

lemma stream_ids_upd_stream [simp]: "stream_ids (upd_stream s f S) = stream_ids S"
  by (simp add: stream_ids_def)

lemma queue_upd_proj [simp]:
  "cx_sched (queue_upd q f c) = cx_sched c" "cx_streams_num (queue_upd q f c) = cx_streams_num c"
  "cx_cur_send_headers (queue_upd q f c) = cx_cur_send_headers c"
  "cx_cur_recv_headers (queue_upd q f c) = cx_cur_recv_headers c"
  "cx_cur_stream (queue_upd q f c) = cx_cur_stream c"
  "cx_lsettings (queue_upd q f c) = cx_lsettings c"
  "cx_rsettings (queue_upd q f c) = cx_rsettings c"
  "cx_lstream_id (queue_upd q f c) = cx_lstream_id c"
  "cx_hdr (queue_upd q f c) = cx_hdr c" "cx_env (queue_upd q f c) = cx_env c"
  "cx_sent (queue_upd q f c) = cx_sent c" "cx_free_entries (queue_upd q f c) = cx_free_entries c"
  "cx_dflt_entry (queue_upd q f c) = cx_dflt_entry c"
  "queue_get r (queue_upd q f c) = (if r = q then f (queue_get q c) else queue_get r c)"
  "strm (queue_upd q f c) t = strm c t"
  by (cases q; simp add: queue_upd_def queue_get_def strm_def split: stream_queue.split)+

lemma state_ok_simps [simp]:
  "state_ok HTTP2_STREAM_IDLE" "state_ok (tfw_h2_set_stream_state HTTP2_STREAM_CLOSED st)"
  by (simp add: state_ok_def stream_state_valid_def tfw_h2_get_stream_state_def)
    (simp add: state_ok_def stream_state_valid_def get_set_state)

text \<open>The invariant looks only at these parts of the context.\<close>

lemma ctx_ok_cong:
  assumes "cx_sched c' = cx_sched c" "cx_closed_streams c' = cx_closed_streams c"
    and "cx_idle_streams c' = cx_idle_streams c" "cx_streams_num c' = cx_streams_num c"
    and "cx_cur_send_headers c' = cx_cur_send_headers c"
    and "cx_cur_recv_headers c' = cx_cur_recv_headers c"
  shows "ctx_ok c' = ctx_ok c"
proof -
  have "queue_get q c' = queue_get q c" "strm c' = strm c" for q
    using assms by (auto simp: queue_get_def strm_def fun_eq_iff split: stream_queue.splits)
  with assms show ?thesis
    by (simp add: ctx_ok_def queue_ok_def owners_ok_def states_ok_def)
qed

lemma ctx_okD:
  assumes "ctx_ok c"
  shows "sched_ok (cx_sched c)" "queue_ok q c" "blocked_ok (cx_sched c)"
    and "cx_streams_num c = of_nat (card (ids c))" "owners_ok c" "states_ok c"
  using assms by (auto simp: ctx_ok_def)

text \<open>What the operations on streams leave alone.\<close>

definition ctx_rest :: "TfwH2Ctx \<Rightarrow> TfwH2Ctx" where
  "ctx_rest c = c\<lparr>cx_sched := tfw_h2_init_stream_sched, cx_closed_streams := empty_queue,
     cx_idle_streams := empty_queue, cx_streams_num := 0, cx_cur_send_headers := None,
     cx_cur_recv_headers := None, cx_free_entries := 0, cx_dflt_entry := (\<lambda>_. False),
     cx_freed_msgs := [], cx_allocs := 0\<rparr>"

lemma ctx_rest_upd [simp]:
  "ctx_rest (c\<lparr>cx_sched := S\<rparr>) = ctx_rest c" "ctx_rest (c\<lparr>cx_streams_num := n\<rparr>) = ctx_rest c"
  "ctx_rest (c\<lparr>cx_freed_msgs := ms\<rparr>) = ctx_rest c" "ctx_rest (c\<lparr>cx_allocs := k\<rparr>) = ctx_rest c"
  "ctx_rest (c\<lparr>cx_free_entries := k\<rparr>) = ctx_rest c" "ctx_rest (c\<lparr>cx_dflt_entry := b\<rparr>) = ctx_rest c"
  "ctx_rest (put_strm s f c) = ctx_rest c" "ctx_rest (queue_upd q g c) = ctx_rest c"
  "ctx_rest (ctx_reset_stream_on_close s c) = ctx_rest c" "ctx_rest (upd_sched h c) = ctx_rest c"
  by (simp_all add: ctx_rest_def put_strm_def upd_sched_def queue_upd_def ctx_reset_stream_on_close_def
      split: stream_queue.split)

lemma ctx_rest_proj [simp]:
  "cx_lsettings (ctx_rest c) = cx_lsettings c"
  "cx_rsettings (ctx_rest c) = cx_rsettings c"
  "cx_lstream_id (ctx_rest c) = cx_lstream_id c"
  "cx_cur_stream (ctx_rest c) = cx_cur_stream c"
  "cx_hdr (ctx_rest c) = cx_hdr c"
  "cx_priority (ctx_rest c) = cx_priority c"
  "cx_env (ctx_rest c) = cx_env c"
  "cx_loc_wnd (ctx_rest c) = cx_loc_wnd c"
  "cx_rem_wnd (ctx_rest c) = cx_rem_wnd c"
  "cx_sent (ctx_rest c) = cx_sent c"
  "cx_plen (ctx_rest c) = cx_plen c"
  "cx_state (ctx_rest c) = cx_state c"
  "cx_to_read (ctx_rest c) = cx_to_read c"
  "cx_stat (ctx_rest c) = cx_stat c"
  "cx_rlen (ctx_rest c) = cx_rlen c"
  "cx_rbuf (ctx_rest c) = cx_rbuf c"
  by (simp_all add: ctx_rest_def)

lemma ctx_restD:
  assumes "ctx_rest c' = ctx_rest c"
  shows "cx_lsettings c' = cx_lsettings c" "cx_rsettings c' = cx_rsettings c"
    and "cx_lstream_id c' = cx_lstream_id c" "cx_cur_stream c' = cx_cur_stream c"
    and "cx_hdr c' = cx_hdr c" "cx_priority c' = cx_priority c" "cx_env c' = cx_env c"
    and "cx_loc_wnd c' = cx_loc_wnd c" "cx_rem_wnd c' = cx_rem_wnd c" "cx_sent c' = cx_sent c"
    and "cx_plen c' = cx_plen c" "cx_state c' = cx_state c" "cx_to_read c' = cx_to_read c"
    and "cx_stat c' = cx_stat c" "cx_rlen c' = cx_rlen c" "cx_rbuf c' = cx_rbuf c"
  using arg_cong [OF assms, of cx_lsettings]
    arg_cong [OF assms, of cx_rsettings]
    arg_cong [OF assms, of cx_lstream_id]
    arg_cong [OF assms, of cx_cur_stream]
    arg_cong [OF assms, of cx_hdr]
    arg_cong [OF assms, of cx_priority]
    arg_cong [OF assms, of cx_env]
    arg_cong [OF assms, of cx_loc_wnd]
    arg_cong [OF assms, of cx_rem_wnd]
    arg_cong [OF assms, of cx_sent]
    arg_cong [OF assms, of cx_plen]
    arg_cong [OF assms, of cx_state]
    arg_cong [OF assms, of cx_to_read]
    arg_cong [OF assms, of cx_stat]
    arg_cong [OF assms, of cx_rlen]
    arg_cong [OF assms, of cx_rbuf]
  by simp_all

section \<open>Updates of a stream that the scheduler does not see\<close>

lemma sched_ok_upd_stream:
  assumes "st_sched_node (f (sc_stream S s)) = st_sched_node (sc_stream S s)"
    and "st_sched_state (f (sc_stream S s)) = st_sched_state (sc_stream S s)"
    and "st_weight (f (sc_stream S s)) = st_weight (sc_stream S s)"
    and "xmit_active (st_xmit (f (sc_stream S s))) = xmit_active (st_xmit (sc_stream S s))"
  shows "sched_ok (upd_stream s f S) = sched_ok S"
proof -
  let ?S = "upd_stream s f S"
  have act: "tfw_h2_stream_is_active ?S = tfw_h2_stream_is_active S"
    using assms(4) by (auto simp: fun_eq_iff tfw_h2_stream_is_active_def xmit_active_def)
  have "inv_tree ?S = inv_tree S" by (rule inv_tree_cong) auto
  moreover have "inv_lists ?S = inv_lists S"
    by (rule inv_lists_cong) (use assms in \<open>auto simp: stream_weight_def fun_eq_iff\<close>)
  moreover have "inv_cnt settled_cnt ?S = inv_cnt settled_cnt S"
    by (rule inv_cnt_cong) (use act in auto)
  moreover have "linked_ok ?S t = linked_ok S t" for t
    using assms act by (auto simp: linked_ok_def live_def split: option.splits)
  ultimately show ?thesis by (simp add: sched_ok_def sched_inv_def)
qed

definition xmit_same :: "(TfwStream \<Rightarrow> TfwStream) \<Rightarrow> TfwStream \<Rightarrow> bool" where
  "xmit_same f t \<longleftrightarrow> st_sched_node (f t) = st_sched_node t \<and> st_sched_state (f t) = st_sched_state t
     \<and> st_weight (f t) = st_weight t \<and> st_xmit (f t) = st_xmit t"

lemma sched_ok_put:
  assumes "xmit_same f (sc_stream S s)"
  shows "sched_ok (upd_stream s f S) = sched_ok S" "blocked_ok (upd_stream s f S) = blocked_ok S"
proof -
  show "sched_ok (upd_stream s f S) = sched_ok S"
    using assms by (intro sched_ok_upd_stream) (auto simp: xmit_same_def)
  have "blocked_set (upd_stream s f S) = blocked_set S"
    using assms by (auto simp: blocked_set_def xmit_same_def)
  then show "blocked_ok (upd_stream s f S) = blocked_ok S" by (simp add: blocked_ok_def)
qed

lemma put_state_ok:
  assumes "xmit_same f (strm c s)" "st_queue (f (strm c s)) = st_queue (strm c s)"
    and "state_ok (st_state (f (strm c s)))" "ctx_ok c"
  shows "ctx_ok (put_strm s f c)"
proof -
  have "queue_ok q (put_strm s f c) = queue_ok q c" for q
    using assms(2) by (auto simp: queue_ok_def)
  moreover have "states_ok (put_strm s f c)"
    using assms(3,4) by (simp add: ctx_ok_def states_ok_def)
  ultimately show ?thesis
    using assms(1,4) sched_ok_put [of f "cx_sched c" s]
    by (simp add: ctx_ok_def owners_ok_def strm_def)
qed

lemma put_strm_ok:
  assumes "xmit_same f (strm c s)" "st_queue (f (strm c s)) = st_queue (strm c s)"
    and "st_state (f (strm c s)) = st_state (strm c s)"
  shows "ctx_ok (put_strm s f c) = ctx_ok c"
proof -
  have "queue_ok q (put_strm s f c) = queue_ok q c" for q
    using assms(2) by (auto simp: queue_ok_def)
  moreover have "states_ok (put_strm s f c) = states_ok c"
    using assms(3) by (auto simp: states_ok_def)
  ultimately show ?thesis
    using assms(1) sched_ok_put [of f "cx_sched c" s]
    by (simp add: ctx_ok_def owners_ok_def strm_def)
qed

lemma postorder_distinct: "bst (t :: sid tree) \<Longrightarrow> distinct (postorder t)"
  by (induction t) (auto, force)

text \<open>The scheduler may change as long as it keeps what the context knows about its streams.\<close>

lemma ctx_ok_sched:
  assumes ok: "ctx_ok c" and S: "sched_ok S" "blocked_ok S" "sc_streams S = sc_streams (cx_sched c)"
    and t: "\<And>t. st_queue (sc_stream S t) = st_queue (strm c t)" "\<And>t. st_state (sc_stream S t) = st_state (strm c t)"
  shows "ctx_ok (c\<lparr>cx_sched := S\<rparr>)"
proof -
  have "queue_ok q (c\<lparr>cx_sched := S\<rparr>) = queue_ok q c" for q
    using S(3) t(1) by (simp add: queue_ok_def queue_get_def stream_ids_def strm_def split: stream_queue.split)
  then show ?thesis
    using ok S t(2) by (simp add: ctx_ok_def stream_ids_def owners_ok_def states_ok_def strm_def)
qed

section \<open>Queues\<close>

lemma finite_ids [simp]: "finite (stream_ids S)"
  by (simp add: stream_ids_def)

lemma card_ids_less: "card (stream_ids S) < 2 ^ 64"
proof -
  have "card (stream_ids S) \<le> card (UNIV :: sid set)" by (intro card_mono) auto
  also have "\<dots> < 2 ^ 64" by (simp add: card_word)
  finally show ?thesis .
qed

lemma queue_length_less:
  assumes "queue_ok q c"
  shows "length (q_list (queue_get q c)) < 2 ^ 64"
proof -
  have "length (q_list (queue_get q c)) = card {s \<in> ids c. st_queue (strm c s) = Some q}"
    using assms distinct_card [of "q_list (queue_get q c)"] by (simp add: queue_ok_def)
  also have "\<dots> \<le> card (ids c)" by (intro card_mono) auto
  finally show ?thesis using card_ids_less [of "cx_sched c"] by linarith
qed

lemma of_nat_u64_eq_0: "n < 2 ^ 64 \<Longrightarrow> (of_nat n :: u64) = 0 \<longleftrightarrow> n = 0"
  using nat_dvd_not_less [of n "2 ^ 64"] by (auto simp: word_of_nat_eq_0_iff)


text \<open>Set the queue mark of a stream; everything else about it stays.\<close>

abbreviation (input) set_queue :: "stream_queue option \<Rightarrow> TfwStream \<Rightarrow> TfwStream" where
  "set_queue q t \<equiv> t\<lparr>st_queue := q\<rparr>"

lemma queue_upd_cong:
  "f (queue_get q c) = g (queue_get q c) \<Longrightarrow> queue_upd q f c = queue_upd q g c"
  by (cases q) (simp_all add: queue_upd_def queue_get_def)

lemma upd_stream_idem: "f (sc_stream S s) = sc_stream S s \<Longrightarrow> upd_stream s f S = S"
  by (simp add: upd_stream_def)

lemma set_queue_idem: "st_queue t = q \<Longrightarrow> set_queue q t = t"
  by (cases t) simp

lemma set_queue_msg_idem: "st_msg t = None \<Longrightarrow> t\<lparr>st_queue := q, st_msg := None\<rparr> = set_queue q t"
  by (cases t) simp

lemma add_at_ok:
  assumes ok: "ctx_ok c" and s: "s \<in> ids c" "st_queue (strm c s) = None"
    and l: "q_list (queue_get q c) = xs @ ys"
  shows "ctx_ok (put_strm s (set_queue (Some q))
           (queue_upd q (\<lambda>l. l\<lparr>q_list := xs @ s # ys, q_num := q_num l + 1\<rparr>) c))" (is "ctx_ok ?c")
proof -
  have "queue_ok r ?c" for r
  proof (cases "r = q")
    case True
    have q: "queue_ok q c" by (rule ctx_okD(2) [OF ok])
    then have "set (xs @ ys) = {s \<in> ids c. st_queue (strm c s) = Some q}"
      unfolding queue_ok_def l by blast
    then have "s \<notin> set (xs @ ys)" using s(2) by simp
    then have "s \<notin> set xs" "s \<notin> set ys" by simp_all
    with True q s l show ?thesis by (auto simp: queue_ok_def)
  next
    case False
    have "queue_ok r c" by (rule ctx_okD(2) [OF ok])
    with False s show ?thesis by (auto simp: queue_ok_def)
  qed
  moreover have "xmit_same (set_queue (Some q)) (sc_stream (cx_sched c) s)"
    by (simp add: xmit_same_def)
  ultimately show ?thesis
    using ok sched_ok_put [of "set_queue (Some q)" "cx_sched c" s]
    by (simp add: ctx_ok_def owners_ok_def states_ok_def)
qed

lemma add_to_queue_ok:
  assumes ok: "ctx_ok c" and s: "s \<in> ids c"
  shows "ctx_ok (tfw_h2_stream_add_to_queue_nolock q s c)"
  using ok add_at_ok [OF ok s, of q "q_list (queue_get q c)" "[]"]
    queue_upd_cong [of "\<lambda>l. l\<lparr>q_list := q_list l @ [s], q_num := q_num l + 1\<rparr>" q c
      "\<lambda>l. l\<lparr>q_list := q_list (queue_get q c) @ [s], q_num := q_num l + 1\<rparr>"]
  by (auto simp: tfw_h2_stream_add_to_queue_nolock_def)

lemma add_to_queue_proj [simp]:
  "ids (tfw_h2_stream_add_to_queue_nolock q s c) = ids c"
  "cx_streams_num (tfw_h2_stream_add_to_queue_nolock q s c) = cx_streams_num c"
  "cx_cur_stream (tfw_h2_stream_add_to_queue_nolock q s c) = cx_cur_stream c"
  "cx_lsettings (tfw_h2_stream_add_to_queue_nolock q s c) = cx_lsettings c"
  "cx_hdr (tfw_h2_stream_add_to_queue_nolock q s c) = cx_hdr c"
  "cx_lstream_id (tfw_h2_stream_add_to_queue_nolock q s c) = cx_lstream_id c"
  by (auto simp: tfw_h2_stream_add_to_queue_nolock_def)

text \<open>Deletion from a queue depends on nothing but the queues.\<close>

lemma del_from_queue_eq:
  assumes qs: "\<And>r. queue_ok r c" and s: "s \<in> ids c"
  shows "tfw_h2_stream_del_from_queue_nolock s c =
    (case st_queue (strm c s) of
       None \<Rightarrow> Some c
     | Some q \<Rightarrow> Some (put_strm s (set_queue None)
         (queue_upd q (\<lambda>l. l\<lparr>q_list := remove1 s (q_list l), q_num := q_num l - 1\<rparr>) c)))"
proof (cases "st_queue (strm c s)")
  case (Some q)
  have q: "queue_ok q c" by (rule qs)
  with s Some have "q_list (queue_get q c) \<noteq> []" by (auto simp: queue_ok_def)
  with q queue_length_less [OF q] have "q_num (queue_get q c) \<noteq> 0"
    by (simp add: queue_ok_def of_nat_u64_eq_0)
  with Some show ?thesis by (simp add: tfw_h2_stream_del_from_queue_nolock_def)
qed (simp add: tfw_h2_stream_del_from_queue_nolock_def)

lemma del_from_queue_queues:
  assumes qs: "\<And>r. queue_ok r c" and s: "s \<in> ids c"
  shows "\<exists>c'. tfw_h2_stream_del_from_queue_nolock s c = Some c' \<and> (\<forall>r. queue_ok r c')
    \<and> cx_sched c' = upd_stream s (set_queue None) (cx_sched c)
    \<and> (\<forall>r. q_list (queue_get r c') = remove1 s (q_list (queue_get r c)))
    \<and> cx_streams_num c' = cx_streams_num c \<and> ctx_rest c' = ctx_rest c
    \<and> cx_free_entries c' = cx_free_entries c \<and> cx_dflt_entry c' = cx_dflt_entry c
    \<and> cx_cur_send_headers c' = cx_cur_send_headers c \<and> cx_cur_recv_headers c' = cx_cur_recv_headers c"
proof (cases "st_queue (strm c s)")
  case None
  have "s \<notin> set (q_list (queue_get q c))" for q
    using qs [of q] None s by (auto simp: queue_ok_def)
  moreover have "upd_stream s (set_queue None) (cx_sched c) = cx_sched c"
    using None by (intro upd_stream_idem set_queue_idem) (simp add: strm_def)
  ultimately show ?thesis
    using None qs by (simp add: del_from_queue_eq [OF qs s] remove1_idem)
next
  case (Some q')
  let ?c = "put_strm s (set_queue None)
         (queue_upd q' (\<lambda>l. l\<lparr>q_list := remove1 s (q_list l), q_num := q_num l - 1\<rparr>) c)"
  have sq: "s \<in> set (q_list (queue_get q' c))" using qs [of q'] Some s by (auto simp: queue_ok_def)
  have nsq: "s \<notin> set (q_list (queue_get r c))" if "r \<noteq> q'" for r
    using qs [of r] Some that by (auto simp: queue_ok_def)
  have "queue_ok r ?c" for r
  proof (cases "r = q'")
    case True
    obtain n where "length (q_list (queue_get q' c)) = Suc n"
      using sq by (cases "q_list (queue_get q' c)") auto
    with True qs [of q'] sq s show ?thesis
      by (auto simp: queue_ok_def length_remove1)
  next
    case False
    with qs [of r] nsq [of r] Some s show ?thesis by (auto simp: queue_ok_def)
  qed
  with Some nsq show ?thesis
    by (auto simp: del_from_queue_eq [OF qs s] remove1_idem)
qed

lemma del_from_queue_ok:
  assumes ok: "ctx_ok c" and s: "s \<in> ids c"
  shows "\<exists>c'. tfw_h2_stream_del_from_queue_nolock s c = Some c' \<and> ctx_ok c'
    \<and> cx_sched c' = upd_stream s (set_queue None) (cx_sched c)
    \<and> q_list (queue_get q c') = remove1 s (q_list (queue_get q c))
    \<and> cx_streams_num c' = cx_streams_num c \<and> ctx_rest c' = ctx_rest c"
proof -
  have "xmit_same (set_queue None) (sc_stream (cx_sched c) s)"
    by (simp add: xmit_same_def)
  with ok sched_ok_put [of "set_queue None" "cx_sched c" s] del_from_queue_queues [OF ctx_okD(2) [OF ok] s]
  show ?thesis
    by (auto simp: ctx_ok_def owners_ok_def states_ok_def strm_def)
qed

lemma upd_stream_comp: "upd_stream s f (upd_stream s g S) = upd_stream s (f \<circ> g) S"
  by (simp add: upd_stream_def comp_def)

lemma unlink_ok:
  assumes ok: "ctx_ok c" and s: "s \<in> ids c"
  shows "\<exists>c'. tfw_h2_stream_unlink_nolock s c = Some c' \<and> ctx_ok c'
    \<and> cx_sched c' = upd_stream s (\<lambda>t. t\<lparr>st_queue := None, st_msg := None\<rparr>) (cx_sched c)
    \<and> q_list (queue_get q c') = remove1 s (q_list (queue_get q c))
    \<and> cx_streams_num c' = cx_streams_num c \<and> ctx_rest c' = ctx_rest c"
proof -
  obtain d where d: "tfw_h2_stream_del_from_queue_nolock s c = Some d" "ctx_ok d"
    "cx_sched d = upd_stream s (set_queue None) (cx_sched c)"
    "q_list (queue_get q d) = remove1 s (q_list (queue_get q c))"
    "cx_streams_num d = cx_streams_num c" "ctx_rest d = ctx_rest c"
    using del_from_queue_ok [OF ok s, of q] by blast
  let ?d = "put_strm s (\<lambda>t. t\<lparr>st_msg := None\<rparr>) d"
  have okd: "ctx_ok ?d" using d(2) by (simp add: put_strm_ok xmit_same_def)
  have fr: "ctx_ok (x\<lparr>cx_freed_msgs := ms\<rparr>) = ctx_ok x" "queue_get q (x\<lparr>cx_freed_msgs := ms\<rparr>) = queue_get q x"
    for x ms by (rule ctx_ok_cong; simp) (simp add: queue_get_def split: stream_queue.split)
  show ?thesis
  proof (cases "st_msg (strm c s)")
    case None
    then have "(sc_stream (cx_sched c) s)\<lparr>st_queue := None, st_msg := None\<rparr>
        = set_queue None (sc_stream (cx_sched c) s)"
      by (intro set_queue_msg_idem) (simp add: strm_def)
    then have "cx_sched d = upd_stream s (\<lambda>t. t\<lparr>st_queue := None, st_msg := None\<rparr>) (cx_sched c)"
      using d(3) by (simp only: upd_stream_def)
    with None d show ?thesis by (simp add: tfw_h2_stream_unlink_nolock_def)
  next
    case (Some b)
    then show ?thesis
      using d okd by (cases b) (simp_all add: tfw_h2_stream_unlink_nolock_def fr upd_stream_comp comp_def Let_def)
  qed
qed


section \<open>A stream is created\<close>

definition enter_stream :: "sid \<Rightarrow> sid tree \<Rightarrow> TfwStream \<Rightarrow> TfwStreamSched \<Rightarrow> TfwStreamSched" where
  "enter_stream i t x S = S\<lparr>sc_streams := t, sc_stream := (sc_stream S)(i := x),
     sc_entry := (sc_entry S)(i := tfw_h2_init_stream_sched_entry)\<rparr>"

lemma enter_stream_dep:
  assumes ok: "sched_ok S" and i: "i \<noteq> sched_root" and ins: "streams_insert i (sc_streams S) = Some t"
    and x: "st_sched_node x = Unlinked" "st_sched_state x = HTTP2_STREAM_SCHED_STATE_UNKNOWN"
    and dep_def: "dep = tfw_h2_find_stream_dep S d"
  shows "i \<notin> stream_ids S \<and> (\<exists>S'. tfw_h2_add_stream_dep i dep excl (enter_stream i t x S) = Some S'
    \<and> sched_ok S' \<and> stream_ids S' = insert i (stream_ids S) \<and> par S' i = Some dep
    \<and> (\<forall>u. unlinked (sc_stream S' u) = unlinked (if u = i then x else sc_stream S u))
    \<and> sc_blocked_streams S' = sc_blocked_streams S
    \<and> (\<forall>u. u \<noteq> i \<longrightarrow> par S' u = (if excl \<and> par S u = Some dep then Some i else par S u)))"
proof -
  let ?S = "enter_stream i t x S"
  have inv: "sched_inv settled_cnt S" using ok by (simp add: sched_ok_def)
  have i': "i \<notin> stream_ids S"
    using set_tree_insert [of "sc_streams S" i] inv ins
    by (auto simp: sched_inv_def inv_tree_def stream_ids_def)
  have S: "sched_inv settled_cnt ?S" "stream_ids ?S = insert i (stream_ids S)" "par ?S i = None"
    "\<forall>u. par ?S u = par S u"
    using up_insert_ids [OF inv i ins, of ?S] x by (auto simp: enter_stream_def fresh_entry_def)
  have dep: "dep \<in> sched_keys S" "dep \<noteq> i"
    using i i' find_stream_dep_key [OF inv, of d] by (auto simp: dep_def sched_keys_def)
  have "(u, i) \<notin> up ?S" for u
    using S(4) inv_parD(2) [OF inv, of u i] i' i by (auto simp: up_def sched_keys_def)
  then have "(dep, i) \<notin> (up ?S)\<^sup>*" using dep(2) by (auto elim: rtranclE)
  moreover have "dep \<in> sched_keys ?S" using dep(1) S(2) by (auto simp: sched_keys_def)
  ultimately obtain S' where S': "tfw_h2_add_stream_dep i dep excl ?S = Some S'"
    "sched_inv settled_cnt S'" "same_streams ?S S'" "par S' i = Some dep"
    "\<forall>u. u \<noteq> i \<longrightarrow> par S' u = (if excl \<and> par ?S u = Some dep then Some i else par ?S u)"
    using add_stream_dep_ok [OF S(1), of i dep excl] S(2,3) by auto
  have ids': "stream_ids S' = insert i (stream_ids S)" using same_streamsD(1) [OF S'(3)] S(2) by simp
  moreover have "par S' u \<noteq> None" if "u \<in> stream_ids S'" for u
    using that S'(4,5) S(4) ids' ok by (cases "u = i") (auto simp: sched_ok_def)
  ultimately show ?thesis
    using S' S(4) i' by (auto simp: sched_ok_def same_streams_def enter_stream_def)
qed

text \<open>Contexts that differ at most in the bookkeeping of memory.\<close>

definition same_mem :: "TfwH2Ctx \<Rightarrow> TfwH2Ctx \<Rightarrow> bool" where
  "same_mem c c' \<longleftrightarrow> ctx_rest c' = ctx_rest c \<and> cx_sched c' = cx_sched c
     \<and> cx_closed_streams c' = cx_closed_streams c \<and> cx_idle_streams c' = cx_idle_streams c
     \<and> cx_streams_num c' = cx_streams_num c \<and> cx_cur_send_headers c' = cx_cur_send_headers c
     \<and> cx_cur_recv_headers c' = cx_cur_recv_headers c"

lemma same_memD:
  assumes "same_mem c c'"
  shows "ctx_ok c' = ctx_ok c" "ctx_rest c' = ctx_rest c" "cx_sched c' = cx_sched c"
    and "cx_streams_num c' = cx_streams_num c" "queue_get q c' = queue_get q c"
    and "cx_cur_send_headers c' = cx_cur_send_headers c"
    and "cx_cur_recv_headers c' = cx_cur_recv_headers c"
  using assms ctx_ok_cong [of c' c]
  by (simp_all add: same_mem_def queue_get_def split: stream_queue.split)

lemma same_mem_trans: "same_mem c d \<Longrightarrow> same_mem d e \<Longrightarrow> same_mem c e"
  by (simp add: same_mem_def)

lemma same_memI:
  "kmem_alloc c = (a, c') \<Longrightarrow> same_mem c c'"
  "tfw_h2_alloc_stream_sched_entry c = (a, b, c') \<Longrightarrow> same_mem c c'"
  "same_mem c (tfw_h2_free_stream_sched_entry d c)"
  by (auto simp: same_mem_def kmem_alloc_def tfw_h2_alloc_stream_sched_entry_def
      tfw_h2_free_stream_sched_entry_def split: if_splits)

lemma enter_ctx_ok:
  assumes ok: "ctx_ok c" and i: "i \<notin> ids c"
    and S': "sched_ok S'" "stream_ids S' = insert i (ids c)"
      "\<forall>u. unlinked (sc_stream S' u) = unlinked (if u = i then x else sc_stream (cx_sched c) u)"
      "sc_blocked_streams S' = sc_blocked_streams (cx_sched c)"
    and x: "st_queue x = None" "\<not> x_is_blocked (st_xmit x)" "st_state x = HTTP2_STREAM_IDLE"
    and c': "cx_sched c' = S'" "\<And>q. queue_get q c' = queue_get q c"
      "cx_streams_num c' = cx_streams_num c + 1" "cx_cur_send_headers c' = cx_cur_send_headers c"
      "cx_cur_recv_headers c' = cx_cur_recv_headers c"
  shows "ctx_ok c'"
proof -
  have fld: "st_queue (sc_stream S' u) = st_queue (if u = i then x else sc_stream (cx_sched c) u)"
    "st_xmit (sc_stream S' u) = st_xmit (if u = i then x else sc_stream (cx_sched c) u)"
    "st_state (sc_stream S' u) = st_state (if u = i then x else sc_stream (cx_sched c) u)" for u
    using arg_cong [OF spec [OF S'(3), of u], of st_queue] arg_cong [OF spec [OF S'(3), of u], of st_xmit]
      arg_cong [OF spec [OF S'(3), of u], of st_state] by simp_all
  have "queue_ok q c'" for q
    using ctx_okD(2) [OF ok, of q] i fld(1) x(1) S'(2)
    by (auto simp: queue_ok_def c' strm_def split: if_splits)
  moreover have "blocked_set S' = blocked_set (cx_sched c)"
    using i fld(2) x(2) S'(2) by (auto simp: blocked_set_def split: if_splits)
  then have "blocked_ok S'" using ctx_okD(3) [OF ok] S'(4) by (simp add: blocked_ok_def)
  moreover have "owners_ok c'" using ctx_okD(5) [OF ok] S'(2) by (auto simp: owners_ok_def c')
  moreover have "states_ok c'"
    using ctx_okD(6) [OF ok] S'(2) fld(3) x(3) state_ok_simps(1) by (simp add: states_ok_def c' strm_def)
  ultimately show ?thesis
    using S'(1,2) ctx_okD(4) [OF ok] i by (simp add: ctx_ok_def c')
qed

lemma create_ok:
  assumes ok: "ctx_ok c" and i: "i \<noteq> sched_root"
  obtains (failed) c' where "tfw_h2_stream_create i c = Some (None, c')" "same_mem c c'"
  | (created) c' where "tfw_h2_stream_create i c = Some (Some i, c')" "i \<notin> ids c" "ctx_ok c'"
      "ctx_rest c' = ctx_rest c" "ids c' = insert i (ids c)"
      "cx_streams_num c' = cx_streams_num c + 1"
      "par (cx_sched c') i = Some (tfw_h2_find_stream_dep (cx_sched c) (pri_stream_id (cx_priority c)))"
      "\<forall>u. unlinked (strm c' u) = unlinked (if u = i then tfw_h2_init_stream (pri_weight (cx_priority c))
         (uint (s_wnd_sz (cx_lsettings c))) (uint (s_wnd_sz (cx_rsettings c))) else strm c u)"
proof -
  obtain e dflt d where d: "tfw_h2_alloc_stream_sched_entry c = (e, dflt, d)"
    by (cases "tfw_h2_alloc_stream_sched_entry c") auto
  then have sd: "same_mem c d" by (rule same_memI)
  show ?thesis
  proof (cases "e \<and> streams_insert i (sc_streams (cx_sched c)) \<noteq> None \<and> fst (kmem_alloc d)")
    case False
    have "\<exists>c'. tfw_h2_stream_create i c = Some (None, c') \<and> same_mem c c'"
      using False d sd same_memI(3) same_memD(3) [OF sd] same_mem_trans [OF sd]
        same_mem_trans [OF same_memI(1) [of d] same_memI(3)]
      by (auto simp: tfw_h2_stream_create_def tfw_h2_add_stream_def Let_def split: option.splits prod.splits)
    with failed show ?thesis by blast
  next
    case True
    then obtain t f where t: "streams_insert i (sc_streams (cx_sched c)) = Some t" "kmem_alloc d = (True, f)" "e"
      by (cases "kmem_alloc d") auto
    have sf: "same_mem c f" using same_mem_trans [OF sd same_memI(1) [OF t(2)]] .
    define pri where "pri = cx_priority c"
    define x where "x = tfw_h2_init_stream (pri_weight pri)
         (uint (s_wnd_sz (cx_lsettings c))) (uint (s_wnd_sz (cx_rsettings c)))"
    have x: "st_sched_node x = Unlinked" "st_sched_state x = HTTP2_STREAM_SCHED_STATE_UNKNOWN"
      "st_queue x = None" "\<not> x_is_blocked (st_xmit x)" "st_state x = HTTP2_STREAM_IDLE"
      by (simp_all add: x_def tfw_h2_init_stream_def zero_stream_def)
    define dep where "dep = tfw_h2_find_stream_dep (cx_sched c) (pri_stream_id pri)"
    obtain S' where S': "i \<notin> ids c" "tfw_h2_add_stream_dep i dep (pri_exclusive pri)
        (enter_stream i t x (cx_sched c)) = Some S'" "sched_ok S'" "stream_ids S' = insert i (ids c)"
      "par S' i = Some dep"
      "\<forall>u. unlinked (sc_stream S' u) = unlinked (if u = i then x else sc_stream (cx_sched c) u)"
      "sc_blocked_streams S' = sc_blocked_streams (cx_sched c)"
      using enter_stream_dep [OF ctx_okD(1) [OF ok] i t(1) x(1,2) dep_def, of "pri_exclusive pri"]
      by blast
    let ?c = "f\<lparr>cx_sched := S', cx_streams_num := cx_streams_num c + 1,
                cx_dflt_entry := (cx_dflt_entry f)(i := dflt)\<rparr>"
    have "tfw_h2_stream_create i c = Some (Some i, ?c)"
      using d t S'(2) same_memD(2,3,4) [OF sd] same_memD(2,3,4) [OF sf]
        ctx_restD(1,2,6) [OF same_memD(2) [OF sd]]
      by (simp add: tfw_h2_stream_create_def tfw_h2_add_stream_def Let_def on_sched_def upd_sched_def
          enter_stream_def pri_def dep_def x_def)
    moreover have "ctx_ok ?c"
      by (rule enter_ctx_ok [OF ok S'(1,3,4,6,7) x(3,4,5)])
        (use sf in \<open>auto simp: same_mem_def queue_get_def split: stream_queue.splits\<close>)
    ultimately show ?thesis
      using created [of ?c] S' same_memD(2) [OF sf] by (simp add: strm_def pri_def dep_def x_def)
  qed
qed


section \<open>A stream is removed\<close>

lemma purge_fields [simp]:
  "st_sched_node (tfw_h2_stream_purge_all_and_free_response t) = st_sched_node t"
  "st_sched_state (tfw_h2_stream_purge_all_and_free_response t) = st_sched_state t"
  "st_queue (tfw_h2_stream_purge_all_and_free_response t) = st_queue t"
  "\<not> x_resp (st_xmit (tfw_h2_stream_purge_all_and_free_response t))"
  "x_skb_head (st_xmit (tfw_h2_stream_purge_all_and_free_response t)) = []"
  by (simp_all add: tfw_h2_stream_purge_all_and_free_response_def tfw_h2_stream_purge_all_def)

text \<open>The scheduler after a stream was taken out of the tree and out of the storage.\<close>

definition drop_stream :: "sid \<Rightarrow> TfwStreamSched \<Rightarrow> TfwStreamSched" where
  "drop_stream s S =
     (upd_stream s tfw_h2_stream_purge_all_and_free_response S)\<lparr>sc_streams := rb_erase s (sc_streams S)\<rparr>"

lemma drop_stream_proj [simp]:
  "sc_streams (drop_stream s S) = rb_erase s (sc_streams S)" "sc_entry (drop_stream s S) = sc_entry S"
  "t \<noteq> s \<Longrightarrow> sc_stream (drop_stream s S) t = sc_stream S t"
  "sc_blocked_streams (drop_stream s S) = sc_blocked_streams S"
  by (simp_all add: drop_stream_def)

lemma clean_eq:
  "tfw_h2_stream_clean s c =
     map_option (\<lambda>S. tfw_h2_free_stream_sched_entry (cx_dflt_entry c s)
         ((ctx_reset_stream_on_close s c)\<lparr>cx_sched := drop_stream s S\<rparr>)
           \<lparr>cx_streams_num := cx_streams_num c - 1\<rparr>)
       (tfw_h2_remove_stream_dep s (cx_sched c))"
proof (cases "tfw_h2_remove_stream_dep s (cx_sched c)")
  case (Some S)
  then show ?thesis
    by (simp add: tfw_h2_stream_clean_def tfw_h2_stop_stream_def tfw_h2_delete_stream_def on_sched_def
        strm_def put_strm_def upd_sched_def drop_stream_def ctx_reset_stream_on_close_def Let_def
        tfw_h2_free_stream_sched_entry_def)
qed (simp add: tfw_h2_stream_clean_def tfw_h2_stop_stream_def on_sched_def)

lemma drop_stream_ok:
  assumes ok: "sched_ok S" and blk: "blocked_ok S" and s: "s \<in> stream_ids S" and nt: "\<not> remove_traps S s"
  shows "\<exists>T. tfw_h2_remove_stream_dep s S = Some T \<and> sched_ok (drop_stream s T)
    \<and> blocked_ok (drop_stream s T) \<and> stream_ids (drop_stream s T) = stream_ids S - {s}
    \<and> (\<forall>t. t \<noteq> s \<longrightarrow> no_weight (sc_stream (drop_stream s T) t) = no_weight (sc_stream S t))
    \<and> (\<forall>t. t \<noteq> s \<longrightarrow> par (drop_stream s T) t = (if par S t = Some s then par S s else par S t))"
proof -
  have inv: "sched_inv settled_cnt S" using ok by (simp add: sched_ok_def)
  obtain p where p: "par S s = Some p" using ok s by (auto simp: sched_ok_def)
  have ps: "p \<noteq> s" using inv_parD(3) [OF inv p] by auto
  obtain T where T: "tfw_h2_remove_stream_dep s S = Some T" "sched_inv settled_cnt T"
    "sc_streams T = sc_streams S" "sc_blocked_streams T = sc_blocked_streams S"
    "\<forall>t. no_weight (sc_stream T t) = no_weight (sc_stream S t)"
    "\<forall>t. par T t = (if t = s then None else if par S t = Some s then Some p else par S t)"
    using remove_stream_dep_ok [OF inv p] nt by auto
  have "children T s = {}" using T(6) ps by (auto simp: children_def)
  then have D: "sched_inv settled_cnt (drop_stream s T)" "stream_ids (drop_stream s T) = stream_ids S - {s}"
    using erase_inv [OF T(2), of s "drop_stream s T"] T(3,6) s by (auto simp: stream_ids_def)
  have xm: "st_xmit (sc_stream T t) = st_xmit (sc_stream S t)" for t
    using arg_cong [OF spec [OF T(5), of t], of st_xmit] by (simp add: no_weight_def)
  have "blocked_set (drop_stream s T) \<subseteq> blocked_set S"
    using D(2) xm by (auto simp: blocked_set_def)
  then have "card (blocked_set (drop_stream s T)) \<le> card (blocked_set S)"
    by (intro card_mono) (auto simp: blocked_set_def)
  then have "blocked_ok (drop_stream s T)" using blk T(4) by (simp add: blocked_ok_def)
  moreover have "sched_ok (drop_stream s T)"
    using D T(6) ok by (auto simp: sched_ok_def)
  ultimately show ?thesis
    using T D p by auto
qed

lemma clean_ok:
  assumes ok: "ctx_ok c" and s: "s \<in> ids c" "st_queue (strm c s) = None"
  shows "if remove_traps (cx_sched c) s then tfw_h2_stream_clean s c = None
    else \<exists>c'. tfw_h2_stream_clean s c = Some c' \<and> ctx_ok c' \<and> ctx_rest c' = ctx_rest c
      \<and> ids c' = ids c - {s} \<and> cx_streams_num c' = cx_streams_num c - 1
      \<and> (\<forall>q. queue_get q c' = queue_get q c)
      \<and> (\<forall>t. t \<noteq> s \<longrightarrow> no_weight (strm c' t) = no_weight (strm c t))
      \<and> (\<forall>t. t \<noteq> s \<longrightarrow> par (cx_sched c') t
           = (if par (cx_sched c) t = Some s then par (cx_sched c) s else par (cx_sched c) t))"
proof (cases "remove_traps (cx_sched c) s")
  case True
  obtain p where "par (cx_sched c) s = Some p" using ctx_okD(1) [OF ok] s by (auto simp: sched_ok_def)
  with True remove_stream_dep_ok [of "cx_sched c" s p] ctx_okD(1) [OF ok] show ?thesis
    by (simp add: clean_eq sched_ok_def)
next
  case False
  then obtain T where T: "tfw_h2_remove_stream_dep s (cx_sched c) = Some T" "sched_ok (drop_stream s T)"
    "blocked_ok (drop_stream s T)" "stream_ids (drop_stream s T) = ids c - {s}"
    "\<forall>t. t \<noteq> s \<longrightarrow> no_weight (sc_stream (drop_stream s T) t) = no_weight (sc_stream (cx_sched c) t)"
    "\<forall>t. t \<noteq> s \<longrightarrow> par (drop_stream s T) t
       = (if par (cx_sched c) t = Some s then par (cx_sched c) s else par (cx_sched c) t)"
    using drop_stream_ok [OF ctx_okD(1,3) [OF ok] s(1)] by blast
  define d where "d = (ctx_reset_stream_on_close s c)
      \<lparr>cx_sched := drop_stream s T, cx_streams_num := cx_streams_num c - 1\<rparr>"
  have qg: "queue_get q d = queue_get q c" for q
    by (simp add: d_def ctx_reset_stream_on_close_def queue_get_def split: stream_queue.split)
  have idd: "ids d = ids c - {s}" using T(4) by (simp add: d_def)
  have sq: "st_queue (strm d t) = st_queue (strm c t)" if "t \<noteq> s" for t
    using arg_cong [OF T(5) [rule_format, OF that], of st_queue] that by (simp add: d_def strm_def no_weight_def)
  have "t \<in> ids d \<and> st_queue (strm d t) = Some q \<longleftrightarrow> t \<in> ids c \<and> st_queue (strm c t) = Some q" for t q
    using s(2) sq by (cases "t = s") (simp_all add: idd)
  with qg have q: "queue_ok q d" for q
    using ctx_okD(2) [OF ok, of q] by (simp add: queue_ok_def)
  have "owners_ok d"
    using ctx_okD(5) [OF ok] T(4) by (auto simp: d_def owners_ok_def ctx_reset_stream_on_close_def)
  moreover have "st_state (strm d t) = st_state (strm c t)" if "t \<noteq> s" for t
    using arg_cong [OF T(5) [rule_format, OF that], of st_state] that by (simp add: d_def strm_def no_weight_def)
  then have "states_ok d" using ctx_okD(6) [OF ok] by (simp add: states_ok_def idd)
  moreover have "of_nat (card (ids c)) - 1 = (of_nat (card (ids c - {s})) :: u64)"
    by (subst card_Suc_Diff1 [OF _ s(1), symmetric]) simp_all
  ultimately have okd: "ctx_ok d"
    using T q ctx_okD(4) [OF ok] by (simp add: ctx_ok_def d_def)
  let ?c = "tfw_h2_free_stream_sched_entry (cx_dflt_entry c s)
         ((ctx_reset_stream_on_close s c)\<lparr>cx_sched := drop_stream s T\<rparr>)
           \<lparr>cx_streams_num := cx_streams_num c - 1\<rparr>"
  have "same_mem d ?c" 
    by (auto simp: same_mem_def d_def tfw_h2_free_stream_sched_entry_def ctx_reset_stream_on_close_def)
  with okd have "ctx_ok ?c" "ctx_rest ?c = ctx_rest d" "cx_sched ?c = cx_sched d"
    "cx_streams_num ?c = cx_streams_num d" "\<forall>q. queue_get q ?c = queue_get q d"
    using same_memD [of d ?c] by auto
  with False T show ?thesis
    by (auto simp: clean_eq d_def strm_def qg [unfolded d_def])
qed


section \<open>Idle streams\<close>

lemma add_idle_ok:
  assumes ok: "ctx_ok c" and s: "s \<in> ids c" "st_queue (strm c s) = None"
  shows "ctx_ok (tfw_h2_stream_add_idle s c) \<and> ids (tfw_h2_stream_add_idle s c) = ids c
    \<and> ctx_rest (tfw_h2_stream_add_idle s c) = ctx_rest c
    \<and> cx_streams_num (tfw_h2_stream_add_idle s c) = cx_streams_num c"
proof -
  define xs where "xs = q_list (cx_idle_streams c)"
  define bk where "bk = takeWhile (\<lambda>cur. \<not> s > cur) (rev xs)"
  define fr where "fr = dropWhile (\<lambda>cur. \<not> s > cur) (rev xs)"
  have "rev xs = bk @ fr" by (simp add: bk_def fr_def)
  then have "xs = rev fr @ rev bk" by (metis rev_append rev_rev_ident)
  then have "q_list (queue_get Idle_Queue c) = rev fr @ rev bk" by (simp add: queue_get_def xs_def)
  from add_at_ok [OF ok s this] add_to_queue_ok [OF ok s(1)] show ?thesis
    by (auto simp: tfw_h2_stream_add_idle_def xs_def bk_def fr_def Let_def
        tfw_h2_stream_add_to_queue_nolock_def)
qed

abbreviation (input) close_stream :: "TfwStream \<Rightarrow> TfwStream" where
  "close_stream t \<equiv> t\<lparr>st_state := tfw_h2_set_stream_state HTTP2_STREAM_CLOSED (st_state t)\<rparr>"

lemma close_idle_ok:
  assumes ok: "ctx_ok c" and s: "s \<in> ids c"
  shows "\<exists>d. tfw_h2_stream_del_from_queue_nolock s c = Some d
    \<and> (let c' = tfw_h2_stream_add_closed s (put_strm s close_stream d) in
       ctx_ok c' \<and> ids c' = ids c \<and> ctx_rest c' = ctx_rest c \<and> cx_streams_num c' = cx_streams_num c
       \<and> sc_entry (cx_sched c') = sc_entry (cx_sched c))"
proof -
  obtain d where d: "tfw_h2_stream_del_from_queue_nolock s c = Some d" "ctx_ok d"
    "cx_sched d = upd_stream s (set_queue None) (cx_sched c)"
    "cx_streams_num d = cx_streams_num c" "ctx_rest d = ctx_rest c"
    using del_from_queue_ok [OF ok s] by blast
  let ?d = "put_strm s close_stream d"
  have "ctx_ok ?d" using d(2) by (intro put_state_ok) (simp_all add: xmit_same_def)
  moreover have "ids ?d = ids c" using d(3) by simp
  ultimately have "ctx_ok (tfw_h2_stream_add_closed s ?d)"
    using s add_to_queue_ok [of ?d s] by (simp add: tfw_h2_stream_add_closed_def)
  with d \<open>ids ?d = ids c\<close> show ?thesis
    by (simp add: tfw_h2_stream_add_closed_def tfw_h2_stream_add_to_queue_nolock_def Let_def)
qed

lemma remove_idle_loop_ok:
  assumes "ctx_ok c" "set ss \<subseteq> ids c"
  shows "\<exists>c'. remove_idle_loop ss i c = Some c' \<and> ctx_ok c' \<and> ids c' = ids c
    \<and> ctx_rest c' = ctx_rest c \<and> cx_streams_num c' = cx_streams_num c
    \<and> sc_entry (cx_sched c') = sc_entry (cx_sched c)"
  using assms
proof (induction ss arbitrary: c)
  case (Cons s ss)
  obtain d where d: "tfw_h2_stream_del_from_queue_nolock s c = Some d"
    "let c' = tfw_h2_stream_add_closed s (put_strm s close_stream d) in
       ctx_ok c' \<and> ids c' = ids c \<and> ctx_rest c' = ctx_rest c \<and> cx_streams_num c' = cx_streams_num c
       \<and> sc_entry (cx_sched c') = sc_entry (cx_sched c)"
    using close_idle_ok [of c s] Cons.prems by auto
  with Cons.IH [of "tfw_h2_stream_add_closed s (put_strm s close_stream d)"] Cons.prems show ?case
    by (auto simp: Let_def)
qed simp

lemma remove_idle_streams_ok:
  assumes "ctx_ok c"
  shows "\<exists>c'. tfw_h2_remove_idle_streams i c = Some c' \<and> ctx_ok c' \<and> ids c' = ids c
    \<and> ctx_rest c' = ctx_rest c \<and> cx_streams_num c' = cx_streams_num c
    \<and> sc_entry (cx_sched c') = sc_entry (cx_sched c)"
proof -
  have "set (q_list (cx_idle_streams c)) \<subseteq> ids c"
    using ctx_okD(2) [OF assms, of Idle_Queue] by (auto simp: queue_ok_def queue_get_def)
  then show ?thesis
    using remove_idle_loop_ok [OF assms] by (auto simp: tfw_h2_remove_idle_streams_def)
qed

section \<open>Trees without dependencies between streams\<close>

text \<open>
  The tree of a client that declares no dependencies: all streams hang at the root.  Removal of
  a stream from such a tree never divides by zero.
\<close>

definition flat :: "TfwStreamSched \<Rightarrow> bool" where
  "flat S \<longleftrightarrow> (\<forall>s \<in> stream_ids S. children S s = {})"

lemma flat_no_trap: "flat S \<Longrightarrow> s \<in> stream_ids S \<Longrightarrow> \<not> remove_traps S s"
  by (auto simp: flat_def remove_traps_def blocked_children_def active_children_def)

lemma flat_upd_stream [simp]: "flat (upd_stream s f S) = flat S"
  by (simp add: flat_def children_def)

section \<open>Shrinking the queue of closed streams\<close>

text \<open>One turn of the loop.\<close>

definition drop_closed :: "sid \<Rightarrow> TfwH2Ctx \<Rightarrow> TfwH2Ctx option" where
  "drop_closed s c = Option.bind (tfw_h2_stream_unlink_nolock s c) (tfw_h2_stream_clean s)"

lemma unlink_clean_ok:
  assumes ok: "ctx_ok c" and s: "s \<in> ids c"
  shows "if remove_traps (cx_sched c) s then drop_closed s c = None
    else \<exists>c'. drop_closed s c = Some c' \<and> ctx_ok c' \<and> ctx_rest c' = ctx_rest c
      \<and> ids c' = ids c - {s} \<and> cx_streams_num c' = cx_streams_num c - 1
      \<and> (\<forall>q. q_list (queue_get q c') = remove1 s (q_list (queue_get q c)))
      \<and> (flat (cx_sched c) \<longrightarrow> flat (cx_sched c'))"
proof -
  obtain d where d: "tfw_h2_stream_unlink_nolock s c = Some d" "ctx_ok d"
    "cx_sched d = upd_stream s (\<lambda>t. t\<lparr>st_queue := None, st_msg := None\<rparr>) (cx_sched c)"
    "cx_streams_num d = cx_streams_num c" "ctx_rest d = ctx_rest c"
    using unlink_ok [OF ok s] by blast
  have ql: "q_list (queue_get q d) = remove1 s (q_list (queue_get q c))" for q
    using unlink_ok [OF ok s, of q] d(1) by auto
  have "st_queue (strm d s) = None" "s \<in> ids d" using d(3) s by (simp_all add: strm_def)
  moreover have "remove_traps (cx_sched d) s = remove_traps (cx_sched c) s"
    by (simp add: d(3) remove_traps_def children_def blocked_children_def active_children_def
        left_total_def live_def stream_weight_def tfw_h2_stream_is_active_def)
  moreover have "flat (cx_sched c')" if "flat (cx_sched c)" "ids c' = ids c - {s}"
    "\<forall>t. t \<noteq> s \<longrightarrow> par (cx_sched c') t
           = (if par (cx_sched d) t = Some s then par (cx_sched d) s else par (cx_sched d) t)"
    "ctx_ok c'" for c'
  proof -
    have "children (cx_sched c) s = {}" using that(1) s by (simp add: flat_def)
    then have "par (cx_sched c') t = par (cx_sched c) t" if "t \<noteq> s" for t
      using \<open>\<forall>t. t \<noteq> s \<longrightarrow> _\<close> that d(3) by (auto simp: children_def)
    moreover have "par (cx_sched c') s = None"
      using ctx_okD(1) [OF that(4)] that(2) by (auto simp: sched_ok_def sched_inv_def inv_tree_def)
    ultimately have "children (cx_sched c') t \<subseteq> children (cx_sched c) t" for t
      by (auto simp: children_def) (metis option.distinct(1))
    then show ?thesis using that(1,2) by (auto simp: flat_def)
  qed
  ultimately show ?thesis
    using clean_ok [OF d(2), of s] d ql
    by (cases "remove_traps (cx_sched c) s") (auto simp: drop_closed_def)
qed


fun drop_closed_list :: "sid list \<Rightarrow> TfwH2Ctx \<Rightarrow> TfwH2Ctx option" where
  "drop_closed_list [] c = Some c"
| "drop_closed_list (s # ss) c = Option.bind (drop_closed s c) (drop_closed_list ss)"

abbreviation (input) closed_list :: "TfwH2Ctx \<Rightarrow> sid list" where
  "closed_list c \<equiv> q_list (cx_closed_streams c)"

abbreviation (input) max_streams :: "TfwH2Ctx \<Rightarrow> nat" where
  "max_streams c \<equiv> unat (s_max_streams (cx_lsettings c))"

text \<open>How many closed streams have to go.\<close>

definition shrink_count :: "TfwH2Ctx \<Rightarrow> nat" where
  "shrink_count c = max (length (closed_list c) - 5)
     (min (length (closed_list c)) (Suc (card (ids c)) - max_streams c))"

lemma closed_okD:
  assumes "ctx_ok c"
  shows "set (closed_list c) \<subseteq> ids c" "q_num (cx_closed_streams c) = of_nat (length (closed_list c))"
    and "length (closed_list c) < 2 ^ 64"
  using ctx_okD(2) [OF assms, of Closed_Queue] queue_length_less [of Closed_Queue c]
  by (auto simp: queue_ok_def queue_get_def)

lemma of_nat_u64_le: "m < 2 ^ 64 \<Longrightarrow> n < 2 ^ 64 \<Longrightarrow> (of_nat m :: u64) \<le> of_nat n \<longleftrightarrow> m \<le> n"
  by (simp add: word_le_nat_alt unsigned_of_nat take_bit_nat_eq_self)

lemma of_nat_u64_less: "m < 2 ^ 64 \<Longrightarrow> n < 2 ^ 64 \<Longrightarrow> (of_nat m :: u64) < of_nat n \<longleftrightarrow> m < n"
  by (simp add: word_less_nat_alt unsigned_of_nat take_bit_nat_eq_self)

lemma ucast_max_streams: "(ucast (w :: u32) :: u64) = of_nat (unat w)"
  by (simp add: of_nat_unat)

lemma shrink_stops_iff:
  assumes "ctx_ok c"
  shows "q_num (cx_closed_streams c) \<le> TFW_MAX_CLOSED_STREAMS
         \<and> (cx_streams_num c < ucast (s_max_streams (cx_lsettings c)) \<or> q_num (cx_closed_streams c) = 0)
         \<longleftrightarrow> shrink_count c = 0"
proof -
  have M: "unat (s_max_streams (cx_lsettings c)) < 2 ^ 64"
    using unsigned_less [of "s_max_streams (cx_lsettings c)", where 'a = nat] by simp
  have "q_num (cx_closed_streams c) \<le> 5 \<longleftrightarrow> length (closed_list c) \<le> 5"
    using of_nat_u64_le [of "length (closed_list c)" 5] closed_okD [OF assms] by simp
  moreover have "cx_streams_num c < ucast (s_max_streams (cx_lsettings c)) \<longleftrightarrow> card (ids c) < max_streams c"
    unfolding ctx_okD(4) [OF assms] ucast_max_streams by (rule of_nat_u64_less [OF card_ids_less M])
  moreover have "q_num (cx_closed_streams c) = 0 \<longleftrightarrow> length (closed_list c) = 0"
    using closed_okD [OF assms] by (simp add: of_nat_u64_eq_0)
  ultimately show ?thesis by (auto simp: shrink_count_def min_def)
qed

lemma shrink_arith:
  "max (n - 5) (min n (Suc m - k)) = max (Suc n - 5) (min (Suc n) (Suc (Suc m) - k)) - (1::nat)"
  by arith

lemma shrink_eq:
  assumes "ctx_ok c"
  shows "tfw_h2_closed_streams_shrink c = drop_closed_list (take (shrink_count c) (closed_list c)) c"
  using assms
proof (induction "length (closed_list c)" arbitrary: c)
  case 0
  then have "shrink_count c = 0" by (simp add: shrink_count_def)
  with shrink_stops_iff [OF 0(2)] show ?case
    by (subst tfw_h2_closed_streams_shrink.simps) (simp add: Let_def)
next
  case (Suc n)
  show ?case
  proof (cases "shrink_count c = 0")
    case True
    with shrink_stops_iff [OF Suc.prems] show ?thesis
      by (subst tfw_h2_closed_streams_shrink.simps) (simp add: Let_def)
  next
    case False
    obtain s ss where ss: "closed_list c = s # ss" using Suc(2) by (cases "closed_list c") auto
    have s: "s \<in> ids c" using closed_okD(1) [OF Suc.prems] ss by simp
    have unf: "tfw_h2_closed_streams_shrink c = Option.bind (drop_closed s c) tfw_h2_closed_streams_shrink"
      using False shrink_stops_iff [OF Suc.prems] ss
      by (subst tfw_h2_closed_streams_shrink.simps) (auto simp: Let_def drop_closed_def split: bind_splits)
    have hd: "take (shrink_count c) (s # ss) = s # take (shrink_count c - 1) ss"
      using False by (cases "shrink_count c") auto
    show ?thesis
    proof (cases "drop_closed s c")
      case None
      then show ?thesis by (simp add: unf hd ss)
    next
      case (Some d)
      then have d: "ctx_ok d" "ctx_rest d = ctx_rest c" "ids d = ids c - {s}"
        "\<forall>q. q_list (queue_get q d) = remove1 s (q_list (queue_get q c))"
        using unlink_clean_ok [OF Suc.prems s] by (auto split: if_splits)
      have "closed_list d = ss" using spec [OF d(4), of Closed_Queue] ss by (simp add: queue_get_def)
      moreover have "shrink_count d = shrink_count c - 1"
        unfolding shrink_count_def \<open>closed_list d = ss\<close> ss ctx_restD(1) [OF d(2)]
          card_Suc_Diff1 [OF finite_ids s, symmetric] d(3) [symmetric]
        by (simp only: list.size add_0_right add_Suc_right shrink_arith [symmetric])
      ultimately show ?thesis
        using Suc(1) [of d] Suc(2) ss d(1) Some by (simp add: unf hd)
    qed
  qed
qed

lemma drop_closed_list_returns:
  assumes "ctx_ok c" "set ss \<subseteq> ids c" "distinct ss" "flat (cx_sched c)"
  shows "drop_closed_list ss c \<noteq> None"
  using assms
proof (induction ss arbitrary: c)
  case (Cons s ss)
  with unlink_clean_ok [of c s] flat_no_trap [of "cx_sched c" s]
  obtain d where "drop_closed s c = Some d" "ctx_ok d" "ids d = ids c - {s}" "flat (cx_sched d)"
    by auto
  with Cons show ?case by auto
qed simp

lemma drop_closed_list_ok:
  assumes "ctx_ok c" "set ss \<subseteq> ids c" "distinct ss" "drop_closed_list ss c = Some c'"
  shows "ctx_ok c' \<and> ctx_rest c' = ctx_rest c \<and> ids c' = ids c - set ss
    \<and> (\<forall>q. q_list (queue_get q c') = filter (\<lambda>s. s \<notin> set ss) (q_list (queue_get q c)))
    \<and> (flat (cx_sched c) \<longrightarrow> flat (cx_sched c'))"
  using assms
proof (induction ss arbitrary: c)
  case (Cons s ss)
  from Cons.prems(4) obtain d where d: "drop_closed s c = Some d" "drop_closed_list ss d = Some c'"
    by (auto elim: bind_SomeE)
  then have d': "ctx_ok d" "ctx_rest d = ctx_rest c" "ids d = ids c - {s}"
    "\<forall>q. q_list (queue_get q d) = remove1 s (q_list (queue_get q c))"
    "flat (cx_sched c) \<longrightarrow> flat (cx_sched d)"
    using unlink_clean_ok [OF Cons.prems(1), of s] Cons.prems(2) by (auto split: if_splits)
  have "distinct (q_list (queue_get q c))" for q
    using ctx_okD(2) [OF Cons.prems(1), of q] by (simp add: queue_ok_def)
  then have "q_list (queue_get q d) = filter (\<lambda>t. t \<noteq> s) (q_list (queue_get q c))" for q
    using d'(4) by (simp add: distinct_remove1_removeAll removeAll_filter_not_eq neq_commute)
  moreover have "ctx_ok c' \<and> ctx_rest c' = ctx_rest d \<and> ids c' = ids d - set ss
    \<and> (\<forall>q. q_list (queue_get q c') = filter (\<lambda>s. s \<notin> set ss) (q_list (queue_get q d)))
    \<and> (flat (cx_sched d) \<longrightarrow> flat (cx_sched c'))"
    using Cons.IH [OF d'(1) _ _ d(2)] Cons.prems(2,3) d'(3) by auto
  moreover have "filter (\<lambda>t. t \<notin> set (s # ss)) xs = filter (\<lambda>t. t \<notin> set ss) (filter (\<lambda>t. t \<noteq> s) xs)" for xs
    by (induction xs) auto
  ultimately show ?case
    using d'(2,3,5) by (metis Diff_insert2 list.simps(15))
qed simp

end
