(* ===== verification/H2_Recv.thy ===== *)
theory H2_Recv
  imports H2_Frame
begin

text \<open>
  The byte-wise machine \<^verbatim>\<open>tfw_h2_frame_recv()\<close> and \<^verbatim>\<open>tfw_h2_frame_process()\<close> of
  \<^verbatim>\<open>src/fw/http_frame.c\<close>.

  A label of the machine is a value of \<^typ>\<open>TfwFrameState\<close>.  As in the C macros, the label
  being executed (\<^verbatim>\<open>__fsm_const_state\<close>) is not the same thing as \<^verbatim>\<open>ctx->state\<close>: a jump with
  \<^verbatim>\<open>FRAME_FSM_MOVE\<close> changes only the former, \<^verbatim>\<open>FRAME_FSM_NEXT\<close> jumps to the latter, and on exit
  the former is stored in the latter.
\<close>

section \<open>Macros of the machine\<close>

datatype fsm_next = Fsm_Exit rc TfwFrameState | Fsm_Goto TfwFrameState

type_synonym fsm_result = "(fsm_next \<times> TfwH2Ctx \<times> u8 list) option"

definition FRAME_FSM_EXIT :: "rc \<Rightarrow> TfwFrameState \<Rightarrow> TfwH2Ctx \<Rightarrow> u8 list \<Rightarrow> fsm_result" where
  "FRAME_FSM_EXIT r st c p = Some (Fsm_Exit r st, c\<lparr>cx_rlen := 0\<rparr>, p)"

definition FRAME_FSM_MOVE :: "TfwFrameState \<Rightarrow> TfwH2Ctx \<Rightarrow> u8 list \<Rightarrow> fsm_result" where
  "FRAME_FSM_MOVE st c p =
     Some (if p = [] then Fsm_Exit T_POSTPONE st else Fsm_Goto st, c\<lparr>cx_rlen := 0\<rparr>, p)"

definition FRAME_FSM_NEXT :: "TfwH2Ctx \<Rightarrow> u8 list \<Rightarrow> fsm_result" where
  "FRAME_FSM_NEXT c p = FRAME_FSM_MOVE (cx_state c) c p"

text \<open>The number of bytes to take for a part of the frame of which \<^verbatim>\<open>rlen\<close> bytes were read.\<close>

definition fsm_avail :: "int \<Rightarrow> TfwH2Ctx \<Rightarrow> u8 list \<Rightarrow> int" where
  "fsm_avail to_read c p = min (to_read - cx_rlen c) (int (length p))"

definition FRAME_FSM_READ ::
    "int \<Rightarrow> TfwFrameState \<Rightarrow> TfwH2Ctx \<Rightarrow> u8 list \<Rightarrow> (TfwH2Ctx \<Rightarrow> u8 list \<Rightarrow> fsm_result) \<Rightarrow> fsm_result" where
  "FRAME_FSM_READ to_read st c p k =
     (let n = fsm_avail to_read c p in
      if n < 0 then None
      else
        let c = c\<lparr>cx_rlen := cx_rlen c + n\<rparr>; p = drop (nat n) p in
        if cx_rlen c < to_read then Some (Fsm_Exit T_POSTPONE st, c, p) else k c p)"

text \<open>Copy the bytes to \<^verbatim>\<open>rbuf\<close>, an array of nine bytes.\<close>

definition rbuf_write :: "int \<Rightarrow> TfwH2Ctx \<Rightarrow> u8 list \<Rightarrow> TfwH2Ctx" where
  "rbuf_write n c p =
     c\<lparr>cx_rbuf := take (nat (cx_rlen c)) (cx_rbuf c) @ take (nat n) p
                  @ drop (nat (cx_rlen c + n)) (cx_rbuf c)\<rparr>"

definition FRAME_FSM_READ_SRVC ::
    "int \<Rightarrow> TfwFrameState \<Rightarrow> TfwH2Ctx \<Rightarrow> u8 list \<Rightarrow> (TfwH2Ctx \<Rightarrow> u8 list \<Rightarrow> fsm_result) \<Rightarrow> fsm_result" where
  "FRAME_FSM_READ_SRVC to_read st c p k =
     (if to_read < 0 \<or> to_read > 9 then None
      else FRAME_FSM_READ to_read st (rbuf_write (fsm_avail to_read c p) c p) p k)"

definition FRAME_FSM_READ_PYLD ::
    "TfwH2Ctx \<Rightarrow> u8 list \<Rightarrow> (TfwH2Ctx \<Rightarrow> u8 list \<Rightarrow> fsm_result) \<Rightarrow> fsm_result" where
  "FRAME_FSM_READ_PYLD c p k =
     (let n = fsm_avail (cx_to_read c) c p in
      if n < 0 then None
      else k (c\<lparr>cx_rlen := cx_rlen c + n, cx_to_read := cx_to_read c - (cx_rlen c + n)\<rparr>) (drop (nat n) p))"

section \<open>The states\<close>

text \<open>\<open>PRI * HTTP/2.0\<close>, two line ends, \<open>SM\<close>, two line ends.\<close>

definition FRAME_PREFACE_CLI_MAGIC :: "u8 list" where
  "FRAME_PREFACE_CLI_MAGIC =
     [80, 82, 73, 32, 42, 32, 72, 84, 84, 80, 47, 50, 46, 48, 13, 10, 13, 10, 83, 77, 13, 10, 13, 10]"

definition recv_cli_start_seq :: "TfwH2Ctx \<Rightarrow> u8 list \<Rightarrow> fsm_result" where
  "recv_cli_start_seq c p =
     (let n = fsm_avail 24 c p in
      if n < 0 then None
      else if take (nat n) (drop (nat (cx_rlen c)) FRAME_PREFACE_CLI_MAGIC) \<noteq> take (nat n) p then
        FRAME_FSM_EXIT T_BAD HTTP2_RECV_CLI_START_SEQ c p
      else FRAME_FSM_READ 24 HTTP2_RECV_CLI_START_SEQ c p
        (\<lambda>c p. case tfw_h2_send_settings_init c of
           (ret, c) \<Rightarrow>
             if ret \<noteq> T_OK then FRAME_FSM_EXIT ret HTTP2_RECV_CLI_START_SEQ c p
             else FRAME_FSM_MOVE HTTP2_RECV_FIRST_SETTINGS c p))"

definition recv_first_settings :: "TfwH2Ctx \<Rightarrow> u8 list \<Rightarrow> fsm_result" where
  "recv_first_settings c p =
     FRAME_FSM_READ_SRVC FRAME_HEADER_SIZE HTTP2_RECV_FIRST_SETTINGS c p
       (\<lambda>c p. do {
          (ret, c) \<leftarrow> tfw_h2_first_settings_verify c;
          (if ret \<noteq> T_OK then FRAME_FSM_EXIT ret HTTP2_RECV_FIRST_SETTINGS c p
           else if cx_to_read c \<noteq> 0 then FRAME_FSM_MOVE HTTP2_RECV_FRAME_SETTINGS c p
           else FRAME_FSM_EXIT T_OK HTTP2_RECV_FIRST_SETTINGS c p)
        })"

definition recv_frame_header :: "TfwH2Ctx \<Rightarrow> u8 list \<Rightarrow> fsm_result" where
  "recv_frame_header c p =
     FRAME_FSM_READ_SRVC FRAME_HEADER_SIZE HTTP2_RECV_FRAME_HEADER c p
       (\<lambda>c p. do {
          (ret, c) \<leftarrow> tfw_h2_frame_type_process
            (c\<lparr>cx_hdr := tfw_h2_unpack_frame_header (cx_rbuf c)\<rparr>);
          (let ty = h_type (cx_hdr c) in
           if ret \<noteq> T_OK then FRAME_FSM_EXIT ret HTTP2_RECV_FRAME_HEADER c p
           else if cx_to_read c \<noteq> 0 then FRAME_FSM_NEXT c p
           else if cx_state c \<noteq> HTTP2_IGNORE_FRAME_DATA
                   \<and> (ty = HTTP2_HEADERS \<or> ty = HTTP2_CONTINUATION \<or> ty = HTTP2_DATA) then
             Some (Fsm_Goto (cx_state c), c\<lparr>cx_rlen := 0\<rparr>, p)
           else FRAME_FSM_EXIT T_OK HTTP2_RECV_FRAME_HEADER c p)
        })"

text \<open>States that read \<^verbatim>\<open>to_read\<close> bytes, run a handler and finish the frame.\<close>

definition recv_and_finish ::
    "TfwFrameState \<Rightarrow> (TfwH2Ctx \<Rightarrow> (rc \<times> TfwH2Ctx) option) \<Rightarrow> TfwH2Ctx \<Rightarrow> u8 list \<Rightarrow> fsm_result" where
  "recv_and_finish st handler c p =
     FRAME_FSM_READ_SRVC (cx_to_read c) st c p
       (\<lambda>c p. do { (ret, c) \<leftarrow> handler c; FRAME_FSM_EXIT ret st c p })"

text \<open>States that read \<^verbatim>\<open>to_read\<close> bytes, run a handler and go on if it asks for more.\<close>

definition recv_and_next ::
    "TfwFrameState \<Rightarrow> (TfwH2Ctx \<Rightarrow> (rc \<times> TfwH2Ctx) option) \<Rightarrow> TfwH2Ctx \<Rightarrow> u8 list \<Rightarrow> fsm_result" where
  "recv_and_next st handler c p =
     FRAME_FSM_READ_SRVC (cx_to_read c) st c p
       (\<lambda>c p. do {
          (ret, c) \<leftarrow> handler c;
          (if ret \<noteq> T_OK then FRAME_FSM_EXIT ret st c p
           else if cx_to_read c \<noteq> 0 then FRAME_FSM_NEXT c p
           else FRAME_FSM_EXIT T_OK st c p)
        })"

definition recv_ping :: "TfwH2Ctx \<Rightarrow> rc \<times> TfwH2Ctx" where
  "recv_ping c =
     (if \<not> has_flag (h_flags (cx_hdr c)) HTTP2_F_ACK then tfw_h2_send_ping c else (T_OK, c))"

definition recv_settings :: "TfwH2Ctx \<Rightarrow> u8 list \<Rightarrow> fsm_result" where
  "recv_settings c p =
     FRAME_FSM_READ_SRVC (cx_to_read c) HTTP2_RECV_FRAME_SETTINGS c p
       (\<lambda>c p. case tfw_h2_settings_process c of
          (ret, c) \<Rightarrow>
            if ret \<noteq> T_OK then FRAME_FSM_EXIT ret HTTP2_RECV_FRAME_SETTINGS c p
            else if cx_to_read c \<noteq> 0 then FRAME_FSM_MOVE HTTP2_RECV_FRAME_SETTINGS c p
            else (case tfw_h2_send_settings_ack c of
                    (ret, c) \<Rightarrow> FRAME_FSM_EXIT ret HTTP2_RECV_FRAME_SETTINGS c p))"

definition recv_goaway :: "TfwH2Ctx \<Rightarrow> u8 list \<Rightarrow> fsm_result" where
  "recv_goaway c p =
     FRAME_FSM_READ_SRVC (cx_to_read c) HTTP2_RECV_FRAME_GOAWAY c p
       (\<lambda>c p. let c = tfw_h2_goaway_process c in
          if cx_to_read c \<noteq> 0 then FRAME_FSM_MOVE HTTP2_IGNORE_FRAME_DATA c p
          else FRAME_FSM_EXIT T_OK HTTP2_RECV_FRAME_GOAWAY c p)"

text \<open>DATA, HEADERS and CONTINUATION.\<close>

definition recv_app ::
    "TfwFrameState \<Rightarrow> (TfwH2Ctx \<Rightarrow> (rc \<times> TfwH2Ctx) option) \<Rightarrow> TfwH2Ctx \<Rightarrow> u8 list \<Rightarrow> fsm_result" where
  "recv_app st handler c p =
     FRAME_FSM_READ_PYLD c p
       (\<lambda>c p. do {
          (ret, c) \<leftarrow> handler c;
          (if ret \<noteq> T_OK then FRAME_FSM_EXIT ret st c p
           else
             let ignored = (cx_state c = HTTP2_IGNORE_FRAME_DATA) in
             if cx_to_read c \<noteq> 0 then
               (if ignored then FRAME_FSM_MOVE HTTP2_IGNORE_FRAME_DATA c p
                else FRAME_FSM_MOVE HTTP2_RECV_APP_DATA_POST c p)
             else FRAME_FSM_EXIT T_OK (if ignored then HTTP2_IGNORE_FRAME_DATA else st) c p)
        })"

definition recv_app_data_post :: "TfwH2Ctx \<Rightarrow> u8 list \<Rightarrow> fsm_result" where
  "recv_app_data_post c p =
     FRAME_FSM_READ_PYLD c p
       (\<lambda>c p. FRAME_FSM_EXIT (if cx_to_read c \<noteq> 0 then T_POSTPONE else T_OK)
                HTTP2_RECV_APP_DATA_POST c p)"

definition recv_ignore :: "TfwH2Ctx \<Rightarrow> u8 list \<Rightarrow> fsm_result" where
  "recv_ignore c p =
     FRAME_FSM_READ (cx_to_read c) HTTP2_IGNORE_FRAME_DATA c p
       (\<lambda>c p. FRAME_FSM_EXIT T_OK HTTP2_IGNORE_FRAME_DATA c p)"

definition frame_state :: "TfwFrameState \<Rightarrow> TfwH2Ctx \<Rightarrow> u8 list \<Rightarrow> fsm_result" where
  "frame_state st c p =
     (case st of
        HTTP2_RECV_CLI_START_SEQ \<Rightarrow> recv_cli_start_seq c p
      | HTTP2_RECV_FIRST_SETTINGS \<Rightarrow> recv_first_settings c p
      | HTTP2_RECV_FRAME_HEADER \<Rightarrow> recv_frame_header c p
      | HTTP2_RECV_FRAME_PADDED \<Rightarrow> recv_and_next HTTP2_RECV_FRAME_PADDED tfw_h2_frame_pad_process c p
      | HTTP2_RECV_FRAME_PRIORITY \<Rightarrow> recv_and_finish HTTP2_RECV_FRAME_PRIORITY tfw_h2_priority_process c p
      | HTTP2_RECV_FRAME_WND_UPDATE \<Rightarrow>
          recv_and_finish HTTP2_RECV_FRAME_WND_UPDATE tfw_h2_wnd_update_process c p
      | HTTP2_RECV_FRAME_PING \<Rightarrow> recv_and_finish HTTP2_RECV_FRAME_PING (\<lambda>c. Some (recv_ping c)) c p
      | HTTP2_RECV_FRAME_RST_STREAM \<Rightarrow>
          recv_and_finish HTTP2_RECV_FRAME_RST_STREAM
            (\<lambda>c. map_option (\<lambda>c. (T_OK, c)) (tfw_h2_rst_stream_process c)) c p
      | HTTP2_RECV_FRAME_SETTINGS \<Rightarrow> recv_settings c p
      | HTTP2_RECV_FRAME_GOAWAY \<Rightarrow> recv_goaway c p
      | HTTP2_RECV_HEADER_PRI \<Rightarrow> recv_and_next HTTP2_RECV_HEADER_PRI tfw_h2_headers_pri_process c p
      | HTTP2_RECV_DATA \<Rightarrow> recv_app HTTP2_RECV_DATA tfw_h2_current_stream_state_process c p
      | HTTP2_RECV_HEADER \<Rightarrow> recv_app HTTP2_RECV_HEADER tfw_h2_headers_process c p
      | HTTP2_RECV_CONT \<Rightarrow> recv_app HTTP2_RECV_CONT tfw_h2_current_stream_state_process c p
      | HTTP2_RECV_APP_DATA_POST \<Rightarrow> recv_app_data_post c p
      | HTTP2_IGNORE_FRAME_DATA \<Rightarrow> recv_ignore c p)"

partial_function (option) frame_fsm ::
    "TfwFrameState \<Rightarrow> TfwH2Ctx \<Rightarrow> u8 list \<Rightarrow> (rc \<times> TfwH2Ctx \<times> u8 list) option" where
  [code]: "frame_fsm st c p =
     (case frame_state st c p of
        None \<Rightarrow> None
      | Some (nxt, c', p') \<Rightarrow>
          (case nxt of
             Fsm_Exit r st' \<Rightarrow> Some (r, c'\<lparr>cx_state := st'\<rparr>, p')
           | Fsm_Goto st' \<Rightarrow> frame_fsm st' c' p'))"

text \<open>The code, the new context and the bytes that were not read.\<close>

definition tfw_h2_frame_recv :: "TfwH2Ctx \<Rightarrow> u8 list \<Rightarrow> (rc \<times> TfwH2Ctx \<times> u8 list) option" where
  "tfw_h2_frame_recv c buf = frame_fsm (cx_state c) c buf"

section \<open>Socket buffers\<close>

text \<open>A socket buffer is the list of its data areas, the linear part first.\<close>

type_synonym skb = "u8 list list"

definition skb_len :: "skb \<Rightarrow> nat" where
  "skb_len skb = sum_list (map length skb)"

fun skb_take :: "nat \<Rightarrow> skb \<Rightarrow> skb" where
  "skb_take n [] = []"
| "skb_take n (f # fs) =
     (if n = 0 then [] else if length f \<le> n then f # skb_take (n - length f) fs else [take n f])"

fun skb_drop :: "nat \<Rightarrow> skb \<Rightarrow> skb" where
  "skb_drop n [] = []"
| "skb_drop n (f # fs) =
     (if n = 0 then f # fs else if length f \<le> n then skb_drop (n - length f) fs else drop n f # fs)"

text \<open>
  \<^verbatim>\<open>ss_skb_process()\<close> with \<^verbatim>\<open>tfw_h2_frame_recv()\<close> as the actor: the code, the context and the
  number of bytes processed.
\<close>

fun skb_process_loop ::
    "rc \<Rightarrow> TfwH2Ctx \<Rightarrow> nat \<Rightarrow> skb \<Rightarrow> (rc \<times> TfwH2Ctx \<times> nat) option" where
  "skb_process_loop r c processed [] = Some (r, c, processed)"
| "skb_process_loop r c processed (f # fs) =
     (case tfw_h2_frame_recv c f of
        None \<Rightarrow> None
      | Some (r, c, rest) \<Rightarrow>
          let processed = processed + (length f - length rest) in
          if r \<noteq> T_POSTPONE then Some (r, c, processed) else skb_process_loop r c processed fs)"

definition ss_skb_process :: "TfwH2Ctx \<Rightarrow> skb \<Rightarrow> (rc \<times> TfwH2Ctx \<times> nat) option" where
  "ss_skb_process c skb =
     (if skb_len skb = 0 then Some (EIO, c, 0) else skb_process_loop T_OK c 0 skb)"

section \<open>Frame processing\<close>

definition APP_FRAME :: "TfwFrameState \<Rightarrow> bool" where
  "APP_FRAME st \<longleftrightarrow>
     st \<in> {HTTP2_RECV_HEADER, HTTP2_RECV_CONT, HTTP2_RECV_DATA, HTTP2_RECV_APP_DATA_POST}"

definition clear_frame :: "TfwH2Ctx \<Rightarrow> TfwH2Ctx" where
  "clear_frame c =
     c\<lparr>cx_skb_head := [], cx_cur_stream := None, cx_priority := zero_pri, cx_hdr := zero_hdr,
       cx_plen := 0, cx_state := HTTP2_RECV_FRAME_HEADER, cx_to_read := 0, cx_rlen := 0,
       cx_rbuf := replicate 9 0, cx_padlen := 0, cx_data_off := 0\<rparr>"

definition tfw_h2_context_reinit :: "bool \<Rightarrow> TfwH2Ctx \<Rightarrow> TfwH2Ctx" where
  "tfw_h2_context_reinit postponed c =
     (if \<not> APP_FRAME (cx_state c) \<or> (\<not> postponed \<and> cx_padlen c = 0) then clear_frame c
      else if \<not> postponed \<and> cx_padlen c \<noteq> 0 then
        c\<lparr>cx_state := HTTP2_IGNORE_FRAME_DATA, cx_to_read := uint (cx_padlen c), cx_padlen := 0\<rparr>
      else c)"

definition tfw_h2_allowed_empty_frame :: "TfwH2Ctx \<Rightarrow> bool" where
  "tfw_h2_allowed_empty_frame c \<longleftrightarrow>
     cx_plen c = 0
     \<and> (h_type (cx_hdr c) = HTTP2_DATA \<and> has_flag (h_flags (cx_hdr c)) HTTP2_F_END_STREAM
        \<or> h_type (cx_hdr c) = HTTP2_CONTINUATION \<and> has_flag (h_flags (cx_hdr c)) HTTP2_F_END_HEADERS
        \<or> h_type (cx_hdr c) = HTTP2_HEADERS)"

definition tfw_error_code_is_crucial :: "rc \<Rightarrow> bool" where
  "tfw_error_code_is_crucial r \<longleftrightarrow> r \<noteq> T_OK \<and> r \<noteq> T_POSTPONE \<and> r \<noteq> T_DROP"

text \<open>
  \<^verbatim>\<open>tfw_http_msg_process_generic()\<close> is the HTTP layer above the frames; it is an argument of
  the model: it gets the stream and the data of an application frame.
\<close>

type_synonym http_layer = "sid \<Rightarrow> skb \<Rightarrow> TfwH2Ctx \<Rightarrow> rc \<times> TfwH2Ctx"

text \<open>Free the leading buffers which hold nothing but the frame header.\<close>

fun drop_header_skbs :: "skb list \<Rightarrow> u8 \<Rightarrow> skb list \<times> u8" where
  "drop_header_skbs [] off = ([], off)"
| "drop_header_skbs (b # bs) off =
     (if skb_len b \<le> unat off then drop_header_skbs bs (off - of_nat (skb_len b)) else (b # bs, off))"

text \<open>
  Hand the application data of the frame to the HTTP layer, or drop the buffers.  \<open>Inl\<close> is
  the early \<^verbatim>\<open>return T_OK\<close>; \<open>Inr\<close> carries the code \<^verbatim>\<open>r\<close> with which the function goes on.
\<close>

definition pass_app_frame ::
    "http_layer \<Rightarrow> sid \<Rightarrow> rc \<Rightarrow> TfwH2Ctx \<Rightarrow> TfwH2Ctx + rc \<times> TfwH2Ctx" where
  "pass_app_frame http s r c =
     (case drop_header_skbs (cx_skb_head c) (cx_data_off c) of
        ([], off) \<Rightarrow> Inl (c\<lparr>cx_skb_head := [], cx_data_off := off\<rparr>)
      | (pskb # bs, off) \<Rightarrow>
          (case kmem_alloc c of (ok, c) \<Rightarrow>
             if \<not> ok then Inr (ENOMEM, c\<lparr>cx_skb_head := pskb # bs, cx_data_off := off\<rparr>)
             else Inr (http s (skb_drop (unat off) pskb) (c\<lparr>cx_skb_head := [], cx_data_off := 0\<rparr>))))"

definition pass_frame ::
    "http_layer \<Rightarrow> rc \<Rightarrow> TfwH2Ctx \<Rightarrow> TfwH2Ctx + rc \<times> TfwH2Ctx" where
  "pass_frame http r c =
     (case cx_cur_stream c of
        None \<Rightarrow> Inr (r, c\<lparr>cx_data_off := 0, cx_skb_head := []\<rparr>)
      | Some s \<Rightarrow>
          if APP_FRAME (cx_state c) \<and> cx_plen c \<noteq> 0 then pass_app_frame http s r c
          else if tfw_h2_allowed_empty_frame c then
            Inr (http s (last (cx_skb_head c)) (c\<lparr>cx_skb_head := [], cx_data_off := 0\<rparr>))
          else Inr (r, c\<lparr>cx_data_off := 0, cx_skb_head := []\<rparr>))"

definition frame_process_out :: "rc \<Rightarrow> TfwH2Ctx \<Rightarrow> rc \<times> TfwH2Ctx" where
  "frame_process_out r c =
     (let c = c\<lparr>cx_skb_head := []\<rparr> in
      (r, if tfw_error_code_is_crucial r then tfw_h2_context_reinit False c else c))"

partial_function (option) tfw_h2_frame_process ::
    "http_layer \<Rightarrow> TfwH2Ctx \<Rightarrow> skb \<Rightarrow> (rc \<times> TfwH2Ctx) option" where
  [code]: "tfw_h2_frame_process http c skb =
     (case ss_skb_process (c\<lparr>cx_skb_head := cx_skb_head c @ [skb]\<rparr>) skb of
        None \<Rightarrow> None
      | Some (r, c, parsed) \<Rightarrow>
          if r = T_BLOCK_WITH_FIN \<or> r = T_BLOCK_WITH_RST then Some (frame_process_out r c)
          else if r \<noteq> T_OK \<and> r \<noteq> T_POSTPONE then Some (frame_process_out T_BAD c)
          else if r = T_POSTPONE \<and> \<not> APP_FRAME (cx_state c) then Some (T_OK, c)
          else
            let postponed = (r = T_POSTPONE);
                more = (parsed < skb_len skb);
                (ok, c) = (if more then kmem_alloc c else (True, c)) in
            if \<not> ok then Some (frame_process_out ENOMEM c)
            else
              let c = c\<lparr>cx_skb_head := butlast (cx_skb_head c) @ [skb_take parsed skb]\<rparr> in
              (case pass_frame http r c of
                 Inl c \<Rightarrow> Some (T_OK, c)
               | Inr (r, c) \<Rightarrow>
                   if tfw_error_code_is_crucial r then Some (frame_process_out r c)
                   else
                     let c = tfw_h2_context_reinit postponed c in
                     if more then tfw_h2_frame_process http c (skb_drop parsed skb)
                     else Some (frame_process_out r c)))"

end
