(* ===== verification/H2_Recv_Inv.thy ===== *)
theory H2_Recv_Inv
  imports H2_Ctx_Inv H2_Recv
begin

text \<open>
  The invariant of frame reception: every handler of a frame and the frame machine itself keep
  the connection context well formed, the current stream alive, and the number of streams within
  the limit announced to the client.
\<close>

section \<open>Blocked streams\<close>

lemma sched_ok_blocked_streams [simp]: "sched_ok (S\<lparr>sc_blocked_streams := n\<rparr>) = sched_ok S"
proof -
  let ?S = "S\<lparr>sc_blocked_streams := n\<rparr>"
  have "inv_tree ?S = inv_tree S" by (rule inv_tree_cong) auto
  moreover have "inv_lists ?S = inv_lists S" by (rule inv_lists_cong) (auto simp: stream_weight_def)
  moreover have act: "tfw_h2_stream_is_active ?S = tfw_h2_stream_is_active S"
    by (simp add: fun_eq_iff tfw_h2_stream_is_active_def)
  moreover have "inv_cnt settled_cnt ?S = inv_cnt settled_cnt S" by (rule inv_cnt_cong) (use act in auto)
  moreover have "linked_ok ?S t = linked_ok S t" for t
    using act by (simp add: linked_ok_def live_def split: option.splits)
  ultimately show ?thesis by (simp add: sched_ok_def sched_inv_def stream_ids_def)
qed

text \<open>What unblocking leaves alone in a stream.\<close>

definition stream_rest :: "TfwStream \<Rightarrow> TfwStream" where
  "stream_rest t = (unlinked t)\<lparr>st_xmit := (st_xmit t)\<lparr>x_is_blocked := False\<rparr>\<rparr>"

lemma stream_rest_fields [simp]:
  "st_queue (stream_rest t) = st_queue t" "st_state (stream_rest t) = st_state t"
  "st_rem_wnd (stream_rest t) = st_rem_wnd t" "st_loc_wnd (stream_rest t) = st_loc_wnd t"
  by (simp_all add: stream_rest_def unlinked_def)

lemma stream_rest_unlinked: "unlinked t = unlinked u \<Longrightarrow> stream_rest t = stream_rest u"
  by (metis stream_rest_def unlinked_fields(2))

lemma unblock_activate:
  assumes ok: "sched_ok S" and blk: "blocked_ok S" and s: "s \<in> blocked_set S"
  defines "x \<equiv> (st_xmit (sc_stream S s))\<lparr>x_is_blocked := False\<rparr>"
  defines "S1 \<equiv> (set_xmit x s S)\<lparr>sc_blocked_streams := sc_blocked_streams S - 1\<rparr>"
  shows "0 \<le> sc_blocked_streams S1 \<and> (\<exists>S'. tfw_h2_sched_activate_stream s S1 = Some S' \<and> sched_ok S'
    \<and> blocked_ok S' \<and> sc_streams S' = sc_streams S \<and> tfw_h2_stream_is_active S' s
    \<and> (\<forall>t. stream_rest (sc_stream S' t) = stream_rest (sc_stream S t)))"
proof -
  have fin: "finite (blocked_set S)" by (simp add: blocked_set_def)
  have sb: "s \<in> stream_ids S" "x_is_blocked (st_xmit (sc_stream S s))"
    "x_skb_head (st_xmit (sc_stream S s)) \<noteq> []"
    using s by (auto simp: blocked_set_def)
  have c1: "1 \<le> card (blocked_set S)" using s fin by (auto simp: Suc_le_eq card_gt_0_iff)
  then have nn: "0 \<le> sc_blocked_streams S - 1" using blk unfolding blocked_ok_def by linarith
  let ?T = "S\<lparr>sc_blocked_streams := sc_blocked_streams S - 1\<rparr>"
  have T: "sched_ok ?T" "s \<in> stream_ids ?T" "\<not> tfw_h2_stream_is_active ?T s" "xmit_active x"
    using ok sb by (auto simp: stream_ids_def tfw_h2_stream_is_active_def x_def xmit_active_def)
  obtain S' where S': "tfw_h2_sched_activate_stream s (set_xmit x s ?T) = Some S'" "sched_ok S'"
    "same_shape (set_xmit x s ?T) S'"
    using activate_ok [OF T] by blast
  have S1: "set_xmit x s ?T = S1" by (simp add: S1_def set_xmit_def upd_stream_def)
  have un: "unlinked (sc_stream S' t) = unlinked (if t = s then (sc_stream S s)\<lparr>st_xmit := x\<rparr> else sc_stream S t)" for t
    using S'(3) by (simp add: same_shape_def S1 S1_def set_xmit_def)
  have xm: "st_xmit (sc_stream S' t) = (if t = s then x else st_xmit (sc_stream S t))" for t
    using arg_cong [OF un, of st_xmit t] by simp
  have "stream_rest (sc_stream S' t) = stream_rest (sc_stream S t)" for t
    using stream_rest_unlinked [OF un, of t]
    by (cases "t = s") (simp_all add: stream_rest_def x_def unlinked_def)
  moreover have "sc_streams S' = sc_streams S" "sc_blocked_streams S' = sc_blocked_streams S - 1"
    using S'(3) by (simp_all add: same_shape_def S1 S1_def set_xmit_def)
  moreover have "blocked_set S' = blocked_set S - {s}"
    using xm \<open>sc_streams S' = sc_streams S\<close> by (auto simp: blocked_set_def x_def stream_ids_def)
  then have "card (blocked_set S') = card (blocked_set S) - 1"
    using s fin by (simp add: card_Diff_singleton)
  with c1 blk \<open>sc_blocked_streams S' = _\<close> have "blocked_ok S'"
    unfolding blocked_ok_def by linarith
  moreover have "tfw_h2_stream_is_active S' s"
    using xm [of s] sb by (simp add: tfw_h2_stream_is_active_def x_def)
  ultimately show ?thesis
    using nn S' S1 by (auto simp: S1_def)
qed

lemma try_unblock_ok:
  assumes ok: "sched_ok S" and blk: "blocked_ok S" and s: "s \<in> stream_ids S"
  shows "\<exists>S'. tfw_h2_stream_try_unblock s S = Some S' \<and> sched_ok S' \<and> blocked_ok S'
    \<and> sc_streams S' = sc_streams S \<and> (\<forall>t. stream_rest (sc_stream S' t) = stream_rest (sc_stream S t))
    \<and> (0 < st_rem_wnd (sc_stream S s) \<and> x_skb_head (st_xmit (sc_stream S s)) \<noteq> [] \<longrightarrow> tfw_h2_stream_is_active S' s)"
proof -
  define x where "x = (st_xmit (sc_stream S s))\<lparr>x_is_blocked := False\<rparr>"
  have upd: "upd_stream s (\<lambda>t. t\<lparr>st_xmit := (st_xmit t)\<lparr>x_is_blocked := False\<rparr>\<rparr>) S = set_xmit x s S"
    by (simp add: set_xmit_def upd_stream_def x_def)
  show ?thesis
  proof (cases "s \<in> blocked_set S")
    case True
    have "sc_blocked_streams (set_xmit x s S) = sc_blocked_streams S" by (simp add: set_xmit_def)
    with True unblock_activate [OF ok blk True, folded x_def] ok blk show ?thesis
      by (auto simp: tfw_h2_stream_try_unblock_def Let_def upd blocked_set_def)
  next
    case False
    have "sched_ok (set_xmit x s S) = sched_ok S"
      unfolding set_xmit_def using False s
      by (intro sched_ok_upd_stream) (auto simp: x_def xmit_active_def blocked_set_def)
    moreover have "blocked_set (set_xmit x s S) = blocked_set S"
      using False by (auto simp: blocked_set_def set_xmit_def x_def)
    then have "blocked_ok (set_xmit x s S)" using blk by (simp add: blocked_ok_def set_xmit_def)
    moreover have "stream_rest (sc_stream (set_xmit x s S) t) = stream_rest (sc_stream S t)" for t
      by (simp add: set_xmit_def x_def stream_rest_def unlinked_def)
    moreover have "tfw_h2_stream_try_unblock s S =
        Some (if 0 < st_rem_wnd (sc_stream S s) then set_xmit x s S else S)"
      using False s by (auto simp: tfw_h2_stream_try_unblock_def Let_def upd blocked_set_def)
    moreover have "tfw_h2_stream_is_active (set_xmit x s S) s" if "x_skb_head (st_xmit (sc_stream S s)) \<noteq> []"
      using that by (simp add: x_def xmit_active_def)
    ultimately show ?thesis using ok blk by simp
  qed
qed


section \<open>The invariant of reception\<close>

text \<open>The parts of the context that the invariant looks at.\<close>

definition conn_core where
  "conn_core c = (cx_sched c, cx_closed_streams c, cx_idle_streams c, cx_streams_num c,
     cx_cur_send_headers c, cx_cur_recv_headers c, cx_cur_stream c, cx_lsettings c,
     h_stream_id (cx_hdr c), h_type (cx_hdr c))"

definition recv_ok :: "TfwH2Ctx \<Rightarrow> bool" where
  "recv_ok c \<longleftrightarrow> ctx_ok c \<and> set_option (cx_cur_stream c) \<subseteq> ids c \<and> card (ids c) \<le> max_streams c"

text \<open>The stream and type of the frame in progress.\<close>

abbreviation (input) hid :: "TfwH2Ctx \<Rightarrow> sid \<times> u8" where
  "hid c \<equiv> (h_stream_id (cx_hdr c), h_type (cx_hdr c))"

lemma conn_coreD:
  assumes "conn_core c' = conn_core c"
  shows "recv_ok c' = recv_ok c" "ctx_ok c' = ctx_ok c" "hid c' = hid c" "cx_sched c' = cx_sched c"
    and "cx_cur_stream c' = cx_cur_stream c" "cx_lsettings c' = cx_lsettings c" "strm c' = strm c"
    and "cx_streams_num c' = cx_streams_num c"
proof -
  show *: "ctx_ok c' = ctx_ok c" using assms by (intro ctx_ok_cong) (auto simp: conn_core_def)
  then show "recv_ok c' = recv_ok c" using assms by (auto simp: conn_core_def recv_ok_def)
  show "hid c' = hid c" "cx_sched c' = cx_sched c" "cx_cur_stream c' = cx_cur_stream c"
    "cx_lsettings c' = cx_lsettings c" "strm c' = strm c" "cx_streams_num c' = cx_streams_num c"
    using assms by (auto simp: conn_core_def strm_def fun_eq_iff)
qed

lemma conn_core_upd [simp]:
  "conn_core (c\<lparr>cx_state := st\<rparr>) = conn_core c" "conn_core (c\<lparr>cx_to_read := n\<rparr>) = conn_core c"
  "conn_core (c\<lparr>cx_rlen := n\<rparr>) = conn_core c" "conn_core (c\<lparr>cx_rbuf := b\<rparr>) = conn_core c"
  "conn_core (c\<lparr>cx_plen := l\<rparr>) = conn_core c" "conn_core (c\<lparr>cx_padlen := pl\<rparr>) = conn_core c"
  "conn_core (c\<lparr>cx_data_off := dof\<rparr>) = conn_core c" "conn_core (c\<lparr>cx_priority := pr\<rparr>) = conn_core c"
  "conn_core (c\<lparr>cx_lstream_id := li\<rparr>) = conn_core c" "conn_core (c\<lparr>cx_sent := sf\<rparr>) = conn_core c"
  "conn_core (c\<lparr>cx_sends := k\<rparr>) = conn_core c" "conn_core (c\<lparr>cx_conn_stop := b1\<rparr>) = conn_core c"
  "conn_core (c\<lparr>cx_conn_closed := b1\<rparr>) = conn_core c" "conn_core (c\<lparr>cx_stat := sl\<rparr>) = conn_core c"
  "conn_core (c\<lparr>cx_has_data := b1\<rparr>) = conn_core c" "conn_core (c\<lparr>cx_loc_wnd := w\<rparr>) = conn_core c"
  "conn_core (c\<lparr>cx_rem_wnd := w\<rparr>) = conn_core c" "conn_core (c\<lparr>cx_wnd_update_cnt := wc\<rparr>) = conn_core c"
  "conn_core (c\<lparr>cx_skb_head := sk\<rparr>) = conn_core c" "conn_core (c\<lparr>cx_allocs := k\<rparr>) = conn_core c"
  "conn_core (c\<lparr>cx_settings_to_apply := sb\<rparr>) = conn_core c"
  "conn_core (c\<lparr>cx_new_settings := ns\<rparr>) = conn_core c"
  "conn_core (c\<lparr>cx_hpack_max_window := hw\<rparr>) = conn_core c"
  "conn_core (c\<lparr>cx_hpack_wnd_update := b1\<rparr>) = conn_core c"
  "conn_core (upd_hdr (\<lambda>h. h\<lparr>h_length := f h\<rparr>) c) = conn_core c"
  by (simp_all add: conn_core_def upd_hdr_def)

lemma conn_core_small [simp]:
  "conn_core (SET_TO_READ c) = conn_core c" "conn_core (SET_TO_READ_VERIFY st c) = conn_core c"
  "conn_core (set_has_data b c) = conn_core c" "conn_core (next_settings_entry c) = conn_core c"
  "conn_core (tfw_h2_save_settings_entry i v c) = conn_core c"
  "conn_core (tfw_h2_settings_ack_process c) = conn_core c"
  "conn_core (start_payload c) = conn_core c" "conn_core (rbuf_write n c p) = conn_core c"
  by (simp_all add: SET_TO_READ_def SET_TO_READ_VERIFY_def set_has_data_def next_settings_entry_def
      tfw_h2_save_settings_entry_def tfw_h2_settings_ack_process_def start_payload_def rbuf_write_def Let_def)

lemma conn_core_send:
  "tfw_h2_send_frame_type ty h pl c = (r, c') \<Longrightarrow> conn_core c' = conn_core c"
  "tfw_h2_send_frame h pl c = (r, c') \<Longrightarrow> conn_core c' = conn_core c"
  by (auto simp: tfw_h2_send_frame_def tfw_h2_send_frame_type_def Let_def split: if_splits)

lemma conn_core_rate: "tfw_h2_ctrl_frame_rate_limit k c = (b, c') \<Longrightarrow> conn_core c' = conn_core c"
  by (auto simp: tfw_h2_ctrl_frame_rate_limit_def Let_def)

lemma conn_core_ctrl:
  "tfw_h2_send_wnd_update i w c = (r, c') \<Longrightarrow> conn_core c' = conn_core c"
  "tfw_h2_send_rst_stream i err c = (r, c') \<Longrightarrow> conn_core c' = conn_core c"
  "tfw_h2_send_settings_ack c = (r, c') \<Longrightarrow> conn_core c' = conn_core c"
  "tfw_h2_send_settings_init c = (r, c') \<Longrightarrow> conn_core c' = conn_core c"
  "recv_ping c = (r, c') \<Longrightarrow> conn_core c' = conn_core c"
  "conn_core (tfw_h2_conn_terminate err c) = conn_core c"
  "tfw_h2_ctrl_frame_limit ty c = (b, c') \<Longrightarrow> conn_core c' = conn_core c"
  "tfw_h2_settings_process c = (r, c') \<Longrightarrow> conn_core c' = conn_core c"
proof -
  show "tfw_h2_send_rst_stream i err c = (r, c') \<Longrightarrow> conn_core c' = conn_core c"
    by (auto simp: tfw_h2_send_rst_stream_def split: prod.splits bool.splits
        dest!: conn_core_rate conn_core_send)
  show "tfw_h2_send_settings_init c = (r, c') \<Longrightarrow> conn_core c' = conn_core c"
    by (auto simp: tfw_h2_send_settings_init_def Let_def split: if_splits dest!: conn_core_send)
  show "recv_ping c = (r, c') \<Longrightarrow> conn_core c' = conn_core c"
    by (auto simp: recv_ping_def tfw_h2_send_ping_def split: if_splits dest!: conn_core_send)
  show "tfw_h2_ctrl_frame_limit ty c = (b, c') \<Longrightarrow> conn_core c' = conn_core c"
    by (auto simp: tfw_h2_ctrl_frame_limit_def tfw_h2_wnd_update_rate_limit_def Let_def
        split: if_splits dest!: conn_core_rate)
  show "conn_core (tfw_h2_conn_terminate err c) = conn_core c"
    by (auto simp: tfw_h2_conn_terminate_def tfw_h2_conn_terminate_close_def tfw_h2_send_goaway_def
        split: prod.splits dest!: conn_core_send)
qed (auto simp: tfw_h2_send_wnd_update_def tfw_h2_send_settings_ack_def tfw_h2_settings_process_def Let_def
    split: if_splits dest!: conn_core_send)


section \<open>Handlers that touch streams\<close>

lemma fsm_owners:
  assumes "tfw_h2_stream_fsm a err v = Some (res, e, v')"
  shows "fv_send_headers v' \<in> {fv_send_headers v, None, Some (fa_stream a)}
       \<and> fv_recv_headers v' \<in> {fv_recv_headers v, None, Some (fa_stream a)}"
proof -
  from assms obtain w where w: "(res, e, v') = fsm_finish a w"
    "w \<in> {fsm_opened a err v, fsm_loc_half_closed a err v, fsm_rem_half_closed a err v,
           fsm_loc_closed a err v, fsm_closed a err v} \<or> fsm_idle a err v = Some w \<or> out_view w = v"
    by (cases rule: fsm_cases) (auto simp: out_view_def)
  have "fv_send_headers (out_view w) \<in> {fv_send_headers v, None, Some (fa_stream a)}
      \<and> fv_recv_headers (out_view w) \<in> {fv_recv_headers v, None, Some (fa_stream a)}"
    using w(2) unfolding fsm_branches SET_STATE_def set_eos_received_def set_eos_sent_def out_view_def
    by (elim disjE insertE emptyE) (auto split: if_splits)
  with w(1) show ?thesis
    by (cases w) (auto simp: fsm_finish_def out_view_def tfw_h2_conn_reset_stream_on_close_def
        split: if_splits)
qed

lemma fsm_keeps_state_ok:
  assumes "tfw_h2_stream_fsm a err v = Some out" "state_ok (fv_state v)"
  shows "state_ok (fv_state (out_view out))"
  using assms
proof (cases rule: fsm_cases)
  case (idle w)
  with assms(2) show ?thesis
    unfolding fsm_finish_state by (auto simp: state_ok_def stream_state_valid_def fsm_simps out_view_def split: if_splits)
qed (simp_all add: state_ok_def stream_state_valid_def fsm_simps out_view_def)

lemma put_fsm_view_ok:
  assumes ok: "recv_ok c" and s: "s \<in> ids c" and st: "state_ok (fv_state v)"
    and v: "fv_send_headers v \<in> {cx_cur_send_headers c, None, Some s}"
      "fv_recv_headers v \<in> {cx_cur_recv_headers c, None, Some s}"
  shows "recv_ok (put_fsm_view s v c)"
proof -
  let ?d = "c\<lparr>cx_cur_send_headers := fv_send_headers v, cx_cur_recv_headers := fv_recv_headers v\<rparr>"
  have "queue_get q ?d = queue_get q c" "strm ?d = strm c" for q
    by (auto simp: queue_get_def strm_def fun_eq_iff split: stream_queue.split)
  then have "ctx_ok ?d"
    using ok s v by (auto simp: recv_ok_def ctx_ok_def owners_ok_def queue_ok_def states_ok_def)
  then have "ctx_ok (put_fsm_view s v c)"
    unfolding put_fsm_view_def using st by (intro put_state_ok) (simp_all add: xmit_same_def)
  with ok show ?thesis by (simp add: recv_ok_def put_fsm_view_def)
qed

lemma h2_stream_fsm_ok:
  assumes "recv_ok c" "set_option so \<subseteq> ids c" "h2_stream_fsm so ty fl dir c = Some (res, err, c')"
  shows "recv_ok c' \<and> hid c' = hid c \<and> ids c' = ids c \<and> cx_cur_stream c' = cx_cur_stream c
    \<and> ctx_rest c' = ctx_rest c"
proof (cases so)
  case None
  with assms show ?thesis by (simp add: h2_stream_fsm_def)
next
  case (Some s)
  then obtain a v where v: "tfw_h2_stream_fsm a HTTP2_ECODE_NO_ERROR (ctx_fsm_view s c) = Some (res, err, v)"
    "fa_stream a = s" "c' = put_fsm_view s v c"
    using assms(3) by (auto simp: h2_stream_fsm_def)
  have "recv_ok c'"
    unfolding v(3) using fsm_owners [OF v(1)] fsm_keeps_state_ok [OF v(1)] v(2) Some assms
    by (intro put_fsm_view_ok)
      (auto simp: ctx_fsm_view_def out_view_def recv_ok_def ctx_ok_def states_ok_def)
  moreover have "ctx_rest c' = ctx_rest c"
    by (simp add: v(3) put_fsm_view_def) (simp add: ctx_rest_def)
  ultimately show ?thesis by (simp add: v(3) put_fsm_view_def)
qed

lemma drop_current_ok:
  assumes ok: "recv_ok c" and "tfw_h2_current_stream_remove c = Some c'"
  shows "recv_ok c' \<and> hid c' = hid c \<and> cx_cur_stream c' = None
    \<and> (\<exists>s. cx_cur_stream c = Some s \<and> ids c' = ids c - {s})"
proof -
  from assms(2) obtain s d where s: "cx_cur_stream c = Some s" "drop_closed s c = Some d"
    "c' = d\<lparr>cx_cur_stream := None\<rparr>"
    by (auto simp: tfw_h2_current_stream_remove_def drop_closed_def elim!: bind_SomeE)
  then have d: "ctx_ok d" "ctx_rest d = ctx_rest c" "ids d = ids c - {s}"
    using unlink_clean_ok [of c s] ok by (auto simp: recv_ok_def split: if_splits)
  have "ctx_ok c'" using d(1) by (subst ctx_ok_cong [of c' d]) (simp_all add: s(3))
  moreover have "card (ids d) \<le> card (ids c)" using d(3) by (simp add: card_mono)
  ultimately show ?thesis
    using ok s(1) d(3) ctx_restD(1,5) [OF d(2)] by (simp add: recv_ok_def s(3)) linarith
qed

lemma current_send_rst_ok:
  assumes ok: "recv_ok c" and "tfw_h2_current_stream_send_rst err c = Some (r, c')"
  shows "recv_ok c' \<and> hid c' = hid c \<and> cx_cur_stream c' = None \<and> ids c' = ids c"
proof -
  from assms(2) obtain s d where s: "cx_cur_stream c = Some s" "tfw_h2_stream_unlink_nolock s c = Some d"
    "tfw_h2_send_rst_stream s err ((tfw_h2_stream_add_to_queue_nolock Closed_Queue s d)\<lparr>cx_cur_stream := None\<rparr>)
       = (r, c')"
    by (auto simp: tfw_h2_current_stream_send_rst_def elim!: bind_SomeE)
  have si: "s \<in> ids c" using ok s(1) by (simp add: recv_ok_def)
  then have d: "ctx_ok d" "ctx_rest d = ctx_rest c"
    "cx_sched d = upd_stream s (\<lambda>t. t\<lparr>st_queue := None, st_msg := None\<rparr>) (cx_sched c)"
    using unlink_ok [of c s] ok s(2) by (auto simp: recv_ok_def)
  let ?e = "(tfw_h2_stream_add_to_queue_nolock Closed_Queue s d)\<lparr>cx_cur_stream := None\<rparr>"
  have "ctx_ok ?e" using add_to_queue_ok [OF d(1), of s] si d(3)
    by (subst ctx_ok_cong [of ?e "tfw_h2_stream_add_to_queue_nolock Closed_Queue s d"]) simp_all
  then have "recv_ok ?e"
    using ok d(3) ctx_restD [OF d(2)] by (simp add: recv_ok_def)
  with conn_coreD [OF conn_core_ctrl(2) [OF s(3)]] ctx_restD [OF d(2)] d(3) show ?thesis
    by simp
qed

lemma stream_recv_process_ok:
  assumes ok: "recv_ok c" and "STREAM_RECV_PROCESS c = Some (ret, c')"
  shows "recv_ok c' \<and> hid c' = hid c \<and> (ret = None \<longrightarrow> cx_cur_stream c' = cx_cur_stream c)"
proof -
  from assms(2) obtain res err d where d: "h2_stream_fsm (cx_cur_stream c) (h_type (cx_hdr c))
      (h_flags (cx_hdr c)) False c = Some (res, err, d)" and
    c': "(case res of STREAM_FSM_RES_OK \<Rightarrow> Some (None, d)
         | STREAM_FSM_RES_TERM_CONN \<Rightarrow>
             Some (Some T_BAD, tfw_h2_conn_terminate err (SET_TO_READ_VERIFY HTTP2_IGNORE_FRAME_DATA d))
         | STREAM_FSM_RES_TERM_STREAM \<Rightarrow>
             map_option (\<lambda>(r, c). (Some r, c))
               (tfw_h2_current_stream_send_rst err (SET_TO_READ_VERIFY HTTP2_IGNORE_FRAME_DATA d))
         | STREAM_FSM_RES_IGNORE \<Rightarrow>
             Some (Some T_OK, SET_TO_READ_VERIFY HTTP2_IGNORE_FRAME_DATA d)) = Some (ret, c')"
    by (auto simp: STREAM_RECV_PROCESS_def split: if_splits elim!: bind_SomeE)
  have "recv_ok d" "hid d = hid c" "cx_cur_stream d = cx_cur_stream c"
    using h2_stream_fsm_ok [OF ok _ d] ok by (auto simp: recv_ok_def)
  moreover have "recv_ok (SET_TO_READ_VERIFY st d) = recv_ok d" "hid (SET_TO_READ_VERIFY st d) = hid d" for st
    using conn_coreD [of "SET_TO_READ_VERIFY st d" d] by auto
  ultimately show ?thesis
    using c' conn_coreD [OF conn_core_ctrl(6)] 
    by (auto split: TfwStreamFsmRes.splits dest!: current_send_rst_ok [rotated])
qed


lemma check_closed_ok:
  assumes ok: "recv_ok c" and "tfw_h2_check_current_stream_is_closed c = Some c'"
  shows "recv_ok c' \<and> hid c' = hid c"
  using assms drop_current_ok [OF ok, of c']
  by (auto simp: tfw_h2_check_current_stream_is_closed_def split: if_splits elim!: bind_SomeE)

lemma state_process_ok:
  assumes ok: "recv_ok c" and "tfw_h2_current_stream_state_process c = Some (r, c')"
  shows "recv_ok c' \<and> hid c' = hid c"
proof -
  from assms(2) obtain ret d where d: "STREAM_RECV_PROCESS c = Some (ret, d)"
    "(case ret of Some r \<Rightarrow> Some (r, d)
      | None \<Rightarrow> map_option (\<lambda>c. (T_OK, c)) (tfw_h2_check_current_stream_is_closed d)) = Some (r, c')"
    by (auto simp: tfw_h2_current_stream_state_process_def elim!: bind_SomeE)
  from stream_recv_process_ok [OF ok d(1)] d(2) check_closed_ok [of d c'] show ?thesis
    by (auto split: option.splits)
qed

text \<open>A stream is created for a received frame.\<close>

lemma recv_create_ok:
  assumes ok: "recv_ok c" and i: "i \<noteq> sched_root" and lim: "card (ids c) < max_streams c"
    and "tfw_h2_stream_create i c = Some (so, c')"
  shows "recv_ok (c'\<lparr>cx_cur_stream := so\<rparr>) \<and> hid c' = hid c
    \<and> (\<forall>s. so = Some s \<longrightarrow> s \<in> ids c' \<and> st_queue (strm c' s) = None)"
proof -
  have core: "ctx_ok (d\<lparr>cx_cur_stream := x\<rparr>) = ctx_ok d" for d x
    by (rule ctx_ok_cong) simp_all
  have okc: "ctx_ok c" using ok by (simp add: recv_ok_def)
  show ?thesis
  proof (cases rule: create_ok [OF okc i, case_names failed created])
    case (failed d)
    with assms(4) have "so = None" "same_mem c c'" by simp_all
    with ok ctx_restD(1,5) [OF same_memD(2) [OF \<open>same_mem c c'\<close>]] same_memD(1,3) [OF \<open>same_mem c c'\<close>]
    show ?thesis by (simp add: recv_ok_def core)
  next
    case (created d)
    with assms(4) have d: "so = Some i" "d = c'" by simp_all
    have "st_queue (strm c' i) = None"
      using arg_cong [OF spec [OF created(8), of i], of st_queue]
      by (simp add: d tfw_h2_init_stream_def zero_stream_def)
    with created(2,3,5) ok lim ctx_restD(1,5) [OF created(4)] show ?thesis
      by (simp add: d recv_ok_def core Suc_le_eq)
  qed
qed

lemma headers_process_ok:
  assumes ok: "recv_ok c" and i: "h_stream_id (cx_hdr c) \<noteq> sched_root"
    and lim: "cx_cur_stream c = None \<longrightarrow> card (ids c) < max_streams c"
    and "tfw_h2_headers_process c = Some (r, c')"
  shows "recv_ok c' \<and> hid c' = hid c"
proof -
  define d where "d = c\<lparr>cx_lstream_id := h_stream_id (cx_hdr c)\<rparr>"
  have d: "conn_core d = conn_core c" by (simp add: d_def)
  note dD = conn_coreD [OF d]
  have okd: "recv_ok d" using ok dD by simp
  have st: "conn_core (d\<lparr>cx_state := HTTP2_IGNORE_FRAME_DATA\<rparr>) = conn_core d" by simp
  consider (self_new) "tfw_h2_send_rst_stream (h_stream_id (cx_hdr c)) HTTP2_ECODE_PROTO
        (d\<lparr>cx_state := HTTP2_IGNORE_FRAME_DATA\<rparr>) = (r, c')"
    | (self_old) "tfw_h2_current_stream_send_rst HTTP2_ECODE_PROTO
        (d\<lparr>cx_state := HTTP2_IGNORE_FRAME_DATA\<rparr>) = Some (r, c')"
    | (create) so e where "cx_cur_stream c = None"
        "tfw_h2_stream_create (h_stream_id (cx_hdr c)) d = Some (so, e)"
        "(if so = None then Some (ENOMEM, e\<lparr>cx_cur_stream := so\<rparr>)
          else tfw_h2_current_stream_state_process (e\<lparr>cx_cur_stream := so\<rparr>)) = Some (r, c')"
    | (idle) s e where "cx_cur_stream c = Some s" "tfw_h2_stream_remove_idle s d = Some e"
        "tfw_h2_current_stream_state_process e = Some (r, c')"
    | (plain) "tfw_h2_current_stream_state_process d = Some (r, c')"
    using assms(4)
    by (auto simp: tfw_h2_headers_process_def d_def Let_def split: if_splits option.splits
        elim!: bind_SomeE)
  then show ?thesis
  proof cases
    case self_new
    from conn_coreD [OF conn_core_ctrl(2) [OF this]] okd dD conn_coreD [OF st] show ?thesis by simp
  next
    case self_old
    from current_send_rst_ok [OF _ this] okd dD conn_coreD [OF st] show ?thesis by simp
  next
    case create
    with recv_create_ok [OF okd i _ create(2)] lim dD have "recv_ok (e\<lparr>cx_cur_stream := so\<rparr>)" "hid e = hid c"
      by simp_all
    with create(3) state_process_ok [of "e\<lparr>cx_cur_stream := so\<rparr>" r c'] show ?thesis
      by (auto split: if_splits)
  next
    case idle
    then have s: "s \<in> ids d" "ctx_ok d" using okd dD by (simp_all add: recv_ok_def)
    with del_from_queue_ok [OF s(2,1)] idle(2) have e: "ctx_ok e" "ctx_rest e = ctx_rest d" "ids e = ids d"
      by (auto simp: tfw_h2_stream_remove_idle_def)
    then have "recv_ok e" "hid e = hid c"
      using okd ctx_restD(1,4,5) [OF e(2)] dD(3) by (simp_all add: recv_ok_def)
    with state_process_ok [OF _ idle(3)] show ?thesis by simp
  next
    case plain
    from state_process_ok [OF okd this] dD show ?thesis by simp
  qed
qed

end
