(* ===== verification/H2_Example.thy ===== *)
theory H2_Example
  imports H2_Recv_Inv
begin

text \<open>
  The initial connection satisfies the invariants, and small connections on which the
  hypotheses of the properties hold: a connection with streams opened in turn, with the
  priorities the client asks for, and with data to send on some of them.
\<close>

section \<open>The initial connection\<close>

lemma init_ctx_ok: "ctx_ok (tfw_h2_context_init m l n env)"
  using init_sched_ok
  by (auto simp: ctx_ok_def tfw_h2_context_init_def queue_ok_def queue_get_def blocked_ok_def
      blocked_set_def owners_ok_def states_ok_def empty_queue_def stream_ids_def
      tfw_h2_init_stream_sched_def split: stream_queue.split)

section \<open>Examples\<close>

definition ex_env :: h2_env where
  "ex_env = \<lparr>e_alloc = (\<lambda>_. True), e_send = (\<lambda>_. T_OK), e_ts = 1000, e_mss_now = 1400,
     e_tls_max_overhead = 40, e_ctrl_frame_rate_mul = 1, e_wnd_update_frame_rate_mul = 1\<rparr>"

definition ex_ctx :: TfwH2Ctx where
  "ex_ctx = tfw_h2_context_init 100 0 50 ex_env"

text \<open>A stream with a dependency and a weight.\<close>

definition opened :: "sid \<Rightarrow> sid \<Rightarrow> u16 \<Rightarrow> TfwH2Ctx \<Rightarrow> TfwH2Ctx" where
  "opened i dep w c =
     (case tfw_h2_stream_create i (c\<lparr>cx_priority := \<lparr>pri_stream_id = dep, pri_weight = w, pri_exclusive = False\<rparr>\<rparr>) of
        None \<Rightarrow> c
      | Some (_, c') \<Rightarrow> c')"

lemma ex_ctx_ok: "ctx_ok ex_ctx"
  by (simp add: ex_ctx_def init_ctx_ok)

lemma opened_ok:
  assumes "ctx_ok c" "i \<noteq> sched_root"
  shows "ctx_ok (opened i dep w c)"
proof -
  let ?c = "c\<lparr>cx_priority := \<lparr>pri_stream_id = dep, pri_weight = w, pri_exclusive = False\<rparr>\<rparr>"
  have ok: "ctx_ok ?c" using assms(1) by (subst ctx_ok_cong [of ?c c]) simp_all
  show ?thesis
  proof (cases rule: create_ok [OF ok assms(2), case_names failed created])
    case (failed c')
    with ok same_memD(1) [OF failed(2)] show ?thesis by (simp add: opened_def)
  qed (simp_all add: opened_def)
qed

text \<open>The tree of a client that declares no dependencies.\<close>

lemma flatI:
  assumes "sched_ok S" "\<And>s. s \<in> stream_ids S \<Longrightarrow> par S s = Some sched_root"
  shows "flat S"
proof -
  have inv: "sched_inv settled_cnt S" "sched_root \<notin> stream_ids S"
    using assms(1) by (auto simp: sched_ok_def sched_inv_def inv_tree_def)
  have "par S t \<noteq> Some s" if "s \<in> stream_ids S" for s t
  proof
    assume p: "par S t = Some s"
    with assms(2) [OF inv_parD(1) [OF inv(1) p]] that inv(2) show False by simp
  qed
  then show ?thesis by (simp add: flat_def children_def)
qed

text \<open>A stream gets data to send.\<close>

definition ex_xmit :: TfwHttpXmit where
  "ex_xmit = (st_xmit zero_stream)\<lparr>x_skb_head := [\<lparr>sk_len = 100, sk_is_head = True, sk_settings_ack = False\<rparr>]\<rparr>"

definition ready_stream :: "sid \<Rightarrow> TfwStreamSched \<Rightarrow> TfwStreamSched" where
  "ready_stream s S = (case tfw_h2_sched_activate_stream s (set_xmit ex_xmit s S) of None \<Rightarrow> S | Some S \<Rightarrow> S)"

lemma ready_stream_ok:
  assumes "sched_ok S" "s \<in> stream_ids S" "\<not> tfw_h2_stream_is_active S s"
  shows "sched_ok (ready_stream s S)"
  using activate_ok [OF assms, of ex_xmit]
  by (auto simp: ready_stream_def xmit_active_def ex_xmit_def zero_stream_def)

text \<open>
  Streams 1 and 3 at the root, 5 and 7 below 1; all with weights of their own.
\<close>

definition ex_tree :: TfwH2Ctx where
  "ex_tree = opened 7 1 2 (opened 5 1 2 (opened 3 0 16 (opened 1 0 8 ex_ctx)))"

lemma ex_tree_ok: "ctx_ok ex_tree"
  by (simp add: ex_tree_def opened_ok ex_ctx_ok)

text \<open>Evaluation of small examples: arguments first, branches only once they are chosen.\<close>

lemma bind_weak: "m = m' \<Longrightarrow> Option.bind m f = Option.bind m' f"
  by simp

lemma map_option_weak: "m = m' \<Longrightarrow> map_option f m = map_option f m'"
  by simp

lemma ex_replicate: "replicate (numeral n) x = x # replicate (pred_numeral n) x"
  by (simp add: numeral_eq_Suc)

lemmas ex_cong = bind_weak map_option_weak let_weak_cong

lemmas ex_eval =
  ex_ctx_def ex_env_def ex_xmit_def ready_stream_def set_xmit_def opened_def tfw_h2_context_init_def
  tfw_h2_stream_create_def tfw_h2_alloc_stream_sched_entry_def tfw_h2_free_stream_sched_entry_def
  tfw_h2_add_stream_def kmem_alloc_def tfw_h2_find_stream_dep_def on_sched_def upd_sched_def
  tfw_h2_add_stream_dep_def tfw_h2_stream_sched_enqueue_def sched_attach_def
  tfw_h2_stream_sched_insert_active_def tfw_h2_stream_sched_insert_blocked_def
  tfw_h2_stream_is_active_def sched_list_del_def upd_stream_def upd_entry_def stream_weight_def
  tfw_h2_init_stream_def zero_stream_def tfw_h2_init_stream_sched_def tfw_h2_init_stream_sched_entry_def
  tfw_h2_stream_sched_propagate_add_active_cnt_def stream_active_cnt_def init_settings_def empty_queue_def
  zero_stat_def zero_pri_def zero_hdr_def tfw_h2_stream_sched_insert_by_weight_def sched_before_def
  tfw_h2_sched_activate_stream_def sched_propagate_add.simps add_active_cnt_def Let_def

definition ex_sched :: TfwStreamSched where
  "ex_sched = ready_stream 7 (cx_sched ex_tree)"

lemma ex_tree_eval:
  "stream_ids (cx_sched ex_tree) = {1, 3, 5, 7}"
  "\<not> tfw_h2_stream_is_active (cx_sched ex_tree) 7"
  unfolding stream_ids_def by (auto simp: ex_tree_def ex_eval cong: ex_cong)

lemma ex_sched_ok: "sched_ok ex_sched"
  using ex_tree_ok by (auto simp: ex_sched_def ctx_ok_def ex_tree_eval intro!: ready_stream_ok)

lemma ex_sched_eval:
  "sc_streams ex_sched = sc_streams (cx_sched ex_tree)" "cnt ex_sched sched_root = 1"
  "map (par ex_sched) [1, 3, 5, 7] = [Some 0, Some 0, Some 1, Some 1]"
  "map (tfw_h2_stream_is_active ex_sched) [1, 3, 5, 7] = [False, False, False, True]"
  by (simp_all add: ex_sched_def ex_tree_def ex_eval cong: ex_cong)

end
