(* ===== verification/H2_Sched_Spec.thy ===== *)
theory H2_Sched_Spec
  imports H2_Example
begin

text \<open>
  The properties of the HTTP/2 priority scheduler, \<^verbatim>\<open>src/fw/http_stream_sched.c\<close>, and of the
  storage of streams.
\<close>

section \<open>The number of active streams\<close>

text \<open>
  Every stream is a child of one entry, and an entry counts the active streams below it;
  hence the root counts all of them.
\<close>

lemma root_counts_active:
  assumes ok: "sched_ok S"
  shows "cnt S sched_root = int (card {s \<in> stream_ids S. tfw_h2_stream_is_active S s})"
proof -
  have tree: "inv_tree S" and ct: "inv_cnt settled_cnt S" and par: "\<forall>s \<in> stream_ids S. par S s \<noteq> None"
    using ok by (auto simp: sched_ok_def sched_inv_def)
  have un: "(\<Union>k \<in> sched_keys S. children S k) = stream_ids S"
    using tree par by (force simp: children_def inv_tree_def)
  have "(\<Sum>k \<in> sched_keys S. cnt S k) = (\<Sum>k \<in> sched_keys S. \<Sum>s \<in> children S k. stream_active_cnt S s)"
    using ct by (intro sum.cong) (auto simp: inv_cnt_def)
  also have "\<dots> = (\<Sum>s \<in> (\<Union>k \<in> sched_keys S. children S k). stream_active_cnt S s)"
    using tree by (subst sum.UNION_disjoint) (auto simp: sched_keys_def children_def [of S])
  also have "\<dots> = (\<Sum>s \<in> stream_ids S. cnt S s) + (\<Sum>s \<in> stream_ids S. of_bool (tfw_h2_stream_is_active S s))"
    unfolding un by (simp add: stream_active_cnt_def sum.distrib [symmetric] of_bool_def)
  finally show ?thesis
    using tree by (simp add: sched_keys_def inv_tree_def sum.inter_filter [symmetric] of_bool_def)
qed

section \<open>Selection\<close>

lemma most_prio_active: "most_prio S k s \<Longrightarrow> tfw_h2_stream_is_active S s \<and> (\<exists>p. par S s = Some p)"
  by (induction rule: most_prio.induct) (auto simp: best_child_def children_def)

text \<open>
  (C8) The search for the stream to send from returns.  It returns NULL exactly when no stream
  has data that may be sent; otherwise the stream it returns is active and is reached from the
  root by going to the heaviest child that has active streams (the smaller id among equals),
  until this child is itself active.
\<close>

theorem most_prio_stream_correct:
  assumes "sched_ok S"
  shows "(tfw_h2_sched_get_most_prio_stream S = Some None
            \<and> (\<forall>s. s \<in> stream_ids S \<longrightarrow> \<not> tfw_h2_stream_is_active S s))
       \<or> (\<exists>s. tfw_h2_sched_get_most_prio_stream S = Some (Some s)
            \<and> s \<in> stream_ids S \<and> tfw_h2_stream_is_active S s \<and> most_prio S sched_root s)"
proof (cases "cnt S sched_root = 0")
  case True
  with root_counts_active [OF assms] have "{s \<in> stream_ids S. tfw_h2_stream_is_active S s} = {}" by simp
  with True sched_most_prio_correct [OF assms, of sched_root] show ?thesis
    by (auto simp: tfw_h2_sched_get_most_prio_stream_def sched_keys_def)
next
  case False
  with sched_most_prio_correct [OF assms, of sched_root]
  obtain s where s: "sched_most_prio sched_root S = Some (Some s)" "most_prio S sched_root s"
    by (auto simp: sched_keys_def)
  with most_prio_active [OF s(2)] assms inv_parD(1) show ?thesis
    by (auto simp: tfw_h2_sched_get_most_prio_stream_def sched_ok_def)
qed

theorem most_prio_stream_correct_witness:
  "sched_ok ex_sched \<and> tfw_h2_sched_get_most_prio_stream ex_sched \<noteq> Some None"
proof -
  have "7 \<in> stream_ids ex_sched" "tfw_h2_stream_is_active ex_sched 7"
    using ex_tree_eval(1) ex_sched_eval by (simp_all add: stream_ids_def)
  with most_prio_stream_correct [OF ex_sched_ok] ex_sched_ok show ?thesis by auto
qed

section \<open>Priorities\<close>



section \<open>Removal\<close>



text \<open>
  The situation can be brought about by a client: streams 1 and 3 depend on the root,
  streams 5 and 7 of weight 2 on stream 1 of weight 8, and only stream 7 has a response to
  send.  When stream 1 is removed, the blocked stream 5 gets the weight 2 * 8 / 4 = 4, which
  then is subtracted from the total weight of stream 1, so that nothing is left of it when the
  active children are moved.
\<close>

theorem remove_divides_by_zero: "tfw_h2_remove_stream_dep 1 ex_sched = None"
  by (simp add: ex_sched_def ex_tree_def ex_eval tfw_h2_remove_stream_dep_def sched_detach_def
      tfw_h2_stream_sched_has_children_def tfw_h2_stream_sched_move_children_def children_of_def
      sched_move_children_loop.simps sched_reweight_def sched_new_weight_def
      tfw_h2_stream_sched_reinsert_def cong: ex_cong)

end
