(* ===== verification/H2_Ctx_Spec.thy ===== *)
theory H2_Ctx_Spec
  imports H2_Example
begin

text \<open>
  The properties of the connection context: creation of streams, the queues of idle and closed
  streams and the end of a connection (\<^verbatim>\<open>src/fw/http_stream.c\<close>, \<^verbatim>\<open>src/fw/http2.c\<close>).
\<close>

section \<open>Creation of streams\<close>



section \<open>Closed streams\<close>

lemma shrink_bounds:
  fixes l a k n :: nat
  assumes "n = max (l - 5) (min l (Suc a - k))" "l \<le> a"
  shows "l - n \<le> 5" "a - min l n < k \<or> l - n = 0"
proof -
  have n: "l - 5 \<le> n" "min l (Suc a - k) \<le> n" by (simp_all add: assms)
  then show "l - n \<le> 5" by linarith
  show "a - min l n < k \<or> l - n = 0" using n(2) assms(2) by (cases "l \<le> n") auto
qed

lemma filter_notin_take:
  assumes "distinct xs"
  shows "filter (\<lambda>x. x \<notin> set (take n xs)) xs = drop n xs"
proof -
  have "filter (\<lambda>x. x \<notin> set (take n xs)) (take n xs @ drop n xs) = drop n xs"
    using set_take_disj_set_drop_if_distinct [OF assms, of n n]
    by (simp only: filter_append) (auto intro!: filter_True)
  then show ?thesis by simp
qed


definition ex_full :: TfwH2Ctx where
  "ex_full = tfw_h2_stream_add_closed 1 (opened 1 0 16 (tfw_h2_context_init 1 0 50 ex_env))"

lemma ex_full_eval:
  "ids (opened 1 0 16 (tfw_h2_context_init 1 0 50 ex_env)) = {1}"
  "ids ex_full = {1}" "par (cx_sched ex_full) 1 = Some sched_root"
  "q_list (cx_closed_streams ex_full) = [1]" "max_streams ex_full = 1"
  by (simp_all add: ex_full_def ex_eval stream_ids_def tfw_h2_stream_add_closed_def put_strm_def strm_def
      tfw_h2_stream_add_to_queue_nolock_def queue_upd_def cong: ex_cong)

lemma ex_full_ok: "ctx_ok ex_full" "flat (cx_sched ex_full)"
proof -
  show ok: "ctx_ok ex_full"
    unfolding ex_full_def tfw_h2_stream_add_closed_def
    by (rule add_to_queue_ok [OF opened_ok]) (simp_all add: init_ctx_ok ex_full_eval)
  then show "flat (cx_sched ex_full)"
    by (rule flatI [OF ctx_okD(1)]) (simp add: ex_full_eval)
qed


section \<open>Idle streams\<close>

abbreviation (input) idle_list :: "TfwH2Ctx \<Rightarrow> sid list" where
  "idle_list c \<equiv> q_list (cx_idle_streams c)"

text \<open>One stream moves from the idle to the closed queue.\<close>

lemma close_idle_step:
  assumes ok: "ctx_ok c" and l: "idle_list c = s # ss"
  shows "\<exists>d. tfw_h2_stream_del_from_queue_nolock s c = Some d
    \<and> (let c' = tfw_h2_stream_add_closed s (put_strm s close_stream d) in
       ctx_ok c' \<and> idle_list c' = ss \<and> closed_list c' = closed_list c @ [s]
       \<and> (\<forall>t. st_state (strm c' t) = (if t = s then tfw_h2_set_stream_state HTTP2_STREAM_CLOSED (st_state (strm c s))
            else st_state (strm c t))))"
proof -
  have qs: "queue_ok q c" for q by (rule ctx_okD(2) [OF ok])
  have s: "s \<in> ids c" using qs [of Idle_Queue] l by (auto simp: queue_ok_def queue_get_def)
  then have "st_queue (strm c s) = Some Idle_Queue"
    using qs [of Idle_Queue] l by (auto simp: queue_ok_def queue_get_def)
  then have cl: "s \<notin> set (closed_list c)"
    using qs [of Closed_Queue] by (auto simp: queue_ok_def queue_get_def)
  obtain d where d: "tfw_h2_stream_del_from_queue_nolock s c = Some d" "ctx_ok d"
    "cx_sched d = upd_stream s (set_queue None) (cx_sched c)"
    "\<And>r. q_list (queue_get r d) = remove1 s (q_list (queue_get r c))"
    using del_from_queue_ok [OF ok s] by (metis option.inject)
  have "idle_list d = ss" "closed_list d = closed_list c"
    using d(4) [of Idle_Queue] d(4) [of Closed_Queue] l cl by (simp_all add: queue_get_def remove1_idem)
  moreover have "strm d t = (if t = s then set_queue None (strm c s) else strm c t)" for t
    using d(3) by (simp add: strm_def)
  moreover have "ctx_ok (tfw_h2_stream_add_closed s (put_strm s close_stream d))"
    using close_idle_ok [OF ok s] d(1) by (simp add: Let_def)
  moreover have "strm (x\<lparr>cx_closed_streams := q\<rparr>) = strm x" for x q by (simp add: strm_def fun_eq_iff)
  ultimately show ?thesis
    using d(1) by (auto simp: Let_def tfw_h2_stream_add_closed_def tfw_h2_stream_add_to_queue_nolock_def
        queue_upd_def)
qed

lemma remove_idle_loop_exact:
  assumes "ctx_ok c" "idle_list c = ss"
  shows "\<exists>c'. remove_idle_loop ss i c = Some c' \<and> ctx_ok c' \<and> idle_list c' = dropWhile (\<lambda>s. s < i) ss
    \<and> closed_list c' = closed_list c @ takeWhile (\<lambda>s. s < i) ss
    \<and> (\<forall>s. st_state (strm c' s) = (if s \<in> set (takeWhile (\<lambda>s. s < i) ss)
         then tfw_h2_set_stream_state HTTP2_STREAM_CLOSED (st_state (strm c s)) else st_state (strm c s)))"
  using assms
proof (induction ss arbitrary: c)
  case (Cons s ss)
  show ?case
  proof (cases "s < i")
    case True
    obtain d where d: "tfw_h2_stream_del_from_queue_nolock s c = Some d"
      and d': "let c' = tfw_h2_stream_add_closed s (put_strm s close_stream d) in
       ctx_ok c' \<and> idle_list c' = ss \<and> closed_list c' = closed_list c @ [s]
       \<and> (\<forall>t. st_state (strm c' t) = (if t = s then tfw_h2_set_stream_state HTTP2_STREAM_CLOSED (st_state (strm c s))
            else st_state (strm c t)))"
      using close_idle_step [OF Cons.prems] by blast
    let ?d = "tfw_h2_stream_add_closed s (put_strm s close_stream d)"
    have "s \<notin> set ss"
      using ctx_okD(2) [OF Cons.prems(1), of Idle_Queue] Cons.prems(2) by (simp add: queue_ok_def queue_get_def)
    then have "s \<notin> set (takeWhile (\<lambda>s. s < i) ss)" by (auto dest: set_takeWhileD)
    moreover obtain c' where "remove_idle_loop ss i ?d = Some c'" "ctx_ok c'"
      "idle_list c' = dropWhile (\<lambda>s. s < i) ss" "closed_list c' = closed_list ?d @ takeWhile (\<lambda>s. s < i) ss"
      "\<forall>s. st_state (strm c' s) = (if s \<in> set (takeWhile (\<lambda>s. s < i) ss)
         then tfw_h2_set_stream_state HTTP2_STREAM_CLOSED (st_state (strm ?d s)) else st_state (strm ?d s))"
      using Cons.IH [of ?d] d' by (auto simp: Let_def)
    ultimately show ?thesis using True d d' by (auto simp: Let_def)
  next
    case False
    with Cons.prems show ?thesis by (auto simp: not_less dest: leD)
  qed
qed simp

lemma sorted_split_less:
  assumes "sorted (xs :: sid list)"
  shows "takeWhile (\<lambda>x. x < i) xs = filter (\<lambda>x. x < i) xs" "dropWhile (\<lambda>x. x < i) xs = filter (\<lambda>x. \<not> x < i) xs"
  using assms by (induction xs) (force intro!: filter_False [symmetric] filter_True [symmetric])+

text \<open>
  (C22) When the queue of idle streams is in ascending order, the first use of a stream id
  closes exactly the idle streams with smaller ids: they move, in order, to the end of the
  queue of closed streams, and no other stream changes its state.
\<close>

theorem remove_idle_streams_correct:
  assumes "ctx_ok c" "sorted (q_list (cx_idle_streams c))"
  shows "\<exists>c'. tfw_h2_remove_idle_streams i c = Some c' \<and> ctx_ok c'
    \<and> q_list (cx_idle_streams c') = filter (\<lambda>s. \<not> s < i) (q_list (cx_idle_streams c))
    \<and> q_list (cx_closed_streams c') = q_list (cx_closed_streams c) @ filter (\<lambda>s. s < i) (q_list (cx_idle_streams c))
    \<and> (\<forall>s. st_state (strm c' s) = (if s \<in> set (q_list (cx_idle_streams c)) \<and> s < i
         then tfw_h2_set_stream_state HTTP2_STREAM_CLOSED (st_state (strm c s)) else st_state (strm c s)))"
  using remove_idle_loop_exact [OF assms(1) refl, of i] sorted_split_less [OF assms(2), of i]
  by (simp add: tfw_h2_remove_idle_streams_def)

text \<open>Idle streams 3 and 5, entered in the order given.\<close>

definition ex_idle :: "sid \<Rightarrow> sid \<Rightarrow> TfwH2Ctx" where
  "ex_idle a b = tfw_h2_stream_add_idle b (tfw_h2_stream_add_idle a (opened 5 0 16 (opened 3 0 16 ex_ctx)))"

lemmas idle_eval = tfw_h2_stream_add_idle_def tfw_h2_stream_add_to_queue_nolock_def queue_upd_def put_strm_def
  strm_def

lemma ex_idle_eval:
  "ids (opened 5 0 16 (opened 3 0 16 ex_ctx)) = {3, 5}"
  "st_queue (strm (opened 5 0 16 (opened 3 0 16 ex_ctx)) 3) = None"
  "st_queue (strm (opened 5 0 16 (opened 3 0 16 ex_ctx)) 5) = None"
  "q_list (cx_idle_streams (ex_idle 3 5)) = [3, 5]" "q_list (cx_idle_streams (ex_idle 5 3)) = [5, 3]"
  by (auto simp: ex_idle_def ex_eval idle_eval stream_ids_def cong: ex_cong)

lemma ex_idle_ok: "ctx_ok (ex_idle 3 5)" "ctx_ok (ex_idle 5 3)"
proof -
  let ?c = "opened 5 0 16 (opened 3 0 16 ex_ctx)"
  have ok: "ctx_ok ?c" by (simp add: opened_ok ex_ctx_ok)
  have "st_queue (strm (tfw_h2_stream_add_idle a ?c) b) = None" if "a = 3 \<and> b = 5 \<or> a = 5 \<and> b = 3" for a b
    using that by (auto simp: ex_eval idle_eval cong: ex_cong)
  then show "ctx_ok (ex_idle 3 5)" "ctx_ok (ex_idle 5 3)"
    using add_idle_ok [OF ok, of 3] add_idle_ok [OF ok, of 5] ex_idle_eval(1-3)
    by (auto simp: ex_idle_def intro!: add_idle_ok [THEN conjunct1])
qed

theorem remove_idle_streams_correct_witness:
  "\<exists>c'. tfw_h2_remove_idle_streams 5 (ex_idle 3 5) = Some c'
    \<and> q_list (cx_idle_streams c') = [5] \<and> q_list (cx_closed_streams c') = [3]"
proof -
  have "q_list (cx_closed_streams (ex_idle 3 5)) = []"
    by (simp add: ex_idle_def ex_eval idle_eval cong: ex_cong)
  with remove_idle_streams_correct [OF ex_idle_ok(1), of 5] ex_idle_eval(4) show ?thesis by auto
qed

text \<open>
  The queue is not kept in ascending order: a stream with an id smaller than all queued
  ones is put at the tail, behind the greater ones.  Idle streams 5 and 3, entered in this order,
  are queued as 5, 3, and the first use of stream 5 then leaves the idle stream 3 alone.
\<close>

theorem idle_queue_misordered:
  "q_list (cx_idle_streams (ex_idle 5 3)) = [5, 3]
   \<and> tfw_h2_remove_idle_streams 5 (ex_idle 5 3) = Some (ex_idle 5 3)"
  using ex_idle_eval(5) by (simp add: tfw_h2_remove_idle_streams_def)

section \<open>The end of a connection\<close>

lemma queue_ok_cong:
  assumes "ids c' = ids c" "\<And>s. st_queue (strm c' s) = st_queue (strm c s)" "queue_get q c' = queue_get q c"
  shows "queue_ok q c' = queue_ok q c"
  unfolding queue_ok_def assms ..

text \<open>The number of preallocated scheduler entries among those of some streams.\<close>

definition dflt_count :: "TfwH2Ctx \<Rightarrow> sid list \<Rightarrow> nat" where
  "dflt_count c ss = length (filter (cx_dflt_entry c) ss)"

lemma cleanup_one:
  assumes qs: "\<And>q. queue_ok q c" and s: "s \<in> ids c"
  shows "\<exists>d e. tfw_h2_stream_unlink_nolock s (put_strm s tfw_h2_stream_purge_all_and_free_response c) = Some d
    \<and> tfw_h2_delete_stream s d = Some e \<and> (\<forall>q. queue_ok q e) \<and> ids e = ids c
    \<and> (\<forall>q. q_list (queue_get q e) = remove1 s (q_list (queue_get q c)))
    \<and> cx_streams_num e = cx_streams_num c \<and> cx_dflt_entry e = cx_dflt_entry c
    \<and> cx_free_entries e = cx_free_entries c + of_bool (cx_dflt_entry c s)
    \<and> sc_streams (cx_sched e) = sc_streams (cx_sched c)"
proof -
  let ?c = "put_strm s tfw_h2_stream_purge_all_and_free_response c"
  have qc: "queue_ok q ?c" for q
    using qs by (subst queue_ok_cong [of _ c])
      (auto simp: tfw_h2_stream_purge_all_and_free_response_def tfw_h2_stream_purge_all_def)
  obtain d where d: "tfw_h2_stream_del_from_queue_nolock s ?c = Some d" "\<forall>r. queue_ok r d"
    "cx_sched d = upd_stream s (set_queue None) (cx_sched ?c)"
    "\<forall>r. q_list (queue_get r d) = remove1 s (q_list (queue_get r ?c))"
    "cx_streams_num d = cx_streams_num ?c" "cx_free_entries d = cx_free_entries ?c" "cx_dflt_entry d = cx_dflt_entry ?c"
    using del_from_queue_queues [OF qc, of s] s by auto
  define e where "e = (case st_msg (strm ?c s) of None \<Rightarrow> d
    | Some b \<Rightarrow> if b then put_strm s (\<lambda>t. t\<lparr>st_msg := None\<rparr>) d
        else (put_strm s (\<lambda>t. t\<lparr>st_msg := None\<rparr>) d)\<lparr>cx_freed_msgs := s # cx_freed_msgs d\<rparr>)"
  have un: "tfw_h2_stream_unlink_nolock s ?c = Some e"
    using d(1) by (auto simp: tfw_h2_stream_unlink_nolock_def e_def put_strm_def upd_sched_def Let_def split: option.split)
  have e: "ids e = ids c" "st_queue (strm e t) = st_queue (strm d t)" "queue_get q e = queue_get q d"
    "cx_streams_num e = cx_streams_num c" "cx_free_entries e = cx_free_entries c" "cx_dflt_entry e = cx_dflt_entry c"
    "st_xmit (strm e t) = st_xmit (strm d t)" "sc_streams (cx_sched e) = sc_streams (cx_sched c)" for t q
    using d(3-7) by (auto simp: e_def strm_def queue_get_def split: option.split stream_queue.split)
  have "x_skb_head (st_xmit (strm e s)) = [] \<and> \<not> x_resp (st_xmit (strm e s))"
    using e(7) [of s] d(3) by (simp add: strm_def tfw_h2_stream_purge_all_and_free_response_def tfw_h2_stream_purge_all_def)
  then have del: "tfw_h2_delete_stream s e = Some (tfw_h2_free_stream_sched_entry (cx_dflt_entry c s) e)"
    by (simp add: tfw_h2_delete_stream_def e)
  have qe: "queue_ok q e" for q using d(2,3) e by (subst queue_ok_cong [of e d]) auto
  have "queue_ok q (tfw_h2_free_stream_sched_entry b e) = queue_ok q e" for q b
    by (rule queue_ok_cong) (auto simp: tfw_h2_free_stream_sched_entry_def strm_def queue_get_def split: stream_queue.split)
  moreover have "queue_get q (tfw_h2_free_stream_sched_entry b e) = queue_get q e" for q b
    by (simp add: tfw_h2_free_stream_sched_entry_def queue_get_def split: stream_queue.split)
  ultimately show ?thesis
    using un del qe e d(4) by (simp add: tfw_h2_free_stream_sched_entry_def)
qed

lemma cleanup_loop:
  assumes "\<And>q. queue_ok q c" "set ss \<subseteq> ids c" "distinct ss"
  shows "\<exists>c'. streams_cleanup_loop ss c = Some c' \<and> (\<forall>q. queue_ok q c')
    \<and> (\<forall>q. set (q_list (queue_get q c')) \<subseteq> set (q_list (queue_get q c)) - set ss)
    \<and> cx_streams_num c' = cx_streams_num c - of_nat (length ss)
    \<and> cx_free_entries c' = cx_free_entries c + dflt_count c ss"
  using assms
proof (induction ss arbitrary: c)
  case (Cons s ss)
  obtain d e where de: "tfw_h2_stream_unlink_nolock s (put_strm s tfw_h2_stream_purge_all_and_free_response c) = Some d"
    "tfw_h2_delete_stream s d = Some e" "\<forall>q. queue_ok q e" "ids e = ids c"
    "\<forall>q. q_list (queue_get q e) = remove1 s (q_list (queue_get q c))"
    "cx_streams_num e = cx_streams_num c" "cx_dflt_entry e = cx_dflt_entry c"
    "cx_free_entries e = cx_free_entries c + of_bool (cx_dflt_entry c s)"
    using cleanup_one [OF Cons.prems(1), of s] Cons.prems(2) by auto
  let ?e = "e\<lparr>cx_streams_num := cx_streams_num e - 1\<rparr>"
  have qe: "queue_ok q ?e" for q
    using de(3) by (subst queue_ok_cong [of ?e e]) (auto simp: strm_def queue_get_def split: stream_queue.split)
  obtain c' where c': "streams_cleanup_loop ss ?e = Some c'" "\<forall>q. queue_ok q c'"
    "\<forall>q. set (q_list (queue_get q c')) \<subseteq> set (q_list (queue_get q ?e)) - set ss"
    "cx_streams_num c' = cx_streams_num ?e - of_nat (length ss)"
    "cx_free_entries c' = cx_free_entries ?e + dflt_count ?e ss"
    using Cons.IH [of ?e, OF qe] Cons.prems de(4) by auto
  have "set (q_list (queue_get q c')) \<subseteq> set (q_list (queue_get q c)) - set (s # ss)" for q
  proof -
    have "distinct (q_list (queue_get q c))" using Cons.prems(1) [of q] by (simp add: queue_ok_def)
    moreover have "queue_get q ?e = queue_get q e" by (simp add: queue_get_def split: stream_queue.split)
    ultimately show ?thesis using spec [OF c'(3), of q] spec [OF de(5), of q] by auto
  qed
  with c' de show ?case by (auto simp: dflt_count_def)
qed (simp add: dflt_count_def)

text \<open>
  (C20) Tearing a connection down always succeeds, whatever its tree of dependencies looks
  like: no assertion fails, afterwards there are no streams, the counter of streams is zero,
  the queues are empty, and as many preallocated scheduler entries were returned as its
  streams had taken.
\<close>

theorem conn_streams_cleanup_correct:
  assumes "ctx_ok c"
  shows "\<exists>c'. tfw_h2_conn_streams_cleanup c = Some c' \<and> stream_ids (cx_sched c') = {} \<and> cx_streams_num c' = 0
    \<and> q_list (cx_closed_streams c') = [] \<and> q_list (cx_idle_streams c') = []
    \<and> cx_free_entries c' = cx_free_entries c + card {s \<in> stream_ids (cx_sched c). cx_dflt_entry c s}"
proof -
  let ?ss = "postorder (sc_streams (cx_sched c))"
  have qs: "queue_ok q c" for q by (rule ctx_okD(2) [OF assms])
  have "bst (sc_streams (cx_sched c))"
    using ctx_okD(1) [OF assms] by (simp add: sched_ok_def sched_inv_def inv_tree_def)
  then have dist: "distinct ?ss" and set: "set ?ss = ids c"
    by (auto simp: postorder_distinct stream_ids_def)
  obtain c' where c': "streams_cleanup_loop ?ss c = Some c'"
    "\<forall>q. set (q_list (queue_get q c')) \<subseteq> set (q_list (queue_get q c)) - set ?ss"
    "cx_streams_num c' = cx_streams_num c - of_nat (length ?ss)"
    "cx_free_entries c' = cx_free_entries c + dflt_count c ?ss"
    using cleanup_loop [OF qs _ dist] set by auto
  have "set (q_list (queue_get q c)) \<subseteq> ids c" for q using qs [of q] by (auto simp: queue_ok_def)
  with c'(2) set have "q_list (queue_get q c') = []" for q by (metis Diff_eq_empty_iff set_empty subset_empty)
  from this [of Closed_Queue] this [of Idle_Queue]
  have "q_list (cx_closed_streams c') = []" "q_list (cx_idle_streams c') = []" by (simp_all add: queue_get_def)
  moreover have "cx_streams_num c' = 0"
    using c'(3) ctx_okD(4) [OF assms] distinct_card [OF dist] set by simp
  moreover have "dflt_count c ?ss = card {s \<in> ids c. cx_dflt_entry c s}"
    using distinct_card [OF distinct_filter [OF dist]] set by (simp add: dflt_count_def)
  ultimately show ?thesis
    using c'(1,4) by (auto simp: tfw_h2_conn_streams_cleanup_def upd_sched_def stream_ids_def)
qed

theorem conn_streams_cleanup_correct_witness:
  "ctx_ok ex_tree \<and> (\<exists>c'. tfw_h2_conn_streams_cleanup ex_tree = Some c' \<and> cx_streams_num c' = 0)"
  using conn_streams_cleanup_correct [OF ex_tree_ok] ex_tree_ok by blast

end
