(* ===== verification/H2_Conn_Spec.thy ===== *)
theory H2_Conn_Spec
  imports H2_Example
begin

unbundle bit_operations_syntax

text \<open>
  The properties of the frame header codec, of the settings and windows of a connection and
  of the rate limits of control frames (\<^verbatim>\<open>src/fw/http_frame.h\<close>, \<^verbatim>\<open>src/fw/http2.c\<close>,
  \<^verbatim>\<open>src/fw/http_frame.c\<close>).
\<close>

section \<open>The frame header\<close>

lemma bit_u8_cast: "bit (ucast (w :: u32) :: u8) n \<longleftrightarrow> n < 8 \<and> bit w n"
  by (auto simp: bit_unsigned_iff)

lemma bit_u32_cast: "bit (ucast (w :: u8) :: u32) n \<longleftrightarrow> bit w n"
  using bit_imp_le_length [of w n] by (auto simp: bit_unsigned_iff)

lemma ntohl_htonl: "ntohl (htonl w) = w"
proof (rule bit_word_eqI)
  fix n :: nat assume "n < LENGTH(32)"
  then have "n < 8 \<or> 8 \<le> n \<and> n < 16 \<or> 16 \<le> n \<and> n < 24 \<or> 24 \<le> n \<and> n < 32" by auto
  then show "bit (ntohl (htonl w)) n = bit w n"
    by (elim disjE) (auto simp: ntohl_def htonl_def bit_or_iff bit_push_bit_iff bit_u32_cast bit_u8_cast bit_drop_bit_eq)
qed

lemma ntohl_cons3: "drop_bit 8 (ntohl (take 3 (htonl (push_bit 8 w)) @ x # xs)) = take_bit 24 w"
proof (rule bit_word_eqI)
  fix n :: nat assume n: "n < LENGTH(32)"
  have x: "\<not> bit x (8 + n)" using bit_imp_le_length [of x "8 + n"] by auto
  from n have "n < 8 \<or> 8 \<le> n \<and> n < 16 \<or> 16 \<le> n \<and> n < 24 \<or> 24 \<le> n \<and> n < 32" by auto
  then show "bit (drop_bit 8 (ntohl (take 3 (htonl (push_bit 8 w)) @ x # xs))) n = bit (take_bit 24 w) n"
    by (elim disjE) (auto simp: ntohl_def htonl_def bit_or_iff bit_push_bit_iff bit_u32_cast bit_u8_cast
        bit_drop_bit_eq bit_take_bit_iff x)
qed

text \<open>
  (C24) A frame header survives being written and read again, for every length and stream id
  that fit their fields of 24 and 31 bits and for every type and flags.
\<close>

theorem frame_header_roundtrip:
  assumes "0 \<le> h_length h" "h_length h < 2 ^ 24" "uint (h_stream_id h) < 2 ^ 31"
  shows "length (tfw_h2_pack_frame_header h) = 9
    \<and> tfw_h2_unpack_frame_header (tfw_h2_pack_frame_header h) = h"
proof -
  let ?w = "word_of_int (h_length h) :: u32"
  have "take_bit 24 ?w = ?w"
    using assms(1,2) by (intro word_uint_eqI) (simp add: unsigned_take_bit_eq unsigned_of_int take_bit_int_eq_self)
  moreover have "h_stream_id h AND 0x7fffffff = h_stream_id h"
  proof -
    have "h_stream_id h AND mask 31 = h_stream_id h"
      unfolding take_bit_eq_mask [symmetric]
      using assms(3) by (intro word_uint_eqI) (simp add: unsigned_take_bit_eq take_bit_int_eq_self)
    then show ?thesis by (simp add: mask_eq_exp_minus_1)
  qed
  ultimately show ?thesis
    using ntohl_cons3 [of ?w "h_type h" "h_flags h # htonl (h_stream_id h)"] ntohl_htonl [of "h_stream_id h"] assms(1,2)
    by (simp add: tfw_h2_pack_frame_header_def tfw_h2_unpack_frame_header_def htonl_def unsigned_of_int take_bit_int_eq_self)
qed

theorem frame_header_roundtrip_witness:
  "tfw_h2_unpack_frame_header (tfw_h2_pack_frame_header
     \<lparr>h_length = 16384, h_stream_id = 0x7fffffff, h_type = HTTP2_DATA, h_flags = 1\<rparr>)
   = \<lparr>h_length = 16384, h_stream_id = 0x7fffffff, h_type = HTTP2_DATA, h_flags = 1\<rparr>"
  using frame_header_roundtrip [of "\<lparr>h_length = 16384, h_stream_id = 0x7fffffff, h_type = HTTP2_DATA, h_flags = 1\<rparr>"]
  by simp

section \<open>Windows\<close>

definition wnd_adjusted :: "TfwH2Ctx \<Rightarrow> sid \<Rightarrow> bool" where
  "wnd_adjusted c s \<longleftrightarrow> tfw_h2_get_stream_state (st_state (strm c s)) \<in> {HTTP2_STREAM_OPENED, HTTP2_STREAM_REM_HALF_CLOSED}"

text \<open>What a change of windows leaves alone.\<close>

definition same_conn :: "TfwH2Ctx \<Rightarrow> TfwH2Ctx \<Rightarrow> bool" where
  "same_conn c c' \<longleftrightarrow> sc_streams (cx_sched c') = sc_streams (cx_sched c) \<and> cx_rsettings c' = cx_rsettings c
     \<and> cx_new_settings c' = cx_new_settings c \<and> cx_settings_to_apply c' = cx_settings_to_apply c
     \<and> (\<forall>s. st_state (strm c' s) = st_state (strm c s))"

lemma apply_wnd_one_ok:
  assumes ok: "ctx_ok c" and s: "s \<in> ids c"
  shows "\<exists>c'. apply_wnd_one delta s c = Some c' \<and> ctx_ok c' \<and> same_conn c c'
    \<and> (\<forall>t. st_rem_wnd (strm c' t) = st_rem_wnd (strm c t) + (if t = s \<and> wnd_adjusted c s then delta else 0))"
proof (cases "wnd_adjusted c s")
  case False
  with ok show ?thesis by (auto simp: apply_wnd_one_def wnd_adjusted_def same_conn_def)
next
  case True
  define d where "d = put_strm s (\<lambda>t. t\<lparr>st_rem_wnd := st_rem_wnd t + delta\<rparr>) c"
  have d: "ctx_ok d" using ok put_strm_ok [of "\<lambda>t. t\<lparr>st_rem_wnd := st_rem_wnd t + delta\<rparr>" c s]
    by (simp add: d_def xmit_same_def)
  have "s \<in> ids d" using s by (simp add: d_def)
  then obtain S' where S': "tfw_h2_stream_try_unblock s (cx_sched d) = Some S'" "sched_ok S'" "blocked_ok S'"
    "sc_streams S' = sc_streams (cx_sched d)"
    "\<And>t. stream_rest (sc_stream S' t) = stream_rest (sc_stream (cx_sched d) t)"
    using try_unblock_ok [of "cx_sched d" s] d by (auto simp: ctx_ok_def)
  let ?e = "d\<lparr>cx_sched := S'\<rparr>" and ?b = "\<not> tfw_h2_is_ready_to_send c"
  have f: "st_queue (sc_stream S' t) = st_queue (strm d t)" "st_state (sc_stream S' t) = st_state (strm d t)"
    "st_rem_wnd (sc_stream S' t) = st_rem_wnd (strm d t)" for t
    using arg_cong [OF S'(5), of st_queue t] arg_cong [OF S'(5), of st_state t] arg_cong [OF S'(5), of st_rem_wnd t]
    by (simp_all add: strm_def)
  have "ctx_ok ?e" by (rule ctx_ok_sched [OF d S'(2-4) f(1,2)])
  then have "ctx_ok (set_has_data ?b ?e)" using conn_coreD(2) [of "set_has_data ?b ?e" ?e] by simp
  moreover have "same_conn c (set_has_data ?b ?e)"
    using S'(4) f(2) by (simp add: same_conn_def set_has_data_def strm_def d_def put_strm_def upd_sched_def)
  moreover have "st_rem_wnd (strm (set_has_data ?b ?e) t)
      = st_rem_wnd (strm c t) + (if t = s then delta else 0)" for t
    using f(3) [of t] by (cases "t = s") (simp_all add: set_has_data_def strm_def d_def)
  ultimately show ?thesis
    using True S'(1) by (auto simp: apply_wnd_one_def wnd_adjusted_def d_def [symmetric] on_sched_def Let_def)
qed

lemma apply_wnd_loop_ok:
  assumes "ctx_ok c" "set ss \<subseteq> ids c" "distinct ss"
  shows "\<exists>c'. apply_wnd_loop delta ss c = Some c' \<and> ctx_ok c' \<and> same_conn c c'
    \<and> (\<forall>t. st_rem_wnd (strm c' t) = st_rem_wnd (strm c t) + (if t \<in> set ss \<and> wnd_adjusted c t then delta else 0))"
  using assms
proof (induction ss arbitrary: c)
  case (Cons s ss)
  obtain d where d: "apply_wnd_one delta s c = Some d" "ctx_ok d" "same_conn c d"
    "\<forall>t. st_rem_wnd (strm d t) = st_rem_wnd (strm c t) + (if t = s \<and> wnd_adjusted c s then delta else 0)"
    using apply_wnd_one_ok [of c s delta] Cons.prems by auto
  have "ids d = ids c" "wnd_adjusted d t = wnd_adjusted c t" for t
    using d(3) by (simp_all add: same_conn_def stream_ids_def wnd_adjusted_def)
  moreover obtain c' where "apply_wnd_loop delta ss d = Some c'" "ctx_ok c'" "same_conn d c'"
    "\<forall>t. st_rem_wnd (strm c' t) = st_rem_wnd (strm d t) + (if t \<in> set ss \<and> wnd_adjusted d t then delta else 0)"
    using Cons.IH [OF d(2)] Cons.prems calculation by auto
  ultimately show ?case using d Cons.prems(3) by (auto simp: same_conn_def)
qed (simp add: same_conn_def)

lemma apply_wnd_sz_change_ok:
  assumes "ctx_ok c"
  shows "\<exists>c'. tfw_h2_apply_wnd_sz_change delta c = Some c' \<and> ctx_ok c' \<and> ids c' = ids c
    \<and> (\<forall>s \<in> ids c. st_rem_wnd (strm c' s) = st_rem_wnd (strm c s) + (if wnd_adjusted c s then delta else 0))"
proof -
  have "bst (sc_streams (cx_sched c))"
    using ctx_okD(1) [OF assms] by (simp add: sched_ok_def sched_inv_def inv_tree_def)
  with apply_wnd_loop_ok [OF assms, of "postorder (sc_streams (cx_sched c))" delta] postorder_distinct
  show ?thesis
    by (auto simp: tfw_h2_apply_wnd_sz_change_def stream_ids_def same_conn_def)
qed

text \<open>
  (C25) A new initial window size of the peer is applied to every stream exactly once: the
  remote window of each open or half closed (remote) stream changes by the difference, also
  below zero, the windows of all other streams stay as they are, no assertion fails, and
  streams that can send again re-enter the scheduler.
\<close>

theorem wnd_sz_change_correct:
  assumes "ctx_ok c"
  shows "\<exists>c'. tfw_h2_apply_wnd_sz_change delta c = Some c' \<and> ctx_ok c' \<and> ids c' = ids c
    \<and> (\<forall>s. s \<in> ids c \<longrightarrow> st_rem_wnd (strm c' s) = st_rem_wnd (strm c s) + (if wnd_adjusted c s then delta else 0))"
  using apply_wnd_sz_change_ok [OF assms, of delta] by blast

text \<open>An idle stream 1 and an open stream 3.\<close>

definition ex_wnd :: TfwH2Ctx where
  "ex_wnd = put_strm 3 (\<lambda>t. t\<lparr>st_state := HTTP2_STREAM_OPENED\<rparr>) (opened 3 0 16 (opened 1 0 16 ex_ctx))"

lemma ex_wnd_eval:
  "ids ex_wnd = {1, 3}" "st_rem_wnd (strm ex_wnd 1) = 65535" "st_rem_wnd (strm ex_wnd 3) = 65535"
  "tfw_h2_get_stream_state (st_state (strm ex_wnd 1)) = HTTP2_STREAM_IDLE"
  "tfw_h2_get_stream_state (st_state (strm ex_wnd 3)) = HTTP2_STREAM_OPENED"
  "cx_rsettings ex_wnd = init_settings 0xffffffff UINT_MAX"
  by (auto simp: ex_wnd_def ex_eval put_strm_def strm_def stream_ids_def tfw_h2_get_stream_state_def cong: ex_cong)

lemma ex_wnd_ok: "ctx_ok ex_wnd"
  unfolding ex_wnd_def
  by (rule put_state_ok) (simp_all add: xmit_same_def state_ok_def stream_state_valid_def tfw_h2_get_stream_state_def
      opened_ok ex_ctx_ok)

theorem wnd_sz_change_correct_witness:
  "\<exists>c'. tfw_h2_apply_wnd_sz_change (-70000) ex_wnd = Some c' \<and> st_rem_wnd (strm c' 3) = -4465"
  using wnd_sz_change_correct [OF ex_wnd_ok, of "-70000"] ex_wnd_eval
  by (auto simp: wnd_adjusted_def)

section \<open>Settings\<close>

lemma ctx_ok_rset: "ctx_ok (upd_rset g c) = ctx_ok c"
  by (rule ctx_ok_cong) (simp_all add: upd_rset_def)

text \<open>
  (C26) The assertions of the function that applies a setting of the peer never fail for a
  setting that passed the check made on reception, and applying it keeps the connection well
  formed.  A setting that fails the check is one of: server push not 0 or 1, an initial window
  above 2^31 - 1, a frame size outside of 2^14 .. 2^24 - 1.
\<close>

theorem checked_setting_applies:
  assumes "ctx_ok c"
  shows "(tfw_h2_check_settings_entry i v = T_OK
          \<longrightarrow> (\<exists>c'. tfw_h2_apply_settings_entry i v c = Some c' \<and> ctx_ok c' \<and> ids c' = ids c))
    \<and> (tfw_h2_check_settings_entry i v \<noteq> T_OK \<longleftrightarrow>
         i = 2 \<and> 1 < v \<or> i = 4 \<and> 0x7fffffff < v \<or> i = 5 \<and> (v < 16384 \<or> 0xffffff < v))"
proof
  show "tfw_h2_check_settings_entry i v \<noteq> T_OK \<longleftrightarrow>
         i = 2 \<and> 1 < v \<or> i = 4 \<and> 0x7fffffff < v \<or> i = 5 \<and> (v < 16384 \<or> 0xffffff < v)"
    by (auto simp: tfw_h2_check_settings_entry_def)
  obtain d where d: "tfw_h2_apply_wnd_sz_change (uint v - uint (s_wnd_sz (cx_rsettings c))) c = Some d"
    "ctx_ok d" "ids d = ids c"
    using apply_wnd_sz_change_ok [OF assms] by blast
  have enc: "ctx_ok (tfw_hpack_set_rbuf_size sz x) = ctx_ok x" "ids (tfw_hpack_set_rbuf_size sz x) = ids x" for sz x
    by (rule ctx_ok_cong) (auto simp: tfw_hpack_set_rbuf_size_def Let_def)
  have "ids (upd_rset g x) = ids x" for g x by (simp add: upd_rset_def)
  with d assms ctx_ok_rset enc
  show "tfw_h2_check_settings_entry i v = T_OK
          \<longrightarrow> (\<exists>c'. tfw_h2_apply_settings_entry i v c = Some c' \<and> ctx_ok c' \<and> ids c' = ids c)"
    by (simp add: tfw_h2_check_settings_entry_def tfw_h2_apply_settings_entry_def Let_def)
qed

theorem checked_setting_applies_witness:
  "tfw_h2_check_settings_entry 4 1000 = T_OK \<and> (\<exists>c'. tfw_h2_apply_settings_entry 4 1000 ex_wnd = Some c' \<and> ctx_ok c')"
proof -
  have "tfw_h2_check_settings_entry 4 1000 = T_OK" by (simp add: tfw_h2_check_settings_entry_def)
  with checked_setting_applies [OF ex_wnd_ok, of 4 1000] show ?thesis by blast
qed

text \<open>
  The windows of idle streams, which exist because of PRIORITY frames, do not follow
  a new initial window size: stream 1 was entered with the window 65535, the peer then
  announces 1000, and stream 1 keeps its window, while a stream created now gets 1000.
\<close>

theorem idle_stream_keeps_window:
  "\<exists>c'. tfw_h2_apply_settings_entry 4 1000 ex_wnd = Some c' \<and> s_wnd_sz (cx_rsettings c') = 1000
     \<and> tfw_h2_get_stream_state (st_state (strm ex_wnd 1)) = HTTP2_STREAM_IDLE
     \<and> st_rem_wnd (strm c' 1) = 65535 \<and> st_rem_wnd (strm c' 3) = 1000"
proof -
  obtain d where "tfw_h2_apply_wnd_sz_change (1000 - 65535) ex_wnd = Some d"
    "\<forall>s \<in> ids ex_wnd. st_rem_wnd (strm d s) = st_rem_wnd (strm ex_wnd s) + (if wnd_adjusted ex_wnd s then 1000 - 65535 else 0)"
    using apply_wnd_sz_change_ok [OF ex_wnd_ok] by blast
  with ex_wnd_eval show ?thesis
    by (auto simp: tfw_h2_apply_settings_entry_def wnd_adjusted_def init_settings_def upd_rset_def strm_def)
qed

text \<open>
  The sum of a window and the difference is not compared with the largest window 2^31 - 1.
  A stream whose window was raised to 2^31 - 1 by WINDOW_UPDATE gets the window 2^31 when the
  peer raises its initial window by one; RFC 9113 section 6.9.2 demands a connection error.
\<close>

theorem window_exceeds_maximum:
  "\<exists>c c'. ctx_ok c \<and> st_rem_wnd (strm c 3) = 2 ^ 31 - 1 \<and> tfw_h2_check_settings_entry 4 65536 = T_OK
     \<and> tfw_h2_apply_settings_entry 4 65536 c = Some c' \<and> st_rem_wnd (strm c' 3) = 2 ^ 31"
proof -
  let ?c = "put_strm 3 (\<lambda>t. t\<lparr>st_rem_wnd := 2 ^ 31 - 1\<rparr>) ex_wnd"
  have ok: "ctx_ok ?c" using ex_wnd_ok by (subst put_strm_ok) (simp_all add: xmit_same_def)
  obtain d where "tfw_h2_apply_wnd_sz_change 1 ?c = Some d"
    "\<forall>s \<in> ids ?c. st_rem_wnd (strm d s) = st_rem_wnd (strm ?c s) + (if wnd_adjusted ?c s then 1 else 0)"
    using apply_wnd_sz_change_ok [OF ok] by blast
  then have "tfw_h2_apply_settings_entry 4 65536 ?c = Some (upd_rset (\<lambda>s. s\<lparr>s_wnd_sz := 65536\<rparr>) d)"
    "st_rem_wnd (strm (upd_rset (\<lambda>s. s\<lparr>s_wnd_sz := 65536\<rparr>) d) 3) = 2 ^ 31"
    using ex_wnd_eval
    by (auto simp: tfw_h2_apply_settings_entry_def wnd_adjusted_def init_settings_def upd_rset_def strm_def)
  moreover have "st_rem_wnd (strm ?c 3) = 2 ^ 31 - 1" "tfw_h2_check_settings_entry 4 65536 = T_OK"
    by (simp_all add: tfw_h2_check_settings_entry_def)
  ultimately show ?thesis using ok by blast
qed

section \<open>Rate limits\<close>

text \<open>After \<open>n\<close> frames of a kind in one tick, on a connection that had none before.\<close>

definition burst_stat :: "ctrl_counter \<Rightarrow> u64 \<Rightarrow> nat \<Rightarrow> CtrlFrameStat list" where
  "burst_stat k ts n =
     (replicate FRANG_FREQ zero_stat)[unat (ts mod 8) := set_ctrl_cnt k (of_nat n) (zero_stat\<lparr>cf_ts := ucast ts\<rparr>)]"

lemma set_ctrl_cnt_simps [simp]:
  "ctrl_cnt k (set_ctrl_cnt k n s) = n" "set_ctrl_cnt k m (set_ctrl_cnt k n s) = set_ctrl_cnt k m s"
  "cf_ts (set_ctrl_cnt k n s) = cf_ts s" "ctrl_cnt k (s\<lparr>cf_ts := t\<rparr>) = ctrl_cnt k s"
  "ctrl_cnt k zero_stat = 0" "set_ctrl_cnt k 0 (zero_stat\<lparr>cf_ts := t\<rparr>) = zero_stat\<lparr>cf_ts := t\<rparr>"
  by (cases k; simp add: zero_stat_def)+

lemma time_in_own_frame: "frang_time_in_frame ts ts"
proof -
  have "ts - (ts + 8) = (-8 :: u64)" by simp
  then show ?thesis by (simp add: frang_time_in_frame_def time_before_def)
qed

lemma slot_less: "unat ((ts :: u64) mod 8) < 8"
  by (simp add: unat_mod)

lemma burst_step:
  assumes "n > 0 \<and> s = set_ctrl_cnt k (of_nat n) (zero_stat\<lparr>cf_ts := ucast ts\<rparr>) \<or> n = 0 \<and> s = zero_stat"
    and "ucast (ucast (ts :: u64) :: u32) = ts"
  shows "ctrl_account k ts s = set_ctrl_cnt k (of_nat (Suc n)) (zero_stat\<lparr>cf_ts := ucast ts\<rparr>)"
  using assms by (cases k) (auto simp: ctrl_account_def Let_def add.commute zero_stat_def)

lemma burst_sum:
  assumes "ucast (ucast (ts :: u64) :: u32) = ts"
  shows "ctrl_sum k ts (burst_stat k ts n) = of_nat n"
proof -
  let ?i = "unat (ts mod 8)" and ?v = "set_ctrl_cnt k (of_nat n) (zero_stat\<lparr>cf_ts := ucast ts\<rparr>)"
  have split: "burst_stat k ts n = replicate ?i zero_stat @ ?v # replicate (7 - ?i) zero_stat"
    using slot_less [of ts] by (simp add: burst_stat_def upd_conv_take_nth_drop Suc_diff_Suc min_def)
  have zero: "sum_list (map (ctrl_cnt k) (filter P (replicate m zero_stat))) = 0" for P m
    by (induction m) auto
  show ?thesis
    using time_in_own_frame [of ts] assms by (simp add: split ctrl_sum_def zero)
qed

lemma rate_limit_burst_step:
  assumes stat: "cx_stat c = (if n = 0 then replicate FRANG_FREQ zero_stat else burst_stat k ts n)"
    and ts: "e_ts (cx_env c) = ts" "ucast (ucast ts :: u32) = ts"
  shows "tfw_h2_ctrl_frame_rate_limit k c
    = (of_nat (Suc n) \<le> ctrl_limit k * e_ctrl_frame_rate_mul (cx_env c), c\<lparr>cx_stat := burst_stat k ts (Suc n)\<rparr>)"
proof -
  let ?i = "unat (ts mod 8)"
  have "ctrl_account k ts (cx_stat c ! ?i) = set_ctrl_cnt k (of_nat (Suc n)) (zero_stat\<lparr>cf_ts := ucast ts\<rparr>)"
    using slot_less [of ts] ts(2) stat by (intro burst_step) (auto simp: burst_stat_def)
  then have "(cx_stat c)[?i := ctrl_account k ts (cx_stat c ! ?i)] = burst_stat k ts (Suc n)"
    using stat by (auto simp: burst_stat_def)
  with burst_sum [OF ts(2), of k "Suc n"] ts(1) show ?thesis
    by (simp add: tfw_h2_ctrl_frame_rate_limit_def Let_def del: of_nat_Suc)
qed

definition rate_run :: "ctrl_counter \<Rightarrow> nat \<Rightarrow> TfwH2Ctx \<Rightarrow> TfwH2Ctx" where
  "rate_run k n c = ((\<lambda>c. snd (tfw_h2_ctrl_frame_rate_limit k c)) ^^ n) c"

lemma rate_run_eq:
  assumes "cx_stat c = replicate FRANG_FREQ zero_stat" "ucast (ucast (e_ts (cx_env c)) :: u32) = e_ts (cx_env c)"
  shows "rate_run k n c = (if n = 0 then c else c\<lparr>cx_stat := burst_stat k (e_ts (cx_env c)) n\<rparr>)"
proof (induction n)
  case (Suc n)
  let ?d = "rate_run k n c"
  have d: "cx_stat ?d = (if n = 0 then replicate FRANG_FREQ zero_stat else burst_stat k (e_ts (cx_env c)) n)"
    "e_ts (cx_env ?d) = e_ts (cx_env c)" "?d\<lparr>cx_stat := s\<rparr> = c\<lparr>cx_stat := s\<rparr>" for s
    using Suc assms(1) by (cases "n = 0"; simp)+
  have "rate_run k (Suc n) c = snd (tfw_h2_ctrl_frame_rate_limit k ?d)" by (simp add: rate_run_def)
  also have "\<dots> = ?d\<lparr>cx_stat := burst_stat k (e_ts (cx_env c)) (Suc n)\<rparr>"
    using rate_limit_burst_step [OF d(1,2) assms(2)] by simp
  finally show ?case by (simp only: d(3)) simp
qed (simp add: rate_run_def)



text \<open>
  The four limits share the time stamp of a slot, but only the counter of the frame at
  hand is reset when the slot is reused.  A connection that got five SETTINGS frames in an earlier
  second may send one now; if a PING frame comes first in this tick, the five old ones are
  counted again and the SETTINGS frame is refused.
\<close>

theorem stale_counters_counted:
  "let c = ex_ctx\<lparr>cx_stat := zero_stat\<lparr>cf_settings_cnt := 5, cf_ts := 992\<rparr> # replicate 7 zero_stat\<rparr> in
   fst (tfw_h2_ctrl_frame_rate_limit Settings_Cnt c)
   \<and> \<not> fst (tfw_h2_ctrl_frame_rate_limit Settings_Cnt (snd (tfw_h2_ctrl_frame_rate_limit Ping_Cnt c)))"
  by (simp add: tfw_h2_ctrl_frame_rate_limit_def ex_ctx_def tfw_h2_context_init_def ex_env_def ctrl_account_def
      ctrl_sum_def zero_stat_def frang_time_in_frame_def time_before_def ex_replicate Let_def)

end
