(* ===== verification/H2_Recv_Safe.thy ===== *)
theory H2_Recv_Safe
  imports H2_Recv_Inv
begin

text \<open>
  Safety of frame reception: what each state of the frame machine relies on, that every step
  establishes it for the next one, and that on a tree without dependencies between streams no
  assertion fails and the machine returns.
\<close>

section \<open>Registers of the frame machine\<close>

definition regs where
  "regs c = (cx_rbuf c, cx_to_read c, cx_rlen c, cx_hdr c, cx_state c, cx_env c)"

text \<open>
  The buffer of the machine has its size, nothing is negative, and the functions that send a
  frame do not return the code by which the frame machine asks for more input.
\<close>

definition env_ok :: "h2_env \<Rightarrow> bool" where
  "env_ok e \<longleftrightarrow> (\<forall>n. e_send e n \<noteq> T_POSTPONE)"

definition regs_ok :: "TfwH2Ctx \<Rightarrow> bool" where
  "regs_ok c \<longleftrightarrow> length (cx_rbuf c) = 9 \<and> 0 \<le> cx_to_read c \<and> 0 \<le> h_length (cx_hdr c)
     \<and> env_ok (cx_env c)"

lemma regs_ok_env [simp, intro]: "regs_ok c \<Longrightarrow> env_ok (cx_env c)"
  by (simp add: regs_ok_def)

lemma upd_hdr_env [simp]: "cx_env (upd_hdr f c) = cx_env c"
  by (simp add: upd_hdr_def)

lemma regsD:
  assumes "regs c' = regs c"
  shows "cx_rbuf c' = cx_rbuf c" "cx_to_read c' = cx_to_read c" "cx_rlen c' = cx_rlen c"
    "cx_hdr c' = cx_hdr c" "cx_state c' = cx_state c" "regs_ok c' = regs_ok c" "cx_env c' = cx_env c"
  using assms by (auto simp: regs_def regs_ok_def)

lemma regs_rest: "ctx_rest c' = ctx_rest c \<Longrightarrow> regs c' = regs c"
  using ctx_restD(5,7,12,13,15,16) [of c' c] by (simp add: regs_def)

lemma regs_upd [simp]:
  "regs (c\<lparr>cx_cur_stream := x\<rparr>) = regs c" "regs (c\<lparr>cx_lstream_id := i\<rparr>) = regs c"
  "regs (c\<lparr>cx_sent := sf\<rparr>) = regs c" "regs (c\<lparr>cx_sends := k\<rparr>) = regs c"
  "regs (c\<lparr>cx_conn_stop := b\<rparr>) = regs c" "regs (c\<lparr>cx_conn_closed := b\<rparr>) = regs c"
  "regs (c\<lparr>cx_stat := sl\<rparr>) = regs c" "regs (c\<lparr>cx_wnd_update_cnt := wc\<rparr>) = regs c"
  "regs (c\<lparr>cx_loc_wnd := w\<rparr>) = regs c" "regs (c\<lparr>cx_rem_wnd := w\<rparr>) = regs c"
  "regs (c\<lparr>cx_has_data := b\<rparr>) = regs c" "regs (c\<lparr>cx_priority := pr\<rparr>) = regs c"
  "regs (c\<lparr>cx_plen := pl\<rparr>) = regs c" "regs (c\<lparr>cx_data_off := dof\<rparr>) = regs c"
  "regs (c\<lparr>cx_padlen := pd\<rparr>) = regs c" "regs (c\<lparr>cx_sched := S\<rparr>) = regs c"
  "regs (c\<lparr>cx_settings_to_apply := sb\<rparr>) = regs c" "regs (c\<lparr>cx_new_settings := ns\<rparr>) = regs c"
  "regs (c\<lparr>cx_hpack_max_window := hw\<rparr>) = regs c" "regs (c\<lparr>cx_hpack_wnd_update := b\<rparr>) = regs c"
  "regs (c\<lparr>cx_skb_head := sk\<rparr>) = regs c" "regs (c\<lparr>cx_allocs := k\<rparr>) = regs c"
  "regs (put_strm s f c) = regs c"
  by (simp_all add: regs_def put_strm_def upd_sched_def)

lemma regs_send:
  "tfw_h2_send_frame_type ty h pl c = (r, c') \<Longrightarrow> regs c' = regs c"
  "tfw_h2_send_frame h pl c = (r, c') \<Longrightarrow> regs c' = regs c"
  "tfw_h2_ctrl_frame_rate_limit k c = (b, c') \<Longrightarrow> regs c' = regs c"
  by (auto simp: tfw_h2_send_frame_def tfw_h2_send_frame_type_def tfw_h2_ctrl_frame_rate_limit_def Let_def
      split: if_splits)

lemma send_not_postponed:
  assumes "regs_ok c"
  shows "tfw_h2_send_frame_type ty h pl c = (r, c') \<Longrightarrow> r \<noteq> T_POSTPONE"
    "tfw_h2_send_frame h pl c = (r, c') \<Longrightarrow> r \<noteq> T_POSTPONE"
  using assms
  by (auto simp: tfw_h2_send_frame_def tfw_h2_send_frame_type_def regs_ok_def env_ok_def Let_def
      split: if_splits)

lemma rst_not_postponed: "tfw_h2_send_rst_stream i err c = (r, c') \<Longrightarrow> r \<noteq> T_POSTPONE"
  by (auto simp: tfw_h2_send_rst_stream_def split: prod.splits bool.splits if_splits)

lemma regs_ctrl:
  "tfw_h2_send_wnd_update i w c = (r, c') \<Longrightarrow> regs c' = regs c"
  "tfw_h2_send_rst_stream i err c = (r, c') \<Longrightarrow> regs c' = regs c"
  "tfw_h2_send_settings_ack c = (r, c') \<Longrightarrow> regs c' = regs c"
  "tfw_h2_send_settings_init c = (r, c') \<Longrightarrow> regs c' = regs c"
  "recv_ping c = (r, c') \<Longrightarrow> regs c' = regs c"
  "regs (tfw_h2_conn_terminate err c) = regs c"
  "tfw_h2_ctrl_frame_limit ty c = (b, c') \<Longrightarrow> regs c' = regs c"
proof -
  show "tfw_h2_send_rst_stream i err c = (r, c') \<Longrightarrow> regs c' = regs c"
    by (auto simp: tfw_h2_send_rst_stream_def split: prod.splits bool.splits dest!: regs_send)
  show "tfw_h2_send_settings_init c = (r, c') \<Longrightarrow> regs c' = regs c"
    by (auto simp: tfw_h2_send_settings_init_def Let_def split: if_splits dest!: regs_send)
  show "recv_ping c = (r, c') \<Longrightarrow> regs c' = regs c"
    by (auto simp: recv_ping_def tfw_h2_send_ping_def split: if_splits dest!: regs_send)
  show "tfw_h2_ctrl_frame_limit ty c = (b, c') \<Longrightarrow> regs c' = regs c"
    by (auto simp: tfw_h2_ctrl_frame_limit_def tfw_h2_wnd_update_rate_limit_def Let_def
        split: if_splits dest!: regs_send)
  show "regs (tfw_h2_conn_terminate err c) = regs c"
    by (auto simp: tfw_h2_conn_terminate_def tfw_h2_conn_terminate_close_def tfw_h2_send_goaway_def
        split: prod.splits dest!: regs_send)
qed (auto simp: tfw_h2_send_wnd_update_def tfw_h2_send_settings_ack_def dest!: regs_send)

lemma terminate_env [simp]: "cx_env (tfw_h2_conn_terminate err c) = cx_env c"
  by (rule regsD(7) [OF regs_ctrl(6)])

lemma regs_small [simp]: "regs (start_payload c) = regs c" "regs (set_has_data b c) = regs c"
  "regs (tfw_h2_save_settings_entry i v c) = regs c" "regs (tfw_h2_settings_ack_process c) = regs c"
  by (simp_all add: start_payload_def set_has_data_def tfw_h2_save_settings_entry_def
      tfw_h2_settings_ack_process_def)

text \<open>The frame is to be skipped: the registers hold the rest of it.\<close>

definition skipping :: "TfwH2Ctx \<Rightarrow> bool" where
  "skipping c \<longleftrightarrow> cx_state c = HTTP2_IGNORE_FRAME_DATA"

lemma to_read_verify_regs:
  assumes "regs_ok c"
  shows "regs_ok (SET_TO_READ_VERIFY st c)" "cx_rlen (SET_TO_READ_VERIFY st c) = cx_rlen c"
    "regs_ok (SET_TO_READ c)" "cx_rlen (SET_TO_READ c) = cx_rlen c"
    "cx_to_read (SET_TO_READ c) = h_length (cx_hdr c)"
    "cx_state (SET_TO_READ c) = cx_state c" "cx_rbuf (SET_TO_READ c) = cx_rbuf c"
  using assms by (simp_all add: SET_TO_READ_VERIFY_def SET_TO_READ_def upd_hdr_def regs_ok_def)

lemma regs_queue [simp]: "regs (tfw_h2_stream_add_to_queue_nolock q s c) = regs c"
  by (rule regs_rest) (simp add: tfw_h2_stream_add_to_queue_nolock_def)

section \<open>Handlers on the current stream\<close>

text \<open>
  What a handler guarantees: it returns unless \<open>trap\<close> holds, and then the invariant and the stream
  and type of the frame are kept.
\<close>

definition fine ::
    "bool \<Rightarrow> TfwH2Ctx \<Rightarrow> ('a \<times> TfwH2Ctx) option \<Rightarrow> ('a \<Rightarrow> TfwH2Ctx \<Rightarrow> bool) \<Rightarrow> bool" where
  "fine trap c m Q \<longleftrightarrow> (case m of
       None \<Rightarrow> trap
     | Some (r, c') \<Rightarrow> recv_ok c' \<and> hid c' = hid c \<and> regs_ok c' \<and> Q r c')"

abbreviation (input) deps :: "TfwH2Ctx \<Rightarrow> bool" where
  "deps c \<equiv> \<not> flat (cx_sched c)"

lemma fine_mono:
  assumes "fine t c m Q" "\<And>r c'. recv_ok c' \<Longrightarrow> hid c' = hid c \<Longrightarrow> regs_ok c' \<Longrightarrow> Q r c' \<Longrightarrow> Q' r c'"
  shows "fine t c m Q'"
  using assms by (auto simp: fine_def split: option.splits)

lemma fine_from:
  assumes "fine t d m Q" "t \<Longrightarrow> t'" "hid d = hid c"
  shows "fine t' c m Q"
  using assms by (auto simp: fine_def split: option.splits)

lemma fine_bind:
  assumes "fine t c m Q"
    and "\<And>r d. recv_ok d \<Longrightarrow> hid d = hid c \<Longrightarrow> regs_ok d \<Longrightarrow> Q r d \<Longrightarrow> fine t c (f (r, d)) R"
  shows "fine t c (Option.bind m f) R"
  using assms by (cases m) (auto simp: fine_def)

lemma fine_return: "recv_ok d \<Longrightarrow> hid d = hid c \<Longrightarrow> regs_ok d \<Longrightarrow> Q r d \<Longrightarrow> fine t c (Some (r, d)) Q"
  by (simp add: fine_def)

lemma fine_map: "fine t c m (\<lambda>r d. Q (g r) d) \<Longrightarrow> fine t c (map_option (\<lambda>(r, d). (g r, d)) m) Q"
  by (auto simp: fine_def split: option.splits)

lemma fine_terminate:
  assumes "recv_ok d" "hid d = hid c" "regs_ok d"
  shows "fine t c (Some (r, tfw_h2_conn_terminate err d)) (\<lambda>_ c'. regs c' = regs d)"
  using assms conn_coreD(1,3) [OF conn_core_ctrl(6), of err d] regsD(6) [OF regs_ctrl(6), of err d]
    regs_ctrl(6) [of err d]
  by (simp add: fine_def)

lemma fsm_returns:
  assumes "state_ok (st_state (strm c s))" "dir \<longrightarrow> st_state (strm c s) \<noteq> HTTP2_STREAM_IDLE"
  shows "h2_stream_fsm (Some s) ty fl dir c \<noteq> None"
proof -
  have sw: "fsm_switch a err v \<noteq> None"
    if "stream_state_valid (fv_state v)" "tfw_h2_get_stream_state (fv_state v) = HTTP2_STREAM_IDLE \<longrightarrow> \<not> fa_send a"
    for a err v
  proof -
    have "fsm_idle a err v \<noteq> None" if "\<not> fa_send a" using that by (simp add: fsm_idle_def)
    with that show ?thesis
      unfolding stream_state_valid_def
      by (elim insertE emptyE) (simp_all add: fsm_switch_def del: not_None_eq)
  qed
  from assms have "stream_state_valid (fv_state (ctx_fsm_view s c))"
    "tfw_h2_get_stream_state (fv_state (ctx_fsm_view s c)) = HTTP2_STREAM_IDLE \<longrightarrow> \<not> dir"
    by (auto simp: state_ok_def ctx_fsm_view_def)
  with sw show ?thesis by (simp add: h2_stream_fsm_def tfw_h2_stream_fsm_def del: not_None_eq)
qed

lemma cur_state_ok:
  assumes "recv_ok c" "cx_cur_stream c = Some s"
  shows "s \<in> ids c" "state_ok (st_state (strm c s))"
  using assms by (auto simp: recv_ok_def ctx_ok_def states_ok_def)

lemma current_send_rst_fine:
  assumes ok: "recv_ok c" "regs_ok c" and s: "cx_cur_stream c = Some s"
  shows "fine False c (tfw_h2_current_stream_send_rst err c)
    (\<lambda>r c'. regs c' = regs c \<and> cx_cur_stream c' = None \<and> r \<noteq> T_POSTPONE)"
proof -
  obtain d where d: "tfw_h2_stream_unlink_nolock s c = Some d" "ctx_rest d = ctx_rest c"
    using unlink_ok [of c s] ok(1) s by (auto simp: recv_ok_def)
  let ?d = "(tfw_h2_stream_add_to_queue_nolock Closed_Queue s d)\<lparr>cx_cur_stream := None\<rparr>"
  have r: "regs ?d = regs c"
    using regs_rest [OF d(2)] by simp
  obtain r c' where c': "tfw_h2_send_rst_stream s err ?d = (r, c')" by force
  then have m: "tfw_h2_current_stream_send_rst err c = Some (r, c')"
    using s d(1) by (simp add: tfw_h2_current_stream_send_rst_def)
  show ?thesis
    using current_send_rst_ok [OF ok(1) m] regs_ctrl(2) [OF c'] r ok(2) regsD(6) [of c' c]
      rst_not_postponed [OF c']
    by (simp add: fine_def m)
qed

lemma drop_current_fine:
  assumes ok: "recv_ok c" "regs_ok c" and s: "cx_cur_stream c = Some s"
  shows "fine (deps c) c (map_option (Pair r) (tfw_h2_current_stream_remove c))
    (\<lambda>r' c'. regs c' = regs c \<and> r' = r)"
proof (cases "remove_traps (cx_sched c) s")
  case True
  have "s \<in> ids c" "ctx_ok c" using ok s by (auto simp: recv_ok_def)
  with True unlink_clean_ok [of c s] flat_no_trap [of "cx_sched c" s] s show ?thesis
    by (auto simp: fine_def tfw_h2_current_stream_remove_def drop_closed_def split: bind_splits)
next
  case False
  then obtain d where d: "drop_closed s c = Some d" "ctx_rest d = ctx_rest c"
    using unlink_clean_ok [of c s] ok s by (auto simp: recv_ok_def)
  then have m: "tfw_h2_current_stream_remove c = Some (d\<lparr>cx_cur_stream := None\<rparr>)"
    using s by (auto simp: tfw_h2_current_stream_remove_def drop_closed_def split: bind_splits)
  then show ?thesis
    using drop_current_ok [OF ok(1) m] regs_rest [OF d(2)] ok(2) regsD(6) [of d c]
      regsD(6) [of "d\<lparr>cx_cur_stream := None\<rparr>" d]
    by (simp add: fine_def)
qed

lemma check_closed_fine:
  assumes ok: "recv_ok c" "regs_ok c" and s: "cx_cur_stream c = Some s"
  shows "fine (deps c \<and> tfw_h2_stream_is_closed (st_state (strm c s))) c
           (map_option (Pair r) (tfw_h2_check_current_stream_is_closed c)) (\<lambda>r' c'. regs c' = regs c \<and> r' = r)"
  using drop_current_fine [OF assms, of r] ok s fine_return [of c c "\<lambda>r' c'. regs c' = regs c \<and> r' = r" r]
  by (cases "tfw_h2_stream_is_closed (st_state (strm c s))")
    (simp_all add: tfw_h2_check_current_stream_is_closed_def)

text \<open>A frame that an idle stream may not get leaves no idle stream.\<close>

lemma fsm_not_idle:
  assumes "tfw_h2_stream_fsm a err v = Some (STREAM_FSM_RES_OK, e, v')" "state_ok (fv_state v)"
    and "fa_type a = HTTP2_WINDOW_UPDATE"
  shows "fv_state v' \<noteq> HTTP2_STREAM_IDLE"
proof -
  have v': "v' = out_view (STREAM_FSM_RES_OK, e, v')" by (simp add: out_view_def)
  from assms(1) have "tfw_h2_get_stream_state (fv_state v') \<noteq> HTTP2_STREAM_IDLE"
  proof (cases rule: fsm_cases)
    case (idle w)
    then have "fst w = STREAM_FSM_RES_OK" by (metis fsm_finish_fst fst_conv)
    with idle(3) assms(3) show ?thesis by (auto simp: fsm_idle_def split: if_splits)
  qed (use assms(3) in \<open>auto simp: fsm_simps split: if_splits\<close>)
  then show ?thesis by (auto simp: tfw_h2_get_stream_state_def)
qed

lemma fsm_idle_not_closed:
  assumes "tfw_h2_stream_fsm a err v = Some (STREAM_FSM_RES_OK, e, v')" "fv_state v = HTTP2_STREAM_IDLE"
  shows "\<not> tfw_h2_stream_is_closed (fv_state v')"
  using assms
proof (cases rule: fsm_cases)
  case (idle w)
  then have "v' = out_view (fsm_finish a w)" by (metis out_view_def snd_conv)
  moreover have "tfw_h2_get_stream_state (0 :: u16) = 0" by (simp add: tfw_h2_get_stream_state_def)
  ultimately show ?thesis
    using idle(3) assms(2)
    by (auto simp: tfw_h2_stream_is_closed_def fsm_simps out_view_def split: if_splits)
qed (use assms(2) in \<open>auto simp: tfw_h2_get_stream_state_def fsm_finish_def\<close>)

lemma recv_process_fine:
  assumes ok: "recv_ok c" "regs_ok c" and s: "cx_cur_stream c = Some s"
  shows "fine False c (STREAM_RECV_PROCESS c) (\<lambda>ret c'. cx_rlen c' = cx_rlen c \<and> ret \<noteq> Some T_POSTPONE
    \<and> (if ret = None then regs c' = regs c \<and> cx_cur_stream c' = Some s \<and> flat (cx_sched c') = flat (cx_sched c)
         \<and> (h_type (cx_hdr c) = HTTP2_WINDOW_UPDATE \<longrightarrow> st_state (strm c' s) \<noteq> HTTP2_STREAM_IDLE)
         \<and> (st_state (strm c s) = HTTP2_STREAM_IDLE \<longrightarrow> \<not> tfw_h2_stream_is_closed (st_state (strm c' s)))
       else skipping c'))"
proof -
  obtain res err d where d: "h2_stream_fsm (Some s) (h_type (cx_hdr c)) (h_flags (cx_hdr c)) False c
      = Some (res, err, d)"
    using fsm_returns [OF cur_state_ok(2) [OF ok(1) s]] by (metis not_None_eq prod_cases3)
  have okd: "recv_ok d" "hid d = hid c" "cx_cur_stream d = Some s" "ctx_rest d = ctx_rest c"
    using h2_stream_fsm_ok [OF ok(1) _ d] cur_state_ok(1) [OF ok(1) s] s by auto
  have rd: "regs d = regs c" by (rule regs_rest [OF okd(4)])
  have fd: "flat (cx_sched d) = flat (cx_sched c)"
    using d by (auto simp: h2_stream_fsm_def put_fsm_view_def put_strm_def upd_sched_def)
  have wnd: "st_state (strm d s) \<noteq> HTTP2_STREAM_IDLE"
    if "res = STREAM_FSM_RES_OK" "h_type (cx_hdr c) = HTTP2_WINDOW_UPDATE"
    using d that fsm_not_idle [of _ HTTP2_ECODE_NO_ERROR "ctx_fsm_view s c" err] cur_state_ok(2) [OF ok(1) s]
    by (auto simp: h2_stream_fsm_def put_fsm_view_def ctx_fsm_view_def)
  have cl: "\<not> tfw_h2_stream_is_closed (st_state (strm d s))"
    if "res = STREAM_FSM_RES_OK" "st_state (strm c s) = HTTP2_STREAM_IDLE"
    using d that fsm_idle_not_closed [of _ HTTP2_ECODE_NO_ERROR "ctx_fsm_view s c" err]
    by (auto simp: h2_stream_fsm_def put_fsm_view_def ctx_fsm_view_def)
  let ?e = "SET_TO_READ_VERIFY HTTP2_IGNORE_FRAME_DATA d"
  have e: "recv_ok ?e" "hid ?e = hid c" "cx_cur_stream ?e = Some s" "regs_ok ?e" "skipping ?e"
    "cx_rlen ?e = cx_rlen c" "flat (cx_sched ?e) = flat (cx_sched c)"
    using conn_coreD(1,3,4,5) [of ?e d] okd(1,2,3) fd regsD(3,6) [OF rd] ok(2) to_read_verify_regs(1,2) [of d]
    by (simp_all add: skipping_def SET_TO_READ_VERIFY_def)
  have rst: "fine False c (tfw_h2_current_stream_send_rst er ?e)
      (\<lambda>r c'. cx_rlen c' = cx_rlen c \<and> skipping c' \<and> r \<noteq> T_POSTPONE)" for er
    by (rule fine_from [OF fine_mono [OF current_send_rst_fine [OF e(1,4,3), of er]]])
      (use e(2,5,6,7) in \<open>auto simp: skipping_def dest: regsD(3,5)\<close>)
  have closing: "recv_ok (tfw_h2_conn_terminate er ?e)" "hid (tfw_h2_conn_terminate er ?e) = hid c"
      "regs_ok (tfw_h2_conn_terminate er ?e)" "cx_rlen (tfw_h2_conn_terminate er ?e) = cx_rlen c"
      "skipping (tfw_h2_conn_terminate er ?e)" for er
    using conn_coreD(1,3) [OF conn_core_ctrl(6), of er ?e] e(1,2,4,5,6)
      regsD(3,5,6) [OF regs_ctrl(6), of er ?e]
    by (simp_all add: skipping_def)
  show ?thesis
  proof (cases res)
    case STREAM_FSM_RES_TERM_STREAM
    have "fine False c (map_option (\<lambda>(r, c). (Some r, c)) (tfw_h2_current_stream_send_rst err ?e))
      (\<lambda>ret c'. cx_rlen c' = cx_rlen c \<and> ret \<noteq> Some T_POSTPONE \<and> (if ret = None then regs c' = regs c \<and> cx_cur_stream c' = Some s
         \<and> flat (cx_sched c') = flat (cx_sched c)
         \<and> (h_type (cx_hdr c) = HTTP2_WINDOW_UPDATE \<longrightarrow> st_state (strm c' s) \<noteq> HTTP2_STREAM_IDLE)
         \<and> (st_state (strm c s) = HTTP2_STREAM_IDLE \<longrightarrow> \<not> tfw_h2_stream_is_closed (st_state (strm c' s)))
       else skipping c'))"
      by (intro fine_map fine_mono [OF rst]) simp
    with STREAM_FSM_RES_TERM_STREAM d s show ?thesis by (simp add: STREAM_RECV_PROCESS_def)
  next
    case STREAM_FSM_RES_OK
    with d s show ?thesis
      using okd(1-3) rd fd wnd cl ok(2) regsD(3,6) [OF rd]
      by (simp add: STREAM_RECV_PROCESS_def) (intro fine_return; simp)
  next
    case STREAM_FSM_RES_TERM_CONN
    with d s show ?thesis
      using closing [of err] by (simp add: STREAM_RECV_PROCESS_def) (intro fine_return; simp)
  next
    case STREAM_FSM_RES_IGNORE
    with d s show ?thesis
      using e(1,2,4,5,6) by (simp add: STREAM_RECV_PROCESS_def) (intro fine_return; simp)
  qed
qed

lemma state_process_fine:
  assumes ok: "recv_ok c" "regs_ok c" and s: "cx_cur_stream c = Some s"
  shows "fine (deps c \<and> st_state (strm c s) \<noteq> HTTP2_STREAM_IDLE) c (tfw_h2_current_stream_state_process c)
           (\<lambda>r c'. cx_rlen c' = cx_rlen c \<and> r \<noteq> T_POSTPONE)"
  unfolding tfw_h2_current_stream_state_process_def
proof (rule fine_bind [OF fine_from [OF recv_process_fine [OF assms]]], goal_cases)
  case (3 ret d)
  show ?case
  proof (cases ret)
    case None
    then have "fine (deps d \<and> tfw_h2_stream_is_closed (st_state (strm d s))) d
        (map_option (Pair T_OK) (tfw_h2_check_current_stream_is_closed d)) (\<lambda>r c'. regs c' = regs d \<and> r = T_OK)"
      using 3 by (intro check_closed_fine) auto
    then have "fine (deps d \<and> tfw_h2_stream_is_closed (st_state (strm d s))) d
        (map_option (Pair T_OK) (tfw_h2_check_current_stream_is_closed d))
          (\<lambda>r c'. cx_rlen c' = cx_rlen c \<and> r \<noteq> T_POSTPONE)"
      by (rule fine_mono) (use 3 in \<open>auto dest: regsD(3)\<close>)
    then show ?thesis using 3 None by (auto elim!: fine_from)
  next
    case (Some r)
    with 3 show ?thesis by (simp add: fine_return)
  qed
qed simp_all

text \<open>Changes of the scheduler that keep what the context knows about its streams.\<close>

lemma recv_ok_sched:
  assumes ok: "recv_ok c" and S: "sched_ok S" "blocked_ok S" "sc_streams S = sc_streams (cx_sched c)"
    and t: "\<And>t. st_queue (sc_stream S t) = st_queue (strm c t)" "\<And>t. st_state (sc_stream S t) = st_state (strm c t)"
  shows "recv_ok (c\<lparr>cx_sched := S\<rparr>)"
  using ctx_ok_sched [OF _ S t] ok S(3) by (simp add: recv_ok_def stream_ids_def)

lemma recv_ok_put:
  assumes "xmit_same f (strm c s)" "st_queue (f (strm c s)) = st_queue (strm c s)"
    "st_state (f (strm c s)) = st_state (strm c s)"
  shows "recv_ok (put_strm s f c) = recv_ok c"
  using put_strm_ok [OF assms] by (simp add: recv_ok_def)

lemma reset_current_fine:
  assumes ok: "recv_ok c" "regs_ok c" and s: "cx_cur_stream c = Some s" "st_state (strm c s) \<noteq> HTTP2_STREAM_IDLE"
  shows "fine False c (reset_current_stream err c) (\<lambda>r _. r \<noteq> T_POSTPONE)"
proof -
  obtain res e d where d: "h2_stream_fsm (Some s) HTTP2_RST_STREAM 0 True c = Some (res, e, d)"
    using fsm_returns [OF cur_state_ok(2) [OF ok(1) s(1)], of True] s(2) by (metis not_None_eq prod_cases3)
  have okd: "recv_ok d" "hid d = hid c" "cx_cur_stream d = Some s" "ctx_rest d = ctx_rest c"
    using h2_stream_fsm_ok [OF ok(1) _ d] cur_state_ok(1) [OF ok(1) s(1)] s by auto
  have rd: "regs_ok d" using regsD(6) [OF regs_rest [OF okd(4)]] ok(2) by simp
  have fd: "flat (cx_sched d) = flat (cx_sched c)"
    using d by (auto simp: h2_stream_fsm_def put_fsm_view_def put_strm_def upd_sched_def)
  have "fine False c (tfw_h2_current_stream_send_rst err d) (\<lambda>r _. r \<noteq> T_POSTPONE)"
    by (rule fine_from [OF fine_mono [OF current_send_rst_fine [OF okd(1) rd okd(3)]]]) (use fd okd(2) in auto)
  with okd rd d s(1) show ?thesis
    by (auto simp: reset_current_stream_def tfw_h2_stream_fsm_ignore_err_def intro: fine_return)
qed

lemma wnd_update_fine:
  assumes ok: "recv_ok c" "regs_ok c"
    and s: "\<And>s. cx_cur_stream c = Some s \<Longrightarrow> st_state (strm c s) \<noteq> HTTP2_STREAM_IDLE"
  shows "fine False c (tfw_h2_wnd_update_process c) (\<lambda>r _. r \<noteq> T_POSTPONE)"
proof -
  have fail: "fine False c (wnd_update_fail err c) (\<lambda>r _. r \<noteq> T_POSTPONE)" for err
  proof (cases "cx_cur_stream c")
    case None
    with ok conn_coreD(1,3) [OF conn_core_ctrl(6), of err c] regsD(6) [OF regs_ctrl(6), of err c] show ?thesis
      by (simp add: wnd_update_fail_def fine_def)
  next
    case (Some s)
    with reset_current_fine [OF ok Some assms(3)] show ?thesis by (simp add: wnd_update_fail_def)
  qed
  have data: "fine False c (Some (T_OK, set_has_data b d)) (\<lambda>r _. r \<noteq> T_POSTPONE)" if "recv_ok d" "hid d = hid c" "regs_ok d" for b d
    using that conn_coreD(1,3) [of "set_has_data b d" d] regsD(6) [of "set_has_data b d" d]
    by (simp add: fine_def)
  have conn: "fine False c (Some (T_OK, set_has_data b (c\<lparr>cx_rem_wnd := w\<rparr>))) (\<lambda>r _. r \<noteq> T_POSTPONE)" for b w
    using ok conn_coreD(1,3) [of "c\<lparr>cx_rem_wnd := w\<rparr>" c] regsD(6) [of "c\<lparr>cx_rem_wnd := w\<rparr>" c]
    by (intro data) simp_all
  have strm: "fine False c (map_option (\<lambda>c. (T_OK, set_has_data b c)) (on_sched (tfw_h2_stream_try_unblock s)
      (put_strm s (\<lambda>t. t\<lparr>st_rem_wnd := w\<rparr>) c))) (\<lambda>r _. r \<noteq> T_POSTPONE)" if "cx_cur_stream c = Some s" for b w s
  proof -
    define d where "d = put_strm s (\<lambda>t. t\<lparr>st_rem_wnd := w\<rparr>) c"
    have d: "recv_ok d" "hid d = hid c" "regs d = regs c" "s \<in> ids d" 
      using ok(1) recv_ok_put [of "\<lambda>t. t\<lparr>st_rem_wnd := w\<rparr>" c s] cur_state_ok(1) [OF ok(1) that]
      by (simp_all add: d_def xmit_same_def)
    then obtain S' where S': "tfw_h2_stream_try_unblock s (cx_sched d) = Some S'" "sched_ok S'" "blocked_ok S'"
      "sc_streams S' = sc_streams (cx_sched d)"
      "\<And>t. stream_rest (sc_stream S' t) = stream_rest (sc_stream (cx_sched d) t)"
      using try_unblock_ok [of "cx_sched d" s] by (auto simp: recv_ok_def ctx_ok_def)
    have "recv_ok (d\<lparr>cx_sched := S'\<rparr>)"
      using arg_cong [OF S'(5), of st_queue] arg_cong [OF S'(5), of st_state]
      by (intro recv_ok_sched [OF d(1) S'(2-4)]) (simp_all add: strm_def)
    moreover have "regs_ok (d\<lparr>cx_sched := S'\<rparr>)"
      using regsD(6) [OF d(3)] ok(2) regsD(6) [of "d\<lparr>cx_sched := S'\<rparr>" d] by simp
    ultimately have "fine False c (Some (T_OK, set_has_data b (d\<lparr>cx_sched := S'\<rparr>))) (\<lambda>r _. r \<noteq> T_POSTPONE)"
      using d(2) by (intro data) simp_all
    then show ?thesis by (simp add: on_sched_def S'(1) d_def [symmetric])
  qed
  show ?thesis
    using fail conn strm by (auto simp: tfw_h2_wnd_update_process_def Let_def split: option.split)
qed

lemma priority_process_fine:
  assumes ok: "recv_ok c" "regs_ok c" and s: "cx_cur_stream c = Some (h_stream_id (cx_hdr c))"
  shows "fine False c (tfw_h2_priority_process c) (\<lambda>r _. r \<noteq> T_POSTPONE)"
proof -
  define pri where "pri = tfw_h2_unpack_priority (cx_rbuf c)"
  define d where "d = c\<lparr>cx_priority := pri\<rparr>"
  define i where "i = h_stream_id (cx_hdr c)"
  have d: "recv_ok d" "hid d = hid c" "regs d = regs c" "cx_cur_stream d = Some i" "cx_sched d = cx_sched c"
    "cx_hdr d = cx_hdr c" "strm d = strm c"
    using ok(1) conn_coreD(1) [of d c] s by (simp_all add: d_def i_def strm_def fun_eq_iff)
  have rd: "regs_ok d" using regsD(6) [OF d(3)] ok(2) by simp
  have i: "i \<in> ids d" using cur_state_ok(1) [OF d(1,4)] .
  show ?thesis
  proof (cases "pri_stream_id pri = i")
    case False
    then obtain S' where S': "tfw_h2_change_stream_dep i (pri_stream_id pri) (pri_weight pri) (pri_exclusive pri)
        (cx_sched d) = Some S'" "sched_ok S'" "same_but_weight (cx_sched d) S'"
      using change_stream_dep_ok [of "cx_sched d" i "pri_stream_id pri" "pri_weight pri" "pri_exclusive pri"] d(1) i by (auto simp: recv_ok_def ctx_ok_def)
    then have nw: "no_weight (sc_stream S' t) = no_weight (sc_stream (cx_sched d) t)"
      and str: "sc_streams S' = sc_streams (cx_sched d)"
      "sc_blocked_streams S' = sc_blocked_streams (cx_sched d)" for t
      by (auto simp: same_but_weight_def)
    have fld: "st_queue (sc_stream S' t) = st_queue (strm d t)" "st_state (sc_stream S' t) = st_state (strm d t)"
      "st_xmit (sc_stream S' t) = st_xmit (strm d t)" for t
      using arg_cong [OF nw, of st_queue t] arg_cong [OF nw, of st_state t] arg_cong [OF nw, of st_xmit t]
      by (simp_all add: no_weight_def strm_def)
    have "blocked_set S' = blocked_set (cx_sched d)"
      using fld(3) str(1) by (simp add: blocked_set_def stream_ids_def strm_def)
    then have "blocked_ok S'" using d(1) str(2) by (simp add: recv_ok_def ctx_ok_def blocked_ok_def)
    then have "recv_ok (d\<lparr>cx_sched := S'\<rparr>)" by (intro recv_ok_sched [OF d(1) S'(2) _ str(1) fld(1,2)])
    moreover have "regs_ok (d\<lparr>cx_sched := S'\<rparr>)" using rd regsD(6) [of "d\<lparr>cx_sched := S'\<rparr>" d] by simp
    ultimately have "fine False c (map_option (\<lambda>c. (T_OK, c)) (on_sched (tfw_h2_change_stream_dep i (pri_stream_id pri)
        (pri_weight pri) (pri_exclusive pri)) d)) (\<lambda>r _. r \<noteq> T_POSTPONE)"
      using d(2) by (simp add: on_sched_def S'(1) fine_def)
    with False show ?thesis
      by (simp add: tfw_h2_priority_process_def pri_def d_def i_def Let_def)
  next
    case True
    have "fine False c (Some (T_BAD, tfw_h2_conn_terminate HTTP2_ECODE_PROTO d)) (\<lambda>r _. r \<noteq> T_POSTPONE)"
      using d(1,2) rd conn_coreD(1,3) [OF conn_core_ctrl(6), of HTTP2_ECODE_PROTO d]
        regsD(6) [OF regs_ctrl(6), of HTTP2_ECODE_PROTO d]
      by (simp add: fine_def)
    moreover have "fine False c (reset_current_stream HTTP2_ECODE_PROTO d) (\<lambda>r _. r \<noteq> T_POSTPONE)"
      if "st_state (strm c i) \<noteq> HTTP2_STREAM_IDLE"
      by (rule fine_from [OF reset_current_fine [OF d(1) rd d(4)]]) (use that d in simp_all)
    ultimately show ?thesis
      using True s by (simp add: tfw_h2_priority_process_def pri_def [symmetric] d_def i_def Let_def strm_def)
  qed
qed

lemma create_idle_state:
  assumes "recv_ok c" "i \<noteq> sched_root" "tfw_h2_stream_create i c = Some (Some s, c')"
  shows "s = i" "st_state (strm c' s) = HTTP2_STREAM_IDLE" "ctx_rest c' = ctx_rest c"
proof -
  have okc: "ctx_ok c" using assms(1) by (simp add: recv_ok_def)
  have "s = i \<and> st_state (strm c' s) = HTTP2_STREAM_IDLE \<and> ctx_rest c' = ctx_rest c"
  proof (cases rule: create_ok [OF okc assms(2), case_names failed created])
    case (created d)
    have "st_state (strm d i) = HTTP2_STREAM_IDLE"
      using arg_cong [OF spec [OF created(8), of i], of st_state] by (simp add: tfw_h2_init_stream_def zero_stream_def)
    with created(1,4) assms(3) show ?thesis by simp
  qed (use assms(3) in simp)
  then show "s = i" "st_state (strm c' s) = HTTP2_STREAM_IDLE" "ctx_rest c' = ctx_rest c" by blast+
qed

lemma create_returns:
  assumes "recv_ok c" "i \<noteq> sched_root"
  obtains so c' where "tfw_h2_stream_create i c = Some (so, c')" "ctx_rest c' = ctx_rest c"
proof -
  have okc: "ctx_ok c" using assms(1) by (simp add: recv_ok_def)
  show ?thesis
  proof (cases rule: create_ok [OF okc assms(2), case_names failed created])
    case (failed d)
    with that same_memD(2) show ?thesis by blast
  next
    case (created d)
    with that show ?thesis by blast
  qed
qed

lemma headers_process_fine:
  assumes ok: "recv_ok c" "regs_ok c" and i: "h_stream_id (cx_hdr c) \<noteq> sched_root"
    and lim: "cx_cur_stream c = None \<longrightarrow> card (ids c) < max_streams c"
  shows "fine (deps c) c (tfw_h2_headers_process c) (\<lambda>r c'. cx_rlen c' = cx_rlen c \<and> r \<noteq> T_POSTPONE)"
proof -
  define i where "i = h_stream_id (cx_hdr c)"
  define d where "d = c\<lparr>cx_lstream_id := i\<rparr>"
  have d: "recv_ok d" "hid d = hid c" "regs_ok d" "cx_sched d = cx_sched c" "cx_cur_stream d = cx_cur_stream c"
    "cx_lsettings d = cx_lsettings c" "cx_rlen d = cx_rlen c" "strm d = strm c"
    using ok conn_coreD(1) [of d c] regsD(6) [of d c] by (simp_all add: d_def strm_def fun_eq_iff)
  define e where "e = d\<lparr>cx_state := HTTP2_IGNORE_FRAME_DATA\<rparr>"
  have e: "recv_ok e" "hid e = hid c" "regs_ok e" "cx_cur_stream e = cx_cur_stream c" "cx_rlen e = cx_rlen c"
    using d conn_coreD(1) [of e d] by (simp_all add: e_def regs_ok_def)
  have new: "fine False c (Some (tfw_h2_send_rst_stream i HTTP2_ECODE_PROTO e)) (\<lambda>r c'. cx_rlen c' = cx_rlen c \<and> r \<noteq> T_POSTPONE)"
  proof -
    obtain r c' where c': "tfw_h2_send_rst_stream i HTTP2_ECODE_PROTO e = (r, c')" by force
    from conn_coreD(1,3) [OF conn_core_ctrl(2) [OF c']] regsD(3,6) [OF regs_ctrl(2) [OF c']] e c'
      rst_not_postponed [OF c']
    show ?thesis by (simp add: fine_def)
  qed
  have old: "fine False c (tfw_h2_current_stream_send_rst HTTP2_ECODE_PROTO e) (\<lambda>r c'. cx_rlen c' = cx_rlen c \<and> r \<noteq> T_POSTPONE)"
    if "cx_cur_stream c = Some s" for s
    by (rule fine_from [OF fine_mono [OF current_send_rst_fine [OF e(1,3), of s]]])
      (use e that in \<open>auto dest: regsD(3)\<close>)
  have plain: "fine (deps c) c (tfw_h2_current_stream_state_process f) (\<lambda>r c'. cx_rlen c' = cx_rlen c \<and> r \<noteq> T_POSTPONE)"
    if "recv_ok f" "hid f = hid c" "regs_ok f" "cx_cur_stream f = Some s" "cx_rlen f = cx_rlen c"
      "flat (cx_sched c) \<longrightarrow> flat (cx_sched f) \<or> st_state (strm f s) = HTTP2_STREAM_IDLE" for f s
    by (rule fine_from [OF fine_mono [OF state_process_fine [OF that(1,3,4)]]]) (use that in auto)
  have create: "fine (deps c) c (do { (so, c) \<leftarrow> tfw_h2_stream_create i d;
      let c = c\<lparr>cx_cur_stream := so\<rparr>;
      (if so = None then Some (ENOMEM, c) else tfw_h2_current_stream_state_process c) })
    (\<lambda>r c'. cx_rlen c' = cx_rlen c \<and> r \<noteq> T_POSTPONE)" if cur: "cx_cur_stream c = None"
  proof -
    have i0: "i \<noteq> sched_root" using assms(3) by (simp add: i_def)
    obtain so f where f: "tfw_h2_stream_create i d = Some (so, f)" "ctx_rest f = ctx_rest d"
      by (rule create_returns [OF d(1) i0])
    let ?f = "f\<lparr>cx_cur_stream := so\<rparr>"
    have F: "recv_ok ?f" "hid ?f = hid c"
      using recv_create_ok [OF d(1) i0 _ f(1)] lim cur d by auto
    have R: "regs_ok ?f" "cx_rlen ?f = cx_rlen c"
      using regsD(3,6) [OF regs_rest [OF f(2)]] d(3,7) regsD(6) [of ?f f] by simp_all
    show ?thesis
    proof (cases so)
      case None
      with f(1) F R show ?thesis by (simp add: fine_return)
    next
      case (Some s)
      with create_idle_state [OF d(1) i0, of s f] f(1) plain [of ?f s] F R show ?thesis
        by (simp add: strm_def)
    qed
  qed
  have idle: "fine (deps c) c (Option.bind (tfw_h2_stream_remove_idle s d) tfw_h2_current_stream_state_process)
    (\<lambda>r c'. cx_rlen c' = cx_rlen c \<and> r \<noteq> T_POSTPONE)" if cur: "cx_cur_stream c = Some s" for s
  proof -
    have s: "s \<in> ids d" "ctx_ok d" using d(1,5) cur by (auto simp: recv_ok_def)
    then obtain f where f: "tfw_h2_stream_remove_idle s d = Some f" "ctx_ok f" "ctx_rest f = ctx_rest d"
      "cx_sched f = upd_stream s (set_queue None) (cx_sched d)"
      using del_from_queue_ok [OF s(2,1)] by (auto simp: tfw_h2_stream_remove_idle_def)
    have "recv_ok f" "hid f = hid c" "cx_cur_stream f = Some s"
      using d(1,2,5) f(2,4) ctx_restD(1,4,5) [OF f(3)] cur by (simp_all add: recv_ok_def)
    moreover have "regs_ok f" "cx_rlen f = cx_rlen c"
      using regsD(3,6) [OF regs_rest [OF f(3)]] d(3,7) by simp_all
    ultimately show ?thesis
      using plain [of f s] f(1,4) d(4) by simp
  qed
  have pd: "fine (deps c) c (tfw_h2_current_stream_state_process d) (\<lambda>r c'. cx_rlen c' = cx_rlen c \<and> r \<noteq> T_POSTPONE)"
    if "cx_cur_stream c = Some s" for s
    using plain [of d s] d that by simp
  have unf: "cx_priority d = cx_priority c" "strm d = strm c" by (simp_all add: d_def strm_def fun_eq_iff)
  show ?thesis
    unfolding tfw_h2_headers_process_def i_def [symmetric] Let_def d_def [symmetric] e_def [symmetric] unf(1)
    using fine_from [OF new, of "deps c" c] fine_from [OF old, of _ "deps c" c] create idle pd e(4) d(5)
    by (cases "cx_cur_stream c") (simp_all add: Let_def)
qed

section \<open>What the states of the machine rely on\<close>

text \<open>A HEADERS frame may go on: its stream exists, or there is room for it.\<close>

definition hdr_pending :: "TfwH2Ctx \<Rightarrow> bool" where
  "hdr_pending c \<longleftrightarrow> h_stream_id (cx_hdr c) \<noteq> sched_root
     \<and> (cx_cur_stream c = None \<longrightarrow> card (ids c) < max_streams c)"

definition label_ok :: "TfwFrameState \<Rightarrow> TfwH2Ctx \<Rightarrow> bool" where
  "label_ok st c \<longleftrightarrow> (case st of
       HTTP2_RECV_CLI_START_SEQ \<Rightarrow> cx_to_read c = 0 \<and> cx_cur_stream c = None
     | HTTP2_RECV_FIRST_SETTINGS \<Rightarrow> cx_to_read c = 0 \<and> cx_cur_stream c = None
     | HTTP2_RECV_FRAME_HEADER \<Rightarrow> cx_to_read c = 0 \<and> cx_cur_stream c = None
     | HTTP2_RECV_FRAME_PADDED \<Rightarrow> cx_to_read c = 1
         \<and> (h_type (cx_hdr c) = HTTP2_DATA \<and> cx_cur_stream c \<noteq> None
            \<or> h_type (cx_hdr c) = HTTP2_HEADERS \<and> hdr_pending c)
     | HTTP2_RECV_FRAME_PRIORITY \<Rightarrow> cx_to_read c = 5 \<and> cx_cur_stream c = Some (h_stream_id (cx_hdr c))
     | HTTP2_RECV_FRAME_WND_UPDATE \<Rightarrow> cx_to_read c = 4
         \<and> (\<forall>s. cx_cur_stream c = Some s \<longrightarrow> st_state (strm c s) \<noteq> HTTP2_STREAM_IDLE)
     | HTTP2_RECV_FRAME_PING \<Rightarrow> cx_to_read c = 8
     | HTTP2_RECV_FRAME_RST_STREAM \<Rightarrow> cx_to_read c = 4 \<and> cx_cur_stream c \<noteq> None
     | HTTP2_RECV_FRAME_SETTINGS \<Rightarrow> cx_to_read c = 6 \<and> 6 dvd h_length (cx_hdr c)
     | HTTP2_RECV_FRAME_GOAWAY \<Rightarrow> cx_to_read c = 8
     | HTTP2_RECV_HEADER_PRI \<Rightarrow> cx_to_read c = 5
         \<and> has_flag (h_flags (cx_hdr c)) HTTP2_F_PRIORITY \<and> hdr_pending c
     | HTTP2_RECV_DATA \<Rightarrow> cx_cur_stream c \<noteq> None
     | HTTP2_RECV_CONT \<Rightarrow> cx_cur_stream c \<noteq> None
     | HTTP2_RECV_HEADER \<Rightarrow> hdr_pending c
     | HTTP2_RECV_APP_DATA_POST \<Rightarrow> True
     | HTTP2_IGNORE_FRAME_DATA \<Rightarrow> True)"

text \<open>
  The next state after a header or a part of it was handled without error: the machine jumps to
  \<^verbatim>\<open>ctx->state\<close> when there is something to read, or when the frame carries data for a stream.
\<close>

definition ready :: "TfwH2Ctx \<Rightarrow> bool" where
  "ready c \<longleftrightarrow> regs_ok c \<and>
     (cx_to_read c \<noteq> 0 \<or> cx_state c \<noteq> HTTP2_IGNORE_FRAME_DATA
        \<and> h_type (cx_hdr c) \<in> {HTTP2_HEADERS, HTTP2_CONTINUATION, HTTP2_DATA}
      \<longrightarrow> label_ok (cx_state c) c)"

text \<open>The states whose handlers remove streams, and those which lead to them.\<close>

definition risky :: "TfwFrameState \<Rightarrow> bool" where
  "risky st \<longleftrightarrow> st \<in> {HTTP2_RECV_FRAME_PADDED, HTTP2_RECV_HEADER_PRI, HTTP2_RECV_HEADER, HTTP2_RECV_DATA,
     HTTP2_RECV_CONT, HTTP2_RECV_FRAME_RST_STREAM, HTTP2_RECV_FRAME_HEADER}"

definition steps :: "bool \<Rightarrow> TfwH2Ctx \<Rightarrow> (rc \<times> TfwH2Ctx) option \<Rightarrow> bool" where
  "steps trap c m \<longleftrightarrow> (case m of
       None \<Rightarrow> trap
     | Some (r, c') \<Rightarrow> recv_ok c' \<and> hid c' = hid c \<and> r \<noteq> T_POSTPONE \<and> env_ok (cx_env c')
         \<and> (r = T_OK \<longrightarrow> ready c' \<and> (risky (cx_state c') \<and> flat (cx_sched c) \<longrightarrow> flat (cx_sched c'))))"

lemma steps_return:
  "recv_ok d \<Longrightarrow> hid d = hid c \<Longrightarrow> r \<noteq> T_POSTPONE \<Longrightarrow> env_ok (cx_env d) \<Longrightarrow> (r = T_OK \<Longrightarrow> ready d) \<Longrightarrow>
   (r = T_OK \<Longrightarrow> risky (cx_state d) \<Longrightarrow> flat (cx_sched c) \<Longrightarrow> flat (cx_sched d)) \<Longrightarrow> steps t c (Some (r, d))"
  by (simp add: steps_def)

lemma steps_bind:
  assumes "fine t c m Q"
    and "\<And>r d. recv_ok d \<Longrightarrow> hid d = hid c \<Longrightarrow> regs_ok d \<Longrightarrow> Q r d \<Longrightarrow> steps t c (f (r, d))"
  shows "steps t c (Option.bind m f)"
  using assms by (cases m) (auto simp: fine_def steps_def)

lemma steps_from:
  "steps t d m \<Longrightarrow> (t \<Longrightarrow> t') \<Longrightarrow> hid d = hid c \<Longrightarrow> (flat (cx_sched c) \<Longrightarrow> flat (cx_sched d)) \<Longrightarrow> steps t' c m"
  by (auto simp: steps_def split: option.splits)

lemma ready_skip: "regs_ok c \<Longrightarrow> skipping c \<Longrightarrow> ready c"
  by (simp add: ready_def skipping_def label_ok_def)

lemma steps_term:
  assumes "recv_ok d" "hid d = hid c" "env_ok (cx_env d)"
  shows "steps t c (conn_term err d)"
  using assms conn_coreD(1,3) [OF conn_core_ctrl(6), of err d] regsD(7) [OF regs_ctrl(6), of err d]
  by (simp add: conn_term_def steps_def)

lemma steps_to_read:
  assumes "recv_ok d" "hid d = hid c" "regs_ok d" "risky st \<Longrightarrow> flat (cx_sched c) \<Longrightarrow> flat (cx_sched d)"
    and "label_ok st (d\<lparr>cx_state := st, cx_to_read := h_length (cx_hdr d), cx_hdr := (cx_hdr d)\<lparr>h_length := 0\<rparr>\<rparr>)"
  shows "steps t c (Some (T_OK, SET_TO_READ (d\<lparr>cx_state := st\<rparr>)))"
proof -
  let ?e = "SET_TO_READ (d\<lparr>cx_state := st\<rparr>)"
  have e: "?e = d\<lparr>cx_state := st, cx_to_read := h_length (cx_hdr d), cx_hdr := (cx_hdr d)\<lparr>h_length := 0\<rparr>\<rparr>"
    by (simp add: SET_TO_READ_def upd_hdr_def)
  have "recv_ok ?e" "hid ?e = hid c"
    using conn_coreD(1,3) [of ?e d] assms(1,2) by simp_all
  moreover have "regs_ok ?e" using assms(3) by (simp add: e regs_ok_def)
  ultimately show ?thesis
    using assms(4,5) regs_ok_env [OF assms(3)] by (simp add: steps_def ready_def e)
qed

lemma steps_optional:
  assumes "recv_ok d" "hid d = hid c" "regs_ok d" "risky st \<Longrightarrow> flat (cx_sched c) \<Longrightarrow> flat (cx_sched d)" "0 \<le> n"
    and "label_ok st (d\<lparr>cx_to_read := n, cx_plen := cx_plen d - word_of_int n,
           cx_hdr := (cx_hdr d)\<lparr>h_length := h_length (cx_hdr d) - n\<rparr>, cx_state := st\<rparr>)"
  shows "steps t c (recv_optional n st d)"
proof -
  let ?e = "upd_hdr (\<lambda>h. h\<lparr>h_length := h_length h - n\<rparr>)
    (d\<lparr>cx_to_read := n, cx_plen := cx_plen d - word_of_int n\<rparr>)"
  have e: "?e = d\<lparr>cx_to_read := n, cx_plen := cx_plen d - word_of_int n,
           cx_hdr := (cx_hdr d)\<lparr>h_length := h_length (cx_hdr d) - n\<rparr>\<rparr>" by (simp add: upd_hdr_def)
  have "recv_ok ?e" "hid ?e = hid c"
    using conn_coreD(1,3) [of ?e d] assms(1,2) by simp_all
  moreover have "recv_ok (?e\<lparr>cx_state := st\<rparr>) = recv_ok ?e" using conn_coreD(1) [of "?e\<lparr>cx_state := st\<rparr>" ?e] by simp
  moreover have "recv_ok (tfw_h2_conn_terminate HTTP2_ECODE_SIZE ?e) = recv_ok ?e"
    "hid (tfw_h2_conn_terminate HTTP2_ECODE_SIZE ?e) = hid ?e"
    "cx_env (tfw_h2_conn_terminate HTTP2_ECODE_SIZE ?e) = cx_env d"
    using conn_coreD(1,3) [OF conn_core_ctrl(6), of HTTP2_ECODE_SIZE ?e]
      regsD(7) [OF regs_ctrl(6), of HTTP2_ECODE_SIZE ?e] by (simp_all add: e)
  ultimately show ?thesis
    using assms(3-6) unfolding recv_optional_def VERIFY_FRAME_SIZE_def
    by (simp add: steps_def ready_def regs_ok_def e del: conn_core_upd)
qed

end
