(* ===== verification/H2_Recv_Steps.thy ===== *)
theory H2_Recv_Steps
  imports H2_Recv_Safe
begin

text \<open>
  Every step of the frame machine \<^verbatim>\<open>tfw_h2_frame_recv()\<close> establishes what the next state relies
  on, and the machine ends: each jump leads to a later state or consumes input.
\<close>

section \<open>Verification of frame headers\<close>

lemma find_cur_ok:
  assumes "recv_ok c"
  shows "recv_ok (find_cur_stream c)" "hid (find_cur_stream c) = hid c" "regs (find_cur_stream c) = regs c"
    "cx_sched (find_cur_stream c) = cx_sched c" "cx_hdr (find_cur_stream c) = cx_hdr c"
    "cx_lsettings (find_cur_stream c) = cx_lsettings c"
proof -
  have "inv_tree (cx_sched c)"
    using assms by (simp add: recv_ok_def ctx_ok_def sched_ok_def sched_inv_def)
  then have f: "tfw_h2_find_stream (sc_streams (cx_sched c)) i = (if i \<in> ids c then Some i else None)" for i
    using find_stream_iff [of "sc_streams (cx_sched c)" i] by (simp add: inv_tree_def stream_ids_def)
  have "set_option (tfw_h2_find_not_closed_stream c i) \<subseteq> ids c" for i
    by (auto simp: tfw_h2_find_not_closed_stream_def f split: if_splits)
  moreover have "ctx_ok (find_cur_stream c) = ctx_ok c"
    by (rule ctx_ok_cong) (simp_all add: find_cur_stream_def)
  ultimately show "recv_ok (find_cur_stream c)"
    using assms by (simp add: recv_ok_def find_cur_stream_def)
qed (simp_all add: find_cur_stream_def)

lemma recv_ok_send_wnd:
  assumes "recv_ok c" "regs_ok c" "tfw_h2_send_wnd_update i w c = (r, c')"
  shows "recv_ok c'" "hid c' = hid c" "regs c' = regs c" "regs_ok c'" "cx_cur_stream c' = cx_cur_stream c"
    "cx_sched c' = cx_sched c" "r \<noteq> T_POSTPONE"
  using assms conn_coreD(1,3,4,5) [OF conn_core_ctrl(1) [OF assms(3)]] regs_ctrl(1) [OF assms(3)]
    regsD(6) [OF regs_ctrl(1) [OF assms(3)]] send_not_postponed(2) [OF assms(2)]
  by (simp_all add: tfw_h2_send_wnd_update_def)

lemma flow_control_conn_fine:
  assumes "recv_ok d" "hid d = hid c" "regs_ok d"
  shows "fine False c (Some (flow_control_conn d)) 
    (\<lambda>r c'. regs c' = regs d \<and> cx_cur_stream c' = cx_cur_stream d \<and> r \<noteq> T_POSTPONE
       \<and> cx_sched c' = cx_sched d)"
proof -
  obtain r e where e: "tfw_h2_send_wnd_update 0 (word_of_int (uint DEF_WND_SIZE - cx_loc_wnd d)) d = (r, e)"
    by force
  note E = recv_ok_send_wnd [OF assms(1,3) e]
  have "recv_ok (e\<lparr>cx_loc_wnd := w\<rparr>) = recv_ok e" "regs_ok (e\<lparr>cx_loc_wnd := w\<rparr>) = regs_ok e" for w
    using conn_coreD(1) [of "e\<lparr>cx_loc_wnd := w\<rparr>" e] by (simp_all add: regs_ok_def)
  with E assms e show ?thesis by (simp add: flow_control_conn_def fine_def)
qed

lemma flow_control_fine:
  assumes ok: "recv_ok c" "regs_ok c" and s: "cx_cur_stream c = Some s"
  shows "fine False c (tfw_h2_flow_control c)
    (\<lambda>r c'. regs c' = regs c \<and> cx_cur_stream c' = Some s \<and> r \<noteq> T_POSTPONE
       \<and> flat (cx_sched c') = flat (cx_sched c))"
proof -
  have put: "recv_ok (put_strm s (\<lambda>t. t\<lparr>st_loc_wnd := w\<rparr>) d) = recv_ok d" "regs_ok (put_strm s (\<lambda>t. t\<lparr>st_loc_wnd := w\<rparr>) d) = regs_ok d" for w d
    using regsD(6) [of "put_strm s (\<lambda>t. t\<lparr>st_loc_wnd := w\<rparr>) d" d]
    by (simp_all add: recv_ok_put xmit_same_def)
  define w where "w = st_loc_wnd (strm c s) - h_length (cx_hdr c)"
  define d where "d = put_strm s (\<lambda>t. t\<lparr>st_loc_wnd := w\<rparr>) (c\<lparr>cx_loc_wnd := cx_loc_wnd c - h_length (cx_hdr c)\<rparr>)"
  have "recv_ok (c\<lparr>cx_loc_wnd := v\<rparr>) = recv_ok c" "regs_ok (c\<lparr>cx_loc_wnd := v\<rparr>) = regs_ok c" for v
    using conn_coreD(1) [of "c\<lparr>cx_loc_wnd := v\<rparr>" c] by (simp_all add: regs_ok_def)
  then have d: "recv_ok d" "hid d = hid c" "regs_ok d" "regs d = regs c" "cx_cur_stream d = Some s"
    "flat (cx_sched d) = flat (cx_sched c)"
    using ok s put by (simp_all add: d_def)
  let ?n = "s_wnd_sz (cx_lsettings c)"
  obtain r e where e: "tfw_h2_send_wnd_update s (word_of_int (uint ?n - w)) d = (r, e)" by force
  note E = recv_ok_send_wnd [OF d(1,3) e]
  let ?f = "put_strm s (\<lambda>t. t\<lparr>st_loc_wnd := uint ?n\<rparr>) e"
  have f: "recv_ok ?f" "hid ?f = hid c" "regs_ok ?f" "regs ?f = regs c" "cx_cur_stream ?f = Some s"
    "flat (cx_sched ?f) = flat (cx_sched c)"
    using E d put by simp_all
  have "tfw_h2_flow_control c = Some (if w \<le> uint ?n div 2 then
      (if r \<noteq> T_OK then (r, e) else flow_control_conn ?f) else flow_control_conn d)"
    using s e by (simp add: tfw_h2_flow_control_def Let_def d_def w_def)
  moreover have "fine False c (Some (flow_control_conn g))
      (\<lambda>r c'. regs c' = regs c \<and> cx_cur_stream c' = Some s \<and> r \<noteq> T_POSTPONE \<and> flat (cx_sched c') = flat (cx_sched c))"
    if "recv_ok g" "hid g = hid c" "regs_ok g" "regs g = regs c" "cx_cur_stream g = Some s"
      "flat (cx_sched g) = flat (cx_sched c)" for g
    by (rule fine_mono [OF flow_control_conn_fine [OF that(1-3)]]) (use that in simp)
  ultimately show ?thesis
    using d f E by (simp add: fine_return)
qed

lemma steps_skip:
  assumes "recv_ok d" "hid d = hid c" "regs_ok d"
  shows "steps t c (Some (T_OK, SET_TO_READ (d\<lparr>cx_state := HTTP2_IGNORE_FRAME_DATA\<rparr>)))"
proof -
  let ?e = "SET_TO_READ (d\<lparr>cx_state := HTTP2_IGNORE_FRAME_DATA\<rparr>)"
  have "recv_ok ?e" "hid ?e = hid c"
    using conn_coreD(1,3) [of ?e d] assms(1,2) by simp_all
  moreover have "regs_ok ?e" "skipping ?e"
    using assms(3) by (simp_all add: SET_TO_READ_def upd_hdr_def regs_ok_def skipping_def)
  ultimately show ?thesis
    by (intro steps_return ready_skip) (simp_all add: skipping_def risky_def)
qed

lemma start_payload_ok:
  assumes "recv_ok d"
  shows "recv_ok (start_payload d)" "hid (start_payload d) = hid d" "cx_sched (start_payload d) = cx_sched d"
    "cx_cur_stream (start_payload d) = cx_cur_stream d" "regs_ok (start_payload d) = regs_ok d"
    "cx_hdr (start_payload d) = cx_hdr d" "cx_lsettings (start_payload d) = cx_lsettings d"
  using assms conn_coreD(1) [of "start_payload d" d] regsD(6) [of "start_payload d" d]
  by (simp_all, simp_all add: start_payload_def)

lemma data_steps:
  assumes ok: "recv_ok c" "regs_ok c" and ty: "h_type (cx_hdr c) = HTTP2_DATA"
  shows "steps False c (type_process_data c)"
proof -
  note f = find_cur_ok [OF ok(1)]
  let ?f = "find_cur_stream c"
  have rf: "regs_ok ?f" using regsD(6) [OF f(3)] ok(2) by simp
  have "steps False c (do {
          (r, c) \<leftarrow> tfw_h2_flow_control ?f;
          (if r \<noteq> T_OK then Some (r, c)
           else
             let c = start_payload c in
             if has_flag (h_flags (cx_hdr c)) HTTP2_F_PADDED then tfw_h2_recv_padded c
             else Some (T_OK, SET_TO_READ (c\<lparr>cx_state := HTTP2_RECV_DATA\<rparr>)))
        })" if s: "cx_cur_stream ?f = Some s" for s
  proof (rule steps_bind [OF fine_from [OF flow_control_fine [OF f(1) rf s]]], goal_cases)
    case (3 r d)
    note d = start_payload_ok [OF 3(1)]
    have "steps False c (recv_optional 1 HTTP2_RECV_FRAME_PADDED (start_payload d))"
      by (rule steps_optional) (use 3 d f(2,4) ty in \<open>auto simp: label_ok_def\<close>)
    moreover have "steps False c (Some (T_OK, SET_TO_READ ((start_payload d)\<lparr>cx_state := HTTP2_RECV_DATA\<rparr>)))"
      by (rule steps_to_read) (use 3 d f(2,4) ty in \<open>auto simp: label_ok_def\<close>)
    moreover have "steps False c (Some (r, d))" if "r \<noteq> T_OK"
      by (rule steps_return) (use 3 f(2) that in auto)
    ultimately show ?case by (simp add: Let_def tfw_h2_recv_padded_def)
  qed (use f(2) in simp_all)
  then show ?thesis
    unfolding type_process_data_def Let_def
    using steps_term [OF ok(1) _ regs_ok_env [OF ok(2)]] steps_term [OF f(1,2) regs_ok_env [OF rf]] by auto
qed

text \<open>Room for one more stream.\<close>

lemma shrink_fine:
  assumes ok: "recv_ok c" "regs_ok c" and cur: "cx_cur_stream c = None"
  shows "fine (deps c) c (map_option (Pair ()) (tfw_h2_closed_streams_shrink c))
    (\<lambda>_ c'. ctx_rest c' = ctx_rest c \<and> (flat (cx_sched c) \<longrightarrow> flat (cx_sched c')))"
proof -
  define xs where "xs = take (shrink_count c) (closed_list c)"
  have okc: "ctx_ok c" using ok by (simp add: recv_ok_def)
  have xs: "set xs \<subseteq> ids c" "distinct xs"
    using subset_trans [OF set_take_subset closed_okD(1) [OF okc]] ctx_okD(2) [OF okc, of Closed_Queue]
    by (simp_all add: xs_def queue_ok_def queue_get_def)
  have eq: "tfw_h2_closed_streams_shrink c = drop_closed_list xs c" using shrink_eq [OF okc] by (simp add: xs_def)
  show ?thesis
  proof (cases "drop_closed_list xs c")
    case None
    with drop_closed_list_returns [OF okc xs] show ?thesis by (auto simp: fine_def eq)
  next
    case (Some d)
    with drop_closed_list_ok [OF okc xs] have d: "ctx_ok d" "ctx_rest d = ctx_rest c" "ids d = ids c - set xs"
      "flat (cx_sched c) \<longrightarrow> flat (cx_sched d)"
      by auto
    then have "card (ids d) \<le> card (ids c)" by (simp add: card_mono)
    with ok cur d ctx_restD(1,4,5) [OF d(2)] regsD(6) [OF regs_rest [OF d(2)]] Some show ?thesis
      by (simp add: fine_def eq recv_ok_def)
  qed
qed

lemma verify_max_fine:
  assumes ok: "recv_ok c" "regs_ok c" and cur: "cx_cur_stream c = None"
  shows "fine (deps c) c (map_option (\<lambda>v. case v of Inl d \<Rightarrow> (True, d) | Inr d \<Rightarrow> (False, d))
      (VERIFY_MAX_CONCURRENT_STREAMS c))
    (\<lambda>full d. if full then skipping d else ctx_rest d = ctx_rest c
       \<and> card (ids d) < max_streams d \<and> (flat (cx_sched c) \<longrightarrow> flat (cx_sched d)))"
proof (cases "tfw_h2_closed_streams_shrink c")
  case None
  with shrink_fine [OF assms] show ?thesis by (simp add: fine_def VERIFY_MAX_CONCURRENT_STREAMS_def)
next
  case (Some d)
  with shrink_fine [OF assms] have d: "recv_ok d" "hid d = hid c" "regs_ok d" "ctx_rest d = ctx_rest c"
    "flat (cx_sched c) \<longrightarrow> flat (cx_sched d)"
    by (auto simp: fine_def)
  let ?e = "SET_TO_READ_VERIFY HTTP2_IGNORE_FRAME_DATA d"
  have e: "recv_ok ?e" "hid ?e = hid c" "regs_ok ?e" "skipping ?e"
    using conn_coreD(1,3) [of ?e d] d to_read_verify_regs(1) [of d]
    by (simp_all add: skipping_def SET_TO_READ_VERIFY_def)
  have "card (ids d) < max_streams d" if "ucast (s_max_streams (cx_lsettings d)) \<noteq> cx_streams_num d"
  proof -
    have "cx_streams_num d = of_nat (card (ids d))" "card (ids d) \<le> max_streams d"
      using d(1) by (auto simp: recv_ok_def ctx_ok_def)
    then show ?thesis using that unfolding ucast_max_streams by (metis le_neq_implies_less)
  qed
  with Some d e show ?thesis by (simp add: VERIFY_MAX_CONCURRENT_STREAMS_def fine_return)
qed

lemma headers_tail_steps:
  assumes ok: "recv_ok d" "regs_ok d" "hid d = hid c" and ty: "h_type (cx_hdr d) = HTTP2_HEADERS"
    and pend: "hdr_pending d" and fl: "flat (cx_sched c) \<longrightarrow> flat (cx_sched d)"
  shows "steps t c (type_process_headers_tail d)"
proof -
  note e = start_payload_ok [OF ok(1)]
  have hp: "hdr_pending (start_payload d)" using pend e(3,4,6,7) by (simp add: hdr_pending_def)
  have hpu: "hdr_pending ((start_payload d)\<lparr>cx_to_read := n, cx_plen := pl, cx_hdr := (cx_hdr d)\<lparr>h_length := l\<rparr>, cx_state := st\<rparr>)"
    "hdr_pending ((start_payload d)\<lparr>cx_state := st, cx_to_read := n, cx_hdr := (cx_hdr d)\<lparr>h_length := l\<rparr>\<rparr>)" for n pl l st
    using hp e(6) by (simp_all add: hdr_pending_def)
  have "steps t c (recv_optional 1 HTTP2_RECV_FRAME_PADDED (start_payload d))"
    by (rule steps_optional) (use ok e ty hpu fl in \<open>auto simp: label_ok_def\<close>)
  moreover have "steps t c (recv_optional 5 HTTP2_RECV_HEADER_PRI (start_payload d))"
    if "has_flag (h_flags (cx_hdr d)) HTTP2_F_PRIORITY"
    by (rule steps_optional) (use ok e that hpu fl in \<open>auto simp: label_ok_def\<close>)
  moreover have "steps t c (Some (T_OK, SET_TO_READ ((start_payload d)\<lparr>cx_state := HTTP2_RECV_HEADER\<rparr>)))"
    by (rule steps_to_read) (use ok e hpu fl in \<open>auto simp: label_ok_def\<close>)
  ultimately show ?thesis
    using e(6) by (simp add: type_process_headers_tail_def Let_def tfw_h2_recv_padded_def tfw_h2_recv_priority_def)
qed

lemma headers_steps:
  assumes ok: "recv_ok c" "regs_ok c" and ty: "h_type (cx_hdr c) = HTTP2_HEADERS"
  shows "steps (deps c) c (type_process_headers c)"
proof -
  define i where "i = h_stream_id (cx_hdr c)"
  define f where "f = find_cur_stream c"
  note f = find_cur_ok [OF ok(1), folded f_def]
  have rf: "regs_ok f" using regsD(6) [OF f(3)] ok(2) by simp
  obtain g where g: "tfw_h2_remove_idle_streams i f = Some g" "ctx_ok g" "ids g = ids f" "ctx_rest g = ctx_rest f"
    "sc_entry (cx_sched g) = sc_entry (cx_sched f)"
    using remove_idle_streams_ok [of f i] f(1) by (auto simp: recv_ok_def)
  have fg: "flat (cx_sched g) = flat (cx_sched c)" using g(3,5) f(4) by (simp add: flat_def children_def)
  have G: "recv_ok g" "hid g = hid c" "regs_ok g" "cx_cur_stream g = cx_cur_stream f" "cx_hdr g = cx_hdr c"
    using f(1,2,5) g(2,3) ctx_restD(1,4,5) [OF g(4)] regsD(6) [OF regs_rest [OF g(4)]] rf
    by (simp_all add: recv_ok_def)
  have old: "steps (deps c) c (type_process_headers_tail g)" if "cx_cur_stream g \<noteq> None" "i \<noteq> 0"
    by (rule headers_tail_steps) (use G ty that fg in \<open>auto simp: hdr_pending_def i_def\<close>)
  have new: "steps (deps c) c (do { v \<leftarrow> VERIFY_MAX_CONCURRENT_STREAMS g;
             (case v of
                Inl c \<Rightarrow> Some (tfw_h2_send_rst_stream i HTTP2_ECODE_REFUSED c)
              | Inr c \<Rightarrow> type_process_headers_tail c) })" if cur: "cx_cur_stream g = None" and i: "i \<noteq> 0"
  proof (cases "VERIFY_MAX_CONCURRENT_STREAMS g")
    case None
    with verify_max_fine [OF G(1,3) cur] fg show ?thesis by (simp add: fine_def steps_def)
  next
    case (Some v)
    show ?thesis
    proof (cases v)
      case (Inl d)
      with Some verify_max_fine [OF G(1,3) cur] have d: "recv_ok d" "hid d = hid c" "regs_ok d" "skipping d"
        using G(2) by (auto simp: fine_def)
      obtain r e where e: "tfw_h2_send_rst_stream i HTTP2_ECODE_REFUSED d = (r, e)" by force
      have "recv_ok e" "hid e = hid c" "regs_ok e" "skipping e"
        using d conn_coreD(1,3) [OF conn_core_ctrl(2) [OF e]] regsD(5,6) [OF regs_ctrl(2) [OF e]]
        by (simp_all add: skipping_def)
      then have "steps (deps c) c (Some (r, e))"
        using rst_not_postponed [OF e] by (intro steps_return ready_skip) (auto simp: skipping_def risky_def)
      then show ?thesis using Some Inl e by simp
    next
      case (Inr d)
      with Some verify_max_fine [OF G(1,3) cur]
      have d: "recv_ok d" "hid d = hid c" "regs_ok d" "ctx_rest d = ctx_rest g" "card (ids d) < max_streams d"
        "flat (cx_sched c) \<longrightarrow> flat (cx_sched d)"
        using G(2) fg by (auto simp: fine_def)
      have "steps (deps c) c (type_process_headers_tail d)"
        by (rule headers_tail_steps)
          (use d ty ctx_restD(5) [OF d(4)] G(5) i in \<open>auto simp: hdr_pending_def i_def\<close>)
      then show ?thesis using Some Inr by simp
    qed
  qed
  show ?thesis
    unfolding type_process_headers_def Let_def i_def [symmetric] f_def [symmetric]
    using steps_term [OF ok(1) _ regs_ok_env [OF ok(2)]] steps_term [OF f(1,2) regs_ok_env [OF rf]] g(1) old new by (auto simp: f(5))
qed

text \<open>Frames that run the stream machine as soon as their header is read.\<close>

lemma recv_process_steps:
  assumes ok: "recv_ok d" "regs_ok d" "hid d = hid c" "risky st \<Longrightarrow> flat (cx_sched c) \<Longrightarrow> flat (cx_sched d)"
    and s: "cx_cur_stream d = Some s"
    and lab: "\<And>e. regs e = regs d \<Longrightarrow> cx_cur_stream e = Some s \<Longrightarrow>
      (h_type (cx_hdr d) = HTTP2_WINDOW_UPDATE \<longrightarrow> st_state (strm e s) \<noteq> HTTP2_STREAM_IDLE) \<Longrightarrow>
      label_ok st (e\<lparr>cx_state := st, cx_to_read := h_length (cx_hdr e), cx_hdr := (cx_hdr e)\<lparr>h_length := 0\<rparr>\<rparr>)"
  shows "steps False c (do { (ret, c) \<leftarrow> STREAM_RECV_PROCESS d;
     Some (case ret of Some r \<Rightarrow> (r, c)
           | None \<Rightarrow> (T_OK, SET_TO_READ (c\<lparr>cx_state := st\<rparr>))) })"
proof (rule steps_bind [OF fine_from [OF recv_process_fine [OF ok(1,2) s]]], goal_cases)
  case (3 ret e)
  show ?case
  proof (cases ret)
    case None
    with 3 have "steps False c (Some (T_OK, SET_TO_READ (e\<lparr>cx_state := st\<rparr>)))"
      using ok(4) by (intro steps_to_read lab) auto
    with None show ?thesis by simp
  next
    case (Some r)
    with 3 have "steps False c (Some (r, e))"
      by (intro steps_return ready_skip) (auto simp: skipping_def risky_def)
    with Some show ?thesis by simp
  qed
qed (use ok(3) in simp_all)

lemma priority_recv_steps:
  assumes ok: "recv_ok d" "regs_ok d" "hid d = hid c"
    and s: "cx_cur_stream d = Some (h_stream_id (cx_hdr d))" and len: "h_length (cx_hdr d) = 5"
  shows "steps False c (priority_recv_process d)"
  unfolding priority_recv_process_def
  by (rule recv_process_steps [OF ok _ s]) (use len in \<open>auto simp: label_ok_def risky_def dest: regsD(4)\<close>)

lemma for_stream_steps:
  assumes ok: "recv_ok c" "regs_ok c" and len: "h_length (cx_hdr c) = 4"
    and st: "st = HTTP2_RECV_FRAME_WND_UPDATE \<and> h_type (cx_hdr c) = HTTP2_WINDOW_UPDATE
           \<or> st = HTTP2_RECV_FRAME_RST_STREAM"
  shows "steps False c (recv_for_stream st c)"
proof -
  note f = find_cur_ok [OF ok(1)]
  have rf: "regs_ok (find_cur_stream c)" using regsD(6) [OF f(3)] ok(2) by simp
  show ?thesis
  proof (cases "cx_cur_stream (find_cur_stream c)")
    case None
    with steps_skip [OF f(1,2) rf] show ?thesis by (simp add: recv_for_stream_def Let_def)
  next
    case (Some s)
    have "steps False c (do { (ret, c) \<leftarrow> STREAM_RECV_PROCESS (find_cur_stream c);
       Some (case ret of Some r \<Rightarrow> (r, c)
           | None \<Rightarrow> (T_OK, SET_TO_READ (c\<lparr>cx_state := st\<rparr>))) })"
      by (rule recv_process_steps [OF f(1) rf f(2) _ Some])
        (use st len f(4,5) in \<open>auto simp: label_ok_def strm_def dest: regsD(4)\<close>)
    with Some show ?thesis by (simp add: recv_for_stream_def Let_def)
  qed
qed

lemma priority_steps:
  assumes ok: "recv_ok c" "regs_ok c" and cur: "cx_cur_stream c = None"
  shows "steps (deps c) c (type_process_priority c)"
proof -
  define i where "i = h_stream_id (cx_hdr c)"
  define f where "f = c\<lparr>cx_cur_stream := tfw_h2_find_stream (sc_streams (cx_sched c)) i\<rparr>"
  have "inv_tree (cx_sched c)"
    using ok(1) by (simp add: recv_ok_def ctx_ok_def sched_ok_def sched_inv_def)
  then have cf: "cx_cur_stream f = (if i \<in> ids c then Some i else None)"
    using find_stream_iff [of "sc_streams (cx_sched c)" i] by (simp add: f_def inv_tree_def stream_ids_def)
  have "ctx_ok f = ctx_ok c" by (rule ctx_ok_cong) (simp_all add: f_def)
  then have f: "recv_ok f" "hid f = hid c" "regs_ok f" "cx_sched f = cx_sched c" "cx_hdr f = cx_hdr c"
    using ok cf by (auto simp: recv_ok_def f_def regs_ok_def)
  have old: "steps (deps c) c (priority_recv_process f)" if "cx_cur_stream f \<noteq> None" "h_length (cx_hdr c) = 5"
    by (rule steps_from [OF priority_recv_steps [OF f(1,3,2)]])
      (use that cf f(4,5) in \<open>auto simp: i_def split: if_splits\<close>)
  have new: "steps (deps c) c (do { v \<leftarrow> VERIFY_MAX_CONCURRENT_STREAMS f;
      (case v of Inl c \<Rightarrow> conn_term HTTP2_ECODE_PROTO c
       | Inr c \<Rightarrow> do { (so, c) \<leftarrow> tfw_h2_stream_create i c; let c = c\<lparr>cx_cur_stream := so\<rparr>;
               (case so of None \<Rightarrow> Some (ENOMEM, c)
                | Some s \<Rightarrow> priority_recv_process (tfw_h2_stream_add_idle s c)) }) })"
    if cur: "cx_cur_stream f = None" and i: "i \<noteq> 0" "h_length (cx_hdr c) = 5"
  proof (cases "VERIFY_MAX_CONCURRENT_STREAMS f")
    case None
    with verify_max_fine [OF f(1,3) cur] f(4) show ?thesis by (simp add: fine_def steps_def)
  next
    case (Some v)
    show ?thesis
    proof (cases v)
      case (Inl d)
      with Some verify_max_fine [OF f(1,3) cur] f(2) have "recv_ok d" "hid d = hid c" "regs_ok d"
        by (auto simp: fine_def)
      with Some Inl steps_term [of d c] show ?thesis by simp
    next
      case (Inr d)
      with Some verify_max_fine [OF f(1,3) cur] f(2)
      have d: "recv_ok d" "hid d = hid c" "regs_ok d" "ctx_rest d = ctx_rest f" "card (ids d) < max_streams d"
        by (auto simp: fine_def)
      obtain so e where e: "tfw_h2_stream_create i d = Some (so, e)" "ctx_rest e = ctx_rest d"
        by (rule create_returns [OF d(1) i(1)])
      let ?e = "e\<lparr>cx_cur_stream := so\<rparr>"
      have E: "recv_ok ?e" "hid ?e = hid c" "\<forall>s. so = Some s \<longrightarrow> s \<in> ids ?e \<and> st_queue (strm ?e s) = None"
        using recv_create_ok [OF d(1) i(1) d(5) e(1)] d(2) by (auto simp: strm_def)
      have R: "regs_ok ?e" using regsD(6) [OF regs_rest [OF e(2)]] d(3) by (simp add: regs_ok_def)
      have h: "cx_hdr ?e = cx_hdr c" using ctx_restD(5) [OF e(2)] ctx_restD(5) [OF d(4)] f(5) by simp
      show ?thesis
      proof (cases so)
        case None
        then show ?thesis using Some Inr e(1) E(1,2) regs_ok_env [OF R] by (simp add: steps_def)
      next
        case s: (Some s)
        have "s = i" using create_idle_state(1) [OF d(1) i(1)] e(1) s by simp
        let ?g = "tfw_h2_stream_add_idle s ?e"
        have g: "ctx_ok ?g" "ids ?g = ids ?e" "ctx_rest ?g = ctx_rest ?e"
          using add_idle_ok [of ?e s] E(1,3) s by (auto simp: recv_ok_def)
        then have G: "recv_ok ?g" "hid ?g = hid c" "regs_ok ?g" "cx_hdr ?g = cx_hdr c" "cx_cur_stream ?g = Some i"
          using E(1) h ctx_restD(1,4,5) [OF g(3)] regsD(6) [OF regs_rest [OF g(3)]] R s \<open>s = i\<close>
          by (simp_all add: recv_ok_def)
        have "steps False c (priority_recv_process ?g)"
          by (rule priority_recv_steps [OF G(1,3,2)]) (use G i in \<open>simp_all add: i_def\<close>)
        then have "steps (deps c) c (priority_recv_process ?g)" by (rule steps_from) simp_all
        with Some Inr e(1) s show ?thesis by simp
      qed
    qed
  qed
  show ?thesis
    unfolding type_process_priority_def Let_def i_def [symmetric] f_def [symmetric]
    using steps_term [OF ok(1) _ regs_ok_env [OF ok(2)]] steps_term [OF f(1,2) regs_ok_env [OF f(3)]] old new steps_skip [OF f(1,2,3)]
    by (auto simp: f(5) Let_def)
qed

text \<open>The other frame types.\<close>

lemma settings_steps:
  assumes ok: "recv_ok c" "regs_ok c" and ty: "h_type (cx_hdr c) = HTTP2_SETTINGS"
  shows "steps False c (type_process_settings c)"
proof -
  define d where "d = (if has_flag (h_flags (cx_hdr c)) HTTP2_F_ACK then tfw_h2_settings_ack_process c else c)"
  have d: "recv_ok d" "hid d = hid c" "regs d = regs c" "cx_sched d = cx_sched c"
    using ok conn_coreD(1,3,4) [of "tfw_h2_settings_ack_process c" c] by (simp_all add: d_def)
  note dr = regsD(4,6) [OF d(3)] and env = regsD(7) [OF d(3)] regs_ok_env [OF ok(2)]
  let ?l = "h_length (cx_hdr c)"
  let ?e = "upd_hdr (\<lambda>h. h\<lparr>h_length := h_length h - 6\<rparr>)
            (d\<lparr>cx_state := HTTP2_RECV_FRAME_SETTINGS, cx_to_read := 6\<rparr>)"
  have "steps False c (Some (T_OK, ?e))" if l: "?l \<noteq> 0" "?l mod 6 = 0"
  proof (rule steps_return)
    have "0 \<le> ?l" using ok(2) by (simp add: regs_ok_def)
    with l have "6 \<le> ?l" by presburger
    then show "ready ?e" using ok(2) dr l(2) d(3)
      by (simp add: ready_def regs_ok_def label_ok_def upd_hdr_def regs_def mod_eq_0_iff_dvd)
  qed (use d conn_coreD(1,3,4) [of ?e d] env in simp_all)
  moreover have "steps False c (Some (T_OK, d\<lparr>cx_to_read := 0\<rparr>))"
  proof (rule steps_return)
    show "ready (d\<lparr>cx_to_read := 0\<rparr>)" using ok(2) dr d(3) ty
      by (simp add: ready_def regs_ok_def regs_def)
  qed (use d conn_coreD(1) [of "d\<lparr>cx_to_read := 0\<rparr>" d] env in simp_all)
  ultimately show ?thesis
    unfolding type_process_settings_def Let_def d_def [symmetric]
    using steps_term [OF ok(1) _ regs_ok_env [OF ok(2)]] by simp
qed

lemma ping_goaway_steps:
  assumes ok: "recv_ok c" "regs_ok c"
  shows "steps False c (type_process_ping c)" "steps False c (type_process_goaway c)"
proof -
  show "steps False c (type_process_ping c)"
    using steps_term [OF ok(1) _ regs_ok_env [OF ok(2)]] steps_to_read [OF ok(1) _ ok(2), of c HTTP2_RECV_FRAME_PING False]
    by (simp add: type_process_ping_def label_ok_def)
  let ?e = "upd_hdr (\<lambda>h. h\<lparr>h_length := h_length h - 8\<rparr>) (c\<lparr>cx_state := HTTP2_RECV_FRAME_GOAWAY, cx_to_read := 8\<rparr>)"
  have "steps False c (Some (T_OK, ?e))" if "\<not> h_length (cx_hdr c) < 8"
  proof (rule steps_return)
    show "ready ?e" using ok(2) that by (simp add: ready_def regs_ok_def label_ok_def upd_hdr_def)
  qed (use ok conn_coreD(1,3,4) [of ?e c] in simp_all)
  then show "steps False c (type_process_goaway c)"
    using steps_term [OF ok(1) _ regs_ok_env [OF ok(2)]] by (simp add: type_process_goaway_def)
qed

lemma cont_steps:
  assumes ok: "recv_ok c" "regs_ok c"
  shows "steps False c (type_process_continuation c)"
proof -
  note f = find_cur_ok [OF ok(1)]
  let ?f = "start_payload (find_cur_stream c)"
  have rf: "regs_ok (find_cur_stream c)" using regsD(6) [OF f(3)] ok(2) by simp
  note g = start_payload_ok [OF f(1)]
  have eq: "(SET_TO_READ ?f)\<lparr>cx_state := HTTP2_RECV_CONT\<rparr> = SET_TO_READ (?f\<lparr>cx_state := HTTP2_RECV_CONT\<rparr>)"
    by (simp add: SET_TO_READ_def upd_hdr_def)
  have "steps False c (Some (T_OK, SET_TO_READ (?f\<lparr>cx_state := HTTP2_RECV_CONT\<rparr>)))"
    if "cx_cur_stream (find_cur_stream c) \<noteq> None"
    by (rule steps_to_read) (use f g rf that in \<open>auto simp: label_ok_def\<close>)
  then show ?thesis
    using steps_term [OF ok(1) _ regs_ok_env [OF ok(2)]] steps_term [OF f(1,2) regs_ok_env [OF rf]]
    by (simp add: type_process_continuation_def Let_def eq)
qed

lemma wnd_rst_steps:
  assumes ok: "recv_ok c" "regs_ok c"
  shows "h_type (cx_hdr c) = HTTP2_WINDOW_UPDATE \<Longrightarrow> cx_cur_stream c = None \<Longrightarrow>
      steps False c (type_process_window_update c)"
    and "steps False c (type_process_rst_stream c)"
proof -
  show "steps False c (type_process_window_update c)"
    if "h_type (cx_hdr c) = HTTP2_WINDOW_UPDATE" "cx_cur_stream c = None"
    using steps_term [OF ok(1) _ regs_ok_env [OF ok(2)]] for_stream_steps [OF ok, of HTTP2_RECV_FRAME_WND_UPDATE] that
      steps_to_read [OF ok(1) _ ok(2), of c HTTP2_RECV_FRAME_WND_UPDATE False]
    by (simp add: type_process_window_update_def Let_def label_ok_def)
  show "steps False c (type_process_rst_stream c)"
    using steps_term [OF ok(1) _ regs_ok_env [OF ok(2)]] for_stream_steps [OF ok, of HTTP2_RECV_FRAME_RST_STREAM]
    by (simp add: type_process_rst_stream_def Let_def)
qed

lemma type_process_steps:
  assumes ok: "recv_ok c" "regs_ok c" and cur: "cx_cur_stream c = None"
  shows "steps (deps c) c (tfw_h2_frame_type_process c)"
proof -
  define ty where "ty = (if h_type (cx_hdr c) \<le> HTTP2_UNDEFINED then h_type (cx_hdr c) else HTTP2_UNDEFINED)"
  obtain b d where bd: "tfw_h2_ctrl_frame_limit ty c = (b, d)" by force
  note core = conn_coreD(1,3,4,5) [OF conn_core_ctrl(7) [OF bd]] and rg = regsD(4,6) [OF regs_ctrl(7) [OF bd]]
  have d: "recv_ok d" "regs_ok d" "hid d = hid c" "cx_cur_stream d = None" "flat (cx_sched d) = flat (cx_sched c)"
    using core rg ok cur by simp_all
  have go: "steps (deps c) c m" if "steps (deps d) d m" for m
    by (rule steps_from [OF that]) (use d in simp_all)
  have go': "steps (deps c) c m" if "steps False d m" for m
    by (rule steps_from [OF that]) (use d in simp_all)
  have ty': "h_type (cx_hdr d) = ty" if "ty \<noteq> HTTP2_UNDEFINED"
    using that d(3) by (auto simp: ty_def split: if_splits)
  have "steps (deps c) c (type_process_unknown d)"
    using steps_term [OF d(1) _ regs_ok_env [OF d(2)]] steps_skip [OF d(1) _ d(2), of d False]
    by (intro go') (simp add: type_process_unknown_def)
  moreover have "steps (deps c) c (Some (T_BLOCK_WITH_RST, d))"
    using d by (simp add: steps_def)
  ultimately show ?thesis
    unfolding tfw_h2_frame_type_process_def Let_def ty_def [symmetric] bd
    using steps_term [OF ok(1) _ regs_ok_env [OF ok(2)]] steps_term [OF d(1,3) regs_ok_env [OF d(2)]] ty'
      go [OF headers_steps [OF d(1,2)]] go [OF priority_steps [OF d(1,2,4)]] go' [OF data_steps [OF d(1,2)]]
      go' [OF settings_steps [OF d(1,2)]] go' [OF ping_goaway_steps(1) [OF d(1,2)]]
      go' [OF ping_goaway_steps(2) [OF d(1,2)]] go' [OF cont_steps [OF d(1,2)]]
      go' [OF wnd_rst_steps(1) [OF d(1,2) _ d(4)]] go' [OF wnd_rst_steps(2) [OF d(1,2)]]
    by (cases b) simp_all
qed

end
