(* ===== verification/H2_Recv_Machine.thy ===== *)
theory H2_Recv_Machine
  imports H2_Recv_Steps
begin

text \<open>
  The frame machine as a whole: its invariant, that one turn keeps it, and that the machine ends
  on every input.
\<close>

section \<open>The invariant of the machine\<close>

text \<open>How much of the current part of the frame was read so far.\<close>

definition rlen_ok :: "TfwFrameState \<Rightarrow> TfwH2Ctx \<Rightarrow> bool" where
  "rlen_ok st c \<longleftrightarrow> 0 \<le> cx_rlen c \<and>
     (if st = HTTP2_RECV_CLI_START_SEQ then cx_rlen c < 24
      else if st = HTTP2_RECV_FIRST_SETTINGS \<or> st = HTTP2_RECV_FRAME_HEADER then cx_rlen c < 9
      else if APP_FRAME st then cx_rlen c = 0
      else if st = HTTP2_IGNORE_FRAME_DATA then cx_rlen c \<le> cx_to_read c
      else cx_rlen c < cx_to_read c)"

definition recv_inv :: "TfwFrameState \<Rightarrow> TfwH2Ctx \<Rightarrow> bool" where
  "recv_inv st c \<longleftrightarrow> recv_ok c \<and> regs_ok c \<and> label_ok st c \<and> rlen_ok st c"

definition fsm_measure :: "TfwFrameState \<Rightarrow> u8 list \<Rightarrow> nat" where
  "fsm_measure st p = 2 * length p
     + (if st \<in> {HTTP2_RECV_DATA, HTTP2_RECV_CONT, HTTP2_RECV_HEADER} then 1 else 0)"

text \<open>
  What one state of the machine guarantees: when it asks for more input, all input was read and
  the invariant holds for the state to go on from; when the frame is finished, the registers are
  sane; when it jumps, the invariant holds for the target and the measure is smaller.
\<close>

definition outcome :: "bool \<Rightarrow> TfwFrameState \<Rightarrow> u8 list \<Rightarrow> fsm_result \<Rightarrow> bool" where
  "outcome fl st p m \<longleftrightarrow> (case m of
       None \<Rightarrow> risky st \<and> \<not> fl
     | Some (nxt, c', p') \<Rightarrow> length p' \<le> length p \<and> (case nxt of
           Fsm_Exit r st' \<Rightarrow> recv_ok c' \<and> env_ok (cx_env c') \<and> (r = T_POSTPONE \<longrightarrow> p' = [] \<and> recv_inv st' c')
             \<and> (r = T_OK \<or> APP_FRAME st' \<longrightarrow> regs_ok c' \<and> cx_rlen c' = 0)
             \<and> (st' = HTTP2_RECV_HEADER \<longrightarrow> h_stream_id (cx_hdr c') \<noteq> sched_root)
         | Fsm_Goto st' \<Rightarrow> recv_inv st' c' \<and> fsm_measure st' p' < fsm_measure st p
             \<and> (risky st' \<longrightarrow> risky st \<and> (fl \<longrightarrow> flat (cx_sched c')))))"

lemma app_frame_header [simp]: "APP_FRAME HTTP2_RECV_HEADER" by (simp add: APP_FRAME_def)

lemma header_label: "label_ok HTTP2_RECV_HEADER c \<Longrightarrow> h_stream_id (cx_hdr c) \<noteq> sched_root"
  by (simp add: label_ok_def hdr_pending_def)

lemma label_ok_regs [simp]:
  "label_ok st (c\<lparr>cx_rbuf := b\<rparr>) = label_ok st c" "label_ok st (c\<lparr>cx_rlen := n\<rparr>) = label_ok st c"
  by (auto simp: label_ok_def hdr_pending_def strm_def split: TfwFrameState.split)

lemma recv_ok_regs [simp]:
  "recv_ok (c\<lparr>cx_rbuf := b\<rparr>) = recv_ok c" "recv_ok (c\<lparr>cx_rlen := n\<rparr>) = recv_ok c"
  "recv_ok (c\<lparr>cx_to_read := n\<rparr>) = recv_ok c" "recv_ok (c\<lparr>cx_state := st\<rparr>) = recv_ok c"
  by (rule conn_coreD(1); simp)+

lemma exit_outcome:
  assumes "recv_ok c" "env_ok (cx_env c)" "r \<noteq> T_POSTPONE" "r = T_OK \<or> APP_FRAME st' \<Longrightarrow> regs_ok c" "length p' \<le> length p"
    "st' = HTTP2_RECV_HEADER \<Longrightarrow> h_stream_id (cx_hdr c) \<noteq> sched_root"
  shows "outcome fl st p (FRAME_FSM_EXIT r st' c p')"
  using assms by (auto simp: outcome_def FRAME_FSM_EXIT_def regs_ok_def)

text \<open>The first reading of a part: nothing was read yet.\<close>

lemma fresh_inv:
  assumes "recv_ok c" "regs_ok c" "label_ok st c" "st = HTTP2_IGNORE_FRAME_DATA \<or> cx_to_read c \<noteq> 0 \<or> APP_FRAME st
    \<or> st = HTTP2_RECV_FIRST_SETTINGS"
  shows "recv_inv st (c\<lparr>cx_rlen := 0\<rparr>)"
  using assms by (auto simp: recv_inv_def rlen_ok_def regs_ok_def)

lemma move_outcome:
  assumes "recv_ok c" "regs_ok c" "label_ok st' c"
    and "st' = HTTP2_IGNORE_FRAME_DATA \<or> cx_to_read c \<noteq> 0 \<or> APP_FRAME st' \<or> st' = HTTP2_RECV_FIRST_SETTINGS"
    and "length p' \<le> length p" "p' \<noteq> [] \<Longrightarrow> fsm_measure st' p' < fsm_measure st p"
    and "risky st' \<Longrightarrow> risky st" "risky st' \<Longrightarrow> fl \<Longrightarrow> flat (cx_sched c)"
  shows "outcome fl st p (FRAME_FSM_MOVE st' c p')"
  using assms fresh_inv [OF assms(1-4)] header_label [of c]
  by (auto simp: outcome_def FRAME_FSM_MOVE_def regs_ok_def)

lemma measure_less: "length p' < length p \<Longrightarrow> fsm_measure st' p' < fsm_measure st p"
  by (simp add: fsm_measure_def)

text \<open>Reading of a part that is copied to the buffer.\<close>

lemma read_srvc_outcome:
  assumes ok: "recv_ok c" "regs_ok c" "label_ok st c" and n: "0 \<le> cx_rlen c" "cx_rlen c < n" "n \<le> 9"
    and st: "\<not> APP_FRAME st" "\<And>m b. 0 \<le> m \<Longrightarrow> m < n \<Longrightarrow> rlen_ok st (c\<lparr>cx_rbuf := b, cx_rlen := m\<rparr>)"
    and k: "\<And>b p'. length b = 9 \<Longrightarrow> length p' < length p \<Longrightarrow>
      outcome fl st p (k (c\<lparr>cx_rbuf := b, cx_rlen := n\<rparr>) p')"
  shows "outcome fl st p (FRAME_FSM_READ_SRVC n st c p k)"
proof -
  define m where "m = fsm_avail n c p"
  define b where "b = cx_rbuf (rbuf_write m c p)"
  have m: "0 \<le> m" "m \<le> n - cx_rlen c" "m \<le> int (length p)" using n by (auto simp: m_def fsm_avail_def)
  have b: "length b = 9" "rbuf_write m c p = c\<lparr>cx_rbuf := b\<rparr>"
    using ok(2) n m by (auto simp: b_def rbuf_write_def regs_ok_def)
  have av: "fsm_avail n (c\<lparr>cx_rbuf := b\<rparr>) p = m" by (simp add: m_def fsm_avail_def)
  let ?c = "c\<lparr>cx_rbuf := b, cx_rlen := cx_rlen c + m\<rparr>"
  have unf: "FRAME_FSM_READ_SRVC n st c p k =
      (if cx_rlen c + m < n then Some (Fsm_Exit T_POSTPONE st, ?c, drop (nat m) p) else k ?c (drop (nat m) p))"
    using n m by (simp add: FRAME_FSM_READ_SRVC_def FRAME_FSM_READ_def m_def [symmetric] b(2) av Let_def)
  show ?thesis
  proof (cases "cx_rlen c + m < n")
    case True
    then have "drop (nat m) p = []" using m n by (simp add: m_def fsm_avail_def split: if_splits)
    moreover have "recv_inv st ?c"
      using ok b(1) st(2) [of "cx_rlen c + m" b] n m True by (simp add: recv_inv_def regs_ok_def)
    ultimately show ?thesis
      using True ok(1,2) st(1) by (auto simp: unf outcome_def)
  next
    case False
    then have "cx_rlen c + m = n" "0 < m" using m n by linarith+
    with k [OF b(1), of "drop (nat m) p"] m False show ?thesis by (simp add: unf)
  qed
qed

section \<open>The states\<close>

text \<open>Labels that read a fixed number of bytes into the buffer.\<close>

abbreviation (input) srvc_label :: "TfwFrameState \<Rightarrow> bool" where
  "srvc_label st \<equiv> st \<in> {HTTP2_RECV_FRAME_PADDED, HTTP2_RECV_FRAME_PRIORITY, HTTP2_RECV_FRAME_WND_UPDATE,
     HTTP2_RECV_FRAME_PING, HTTP2_RECV_FRAME_RST_STREAM, HTTP2_RECV_FRAME_SETTINGS,
     HTTP2_RECV_FRAME_GOAWAY, HTTP2_RECV_HEADER_PRI}"

lemma read_label_outcome:
  assumes inv: "recv_inv st c" and st: "srvc_label st"
    and k: "\<And>c' p'. recv_ok c' \<Longrightarrow> regs_ok c' \<Longrightarrow> label_ok st c' \<Longrightarrow> flat (cx_sched c') = flat (cx_sched c) \<Longrightarrow>
      length p' < length p \<Longrightarrow> outcome fl st p (k c' p')"
  shows "outcome fl st p (FRAME_FSM_READ_SRVC (cx_to_read c) st c p k)"
proof -
  have ok: "recv_ok c" "regs_ok c" "label_ok st c" "rlen_ok st c" using inv by (auto simp: recv_inv_def)
  have "cx_to_read c \<le> 9" using ok(3) st by (auto simp: label_ok_def)
  moreover have "0 \<le> cx_rlen c" "cx_rlen c < cx_to_read c" "\<not> APP_FRAME st"
    using ok(4) st by (auto simp: rlen_ok_def APP_FRAME_def)
  moreover have "rlen_ok st (c\<lparr>cx_rbuf := b, cx_rlen := m\<rparr>)" if "0 \<le> m" "m < cx_to_read c" for m b
    using that st by (auto simp: rlen_ok_def APP_FRAME_def)
  ultimately show ?thesis
    using ok(1-3) by (intro read_srvc_outcome k) (auto simp: regs_ok_def)
qed

lemma and_finish_outcome:
  assumes inv: "recv_inv st c" and st: "srvc_label st"
    and h: "\<And>c'. recv_ok c' \<Longrightarrow> regs_ok c' \<Longrightarrow> label_ok st c' \<Longrightarrow>
      fine (risky st \<and> deps c') c' (handler c') (\<lambda>r _. r \<noteq> T_POSTPONE)"
  shows "outcome (flat (cx_sched c)) st p (recv_and_finish st handler c p)"
  unfolding recv_and_finish_def
proof (rule read_label_outcome [OF inv st])
  fix c' and p' :: "u8 list" assume c': "recv_ok c'" "regs_ok c'" "label_ok st c'" "flat (cx_sched c') = flat (cx_sched c)"
    "length p' < length p"
  show "outcome (flat (cx_sched c)) st p (do { (ret, c) \<leftarrow> handler c'; FRAME_FSM_EXIT ret st c p' })"
  proof (cases "handler c'")
    case None
    with h [OF c'(1-3)] c'(4) show ?thesis by (simp add: fine_def outcome_def)
  next
    case (Some x)
    obtain r d where x: "x = (r, d)" by (cases x)
    with Some h [OF c'(1-3)] have "recv_ok d" "regs_ok d" "r \<noteq> T_POSTPONE" by (auto simp: fine_def)
    with c'(5) Some x st show ?thesis by (auto intro!: exit_outcome)
  qed
qed

text \<open>The end of a state whose handler tells how to go on.\<close>

lemma ready_outcome:
  assumes "recv_ok d" "env_ok (cx_env d)" "r \<noteq> T_POSTPONE" "r = T_OK \<Longrightarrow> ready d" "\<not> APP_FRAME st" "length p' < length p"
    and "risky st" "r = T_OK \<Longrightarrow> risky (cx_state d) \<Longrightarrow> fl \<Longrightarrow> flat (cx_sched d)"
  shows "outcome fl st p (if r \<noteq> T_OK then FRAME_FSM_EXIT r st d p'
           else if cx_to_read d \<noteq> 0 then FRAME_FSM_NEXT d p' else FRAME_FSM_EXIT T_OK st d p')"
proof -
  have "outcome fl st p (FRAME_FSM_EXIT r st d p')" if "r \<noteq> T_OK"
    using assms that by (intro exit_outcome) auto
  moreover have "outcome fl st p (FRAME_FSM_NEXT d p')" if "r = T_OK" "cx_to_read d \<noteq> 0"
    unfolding FRAME_FSM_NEXT_def
    by (rule move_outcome) (use assms that in \<open>auto simp: ready_def intro: measure_less\<close>)
  moreover have "outcome fl st p (FRAME_FSM_EXIT T_OK st d p')" if "r = T_OK"
    using assms that by (intro exit_outcome) (auto simp: ready_def)
  ultimately show ?thesis by simp
qed

lemma and_next_outcome:
  assumes inv: "recv_inv st c" and st: "srvc_label st" "risky st"
    and h: "\<And>c'. recv_ok c' \<Longrightarrow> regs_ok c' \<Longrightarrow> label_ok st c' \<Longrightarrow> steps False c' (handler c')"
  shows "outcome (flat (cx_sched c)) st p (recv_and_next st handler c p)"
  unfolding recv_and_next_def
proof (rule read_label_outcome [OF inv st(1)])
  fix c' and p' :: "u8 list" assume c': "recv_ok c'" "regs_ok c'" "label_ok st c'" "length p' < length p"
    and fl: "flat (cx_sched c') = flat (cx_sched c)"
  obtain r d where d: "handler c' = Some (r, d)" "recv_ok d" "env_ok (cx_env d)" "r \<noteq> T_POSTPONE" "r = T_OK \<longrightarrow> ready d"
    "r = T_OK \<longrightarrow> risky (cx_state d) \<and> flat (cx_sched c') \<longrightarrow> flat (cx_sched d)"
    using h [OF c'(1-3)] by (auto simp: steps_def split: option.splits)
  moreover have "\<not> APP_FRAME st" using st by (auto simp: APP_FRAME_def)
  ultimately show "outcome (flat (cx_sched c)) st p (do {
      (ret, c) \<leftarrow> handler c';
      (if ret \<noteq> T_OK then FRAME_FSM_EXIT ret st c p'
       else if cx_to_read c \<noteq> 0 then FRAME_FSM_NEXT c p' else FRAME_FSM_EXIT T_OK st c p') })"
    using ready_outcome [of d r st p' p] c'(4) st(2) fl by simp
qed

lemma pad_process_steps:
  assumes ok: "recv_ok c" "regs_ok c" "label_ok HTTP2_RECV_FRAME_PADDED c"
  shows "steps False c (tfw_h2_frame_pad_process c)"
proof -
  define n where "n = uint (cx_rbuf c ! 0)"
  define d where "d = upd_hdr (\<lambda>h. h\<lparr>h_length := h_length h - n\<rparr>)
          (c\<lparr>cx_data_off := cx_data_off c + 1, cx_padlen := cx_rbuf c ! 0\<rparr>)"
  have d: "recv_ok d" "hid d = hid c" "cx_sched d = cx_sched c" "cx_cur_stream d = cx_cur_stream c"
    "h_flags (cx_hdr d) = h_flags (cx_hdr c)" "cx_lsettings d = cx_lsettings c"
    using ok(1) conn_coreD(1,3,4,5,6) [of d c] by (simp_all add: d_def, simp add: upd_hdr_def)
  have rd: "regs_ok d" if "\<not> h_length (cx_hdr d) < 0"
    using ok(2) that by (auto simp: regs_ok_def d_def upd_hdr_def)
  have lab: "h_type (cx_hdr d) = HTTP2_DATA \<and> cx_cur_stream d \<noteq> None
      \<or> h_type (cx_hdr d) = HTTP2_HEADERS \<and> hdr_pending d"
    using ok(3) d by (auto simp: label_ok_def hdr_pending_def)
  have hp: "hdr_pending (d\<lparr>cx_to_read := m, cx_plen := pl, cx_hdr := (cx_hdr d)\<lparr>h_length := l\<rparr>, cx_state := st\<rparr>) = hdr_pending d"
    "hdr_pending (d\<lparr>cx_state := st, cx_to_read := m, cx_hdr := (cx_hdr d)\<lparr>h_length := l\<rparr>\<rparr>) = hdr_pending d" for m pl l st
    by (simp_all add: hdr_pending_def)
  have "steps False c (Some (T_OK, d\<lparr>cx_state := HTTP2_IGNORE_FRAME_DATA, cx_to_read := 0\<rparr>))"
    if "\<not> h_length (cx_hdr d) < 0"
    by (rule steps_return) (use d rd [OF that] in \<open>auto simp: ready_def regs_ok_def label_ok_def\<close>)
  moreover have "steps False c (Some (T_OK, SET_TO_READ (d\<lparr>cx_state := HTTP2_RECV_DATA\<rparr>)))"
    if "\<not> h_length (cx_hdr d) < 0" "h_type (cx_hdr d) = HTTP2_DATA"
    by (rule steps_to_read) (use d rd that lab in \<open>auto simp: label_ok_def\<close>)
  moreover have "steps False c (Some (T_OK, SET_TO_READ (d\<lparr>cx_state := HTTP2_RECV_HEADER\<rparr>)))"
    if "\<not> h_length (cx_hdr d) < 0" "h_type (cx_hdr d) = HTTP2_HEADERS"
    by (rule steps_to_read) (use d rd that lab hp in \<open>auto simp: label_ok_def\<close>)
  moreover have "steps False c (recv_optional 5 HTTP2_RECV_HEADER_PRI d)"
    if "\<not> h_length (cx_hdr d) < 0" "h_type (cx_hdr d) = HTTP2_HEADERS" "has_flag (h_flags (cx_hdr d)) HTTP2_F_PRIORITY"
    by (rule steps_optional) (use d rd that lab hp in \<open>auto simp: label_ok_def\<close>)
  moreover have "steps False c (Some (EINVAL, tfw_h2_conn_terminate HTTP2_ECODE_SIZE d))"
    using steps_term [OF d(1,2), of False HTTP2_ECODE_SIZE] regs_ok_env [OF ok(2)] by (simp add: conn_term_def d_def upd_hdr_def)
  ultimately show ?thesis
    using lab unfolding tfw_h2_frame_pad_process_def VERIFY_FRAME_SIZE_def Let_def n_def [symmetric] d_def [symmetric]
    by (auto simp: tfw_h2_recv_priority_def)
qed

lemma headers_pri_steps:
  assumes ok: "recv_ok c" "regs_ok c" "label_ok HTTP2_RECV_HEADER_PRI c"
  shows "steps False c (tfw_h2_headers_pri_process c)"
proof -
  let ?d = "c\<lparr>cx_priority := tfw_h2_unpack_priority (cx_rbuf c), cx_data_off := cx_data_off c + 5\<rparr>"
  have d: "recv_ok ?d" "hid ?d = hid c" "regs_ok ?d"
    using ok conn_coreD(1) [of ?d c] by (simp_all add: regs_ok_def)
  have "steps False c (Some (T_OK, SET_TO_READ (?d\<lparr>cx_state := HTTP2_RECV_HEADER\<rparr>)))"
    by (rule steps_to_read [OF d]) (use ok(3) in \<open>simp_all add: label_ok_def hdr_pending_def\<close>)
  moreover have "SET_TO_READ (?d\<lparr>cx_state := st\<rparr>) = (SET_TO_READ ?d)\<lparr>cx_state := st\<rparr>" for st
    by (simp add: SET_TO_READ_def upd_hdr_def)
  moreover have "steps False c (Some (T_OK, ?d\<lparr>cx_state := HTTP2_IGNORE_FRAME_DATA\<rparr>))"
    by (rule steps_return) (use d in \<open>auto intro: ready_skip simp: skipping_def regs_ok_def\<close>)
  ultimately show ?thesis
    using ok(3) by (simp add: tfw_h2_headers_pri_process_def SET_TO_READ_VERIFY_def label_ok_def)
qed

lemma header_outcome:
  assumes inv: "recv_inv HTTP2_RECV_FRAME_HEADER c"
  shows "outcome (flat (cx_sched c)) HTTP2_RECV_FRAME_HEADER p (recv_frame_header c p)"
  unfolding recv_frame_header_def
proof (rule read_srvc_outcome)
  fix b :: "u8 list" and p' :: "u8 list"
  assume b: "length b = 9" and p': "length p' < length p"
  let ?c = "c\<lparr>cx_rbuf := b, cx_rlen := FRAME_HEADER_SIZE\<rparr>"
  let ?d = "?c\<lparr>cx_hdr := tfw_h2_unpack_frame_header b\<rparr>"
  have c: "recv_ok c" "regs_ok c" "cx_to_read c = 0" "cx_cur_stream c = None"
    using inv by (auto simp: recv_inv_def label_ok_def)
  have "ctx_ok ?d = ctx_ok c" by (rule ctx_ok_cong) simp_all
  then have d: "recv_ok ?d" "regs_ok ?d" "cx_cur_stream ?d = None"
    using c b by (simp_all add: recv_ok_def regs_ok_def tfw_h2_unpack_frame_header_def)
  note st = type_process_steps [OF d]
  show "outcome (flat (cx_sched c)) HTTP2_RECV_FRAME_HEADER p (do {
          (ret, c) \<leftarrow> tfw_h2_frame_type_process (?c\<lparr>cx_hdr := tfw_h2_unpack_frame_header (cx_rbuf ?c)\<rparr>);
          (let ty = h_type (cx_hdr c) in
           if ret \<noteq> T_OK then FRAME_FSM_EXIT ret HTTP2_RECV_FRAME_HEADER c p'
           else if cx_to_read c \<noteq> 0 then FRAME_FSM_NEXT c p'
           else if cx_state c \<noteq> HTTP2_IGNORE_FRAME_DATA
                   \<and> (ty = HTTP2_HEADERS \<or> ty = HTTP2_CONTINUATION \<or> ty = HTTP2_DATA) then
             Some (Fsm_Goto (cx_state c), c\<lparr>cx_rlen := 0\<rparr>, p')
           else FRAME_FSM_EXIT T_OK HTTP2_RECV_FRAME_HEADER c p') })"
  proof (cases "tfw_h2_frame_type_process ?d")
    case None
    with st show ?thesis by (simp add: steps_def outcome_def risky_def)
  next
    case (Some x)
    obtain r e where x: "x = (r, e)" by (cases x)
    with Some st have e: "recv_ok e" "env_ok (cx_env e)" "r \<noteq> T_POSTPONE" "r = T_OK \<Longrightarrow> ready e"
      "r = T_OK \<Longrightarrow> risky (cx_state e) \<Longrightarrow> flat (cx_sched c) \<Longrightarrow> flat (cx_sched e)"
      by (auto simp: steps_def)
    have rk: "risky HTTP2_RECV_FRAME_HEADER" by (simp add: risky_def)
    have "outcome (flat (cx_sched c)) HTTP2_RECV_FRAME_HEADER p (Some (Fsm_Goto (cx_state e), e\<lparr>cx_rlen := 0\<rparr>, p'))"
      if "r = T_OK" "cx_state e \<noteq> HTTP2_IGNORE_FRAME_DATA"
        "h_type (cx_hdr e) \<in> {HTTP2_HEADERS, HTTP2_CONTINUATION, HTTP2_DATA}" "cx_to_read e = 0"
    proof -
      have r: "regs_ok e" "label_ok (cx_state e) e" using e(4) that by (auto simp: ready_def)
      then have "rlen_ok (cx_state e) (e\<lparr>cx_rlen := 0\<rparr>)"
        using that(4) by (cases "cx_state e") (auto simp: rlen_ok_def label_ok_def APP_FRAME_def)
      with r e(1,5) p' rk that(1) show ?thesis
        by (simp add: outcome_def recv_inv_def regs_ok_def measure_less less_imp_le)
    qed
    with ready_outcome [OF e(1-4), of HTTP2_RECV_FRAME_HEADER p' p "flat (cx_sched c)"] e(5) rk Some x p' show ?thesis
      by (simp add: Let_def APP_FRAME_def split: if_splits)
  qed
qed (use inv in \<open>auto simp: recv_inv_def rlen_ok_def APP_FRAME_def\<close>)

lemma first_settings_outcome:
  assumes inv: "recv_inv HTTP2_RECV_FIRST_SETTINGS c"
  shows "outcome (flat (cx_sched c)) HTTP2_RECV_FIRST_SETTINGS p (recv_first_settings c p)"
  unfolding recv_first_settings_def
proof (rule read_srvc_outcome)
  fix b :: "u8 list" and p' :: "u8 list"
  assume b: "length b = 9" and p': "length p' < length p"
  let ?c = "c\<lparr>cx_rbuf := b, cx_rlen := FRAME_HEADER_SIZE\<rparr>"
  define h where "h = tfw_h2_unpack_frame_header b"
  let ?d = "?c\<lparr>cx_hdr := h\<rparr>"
  have c: "recv_ok c" "regs_ok c" "cx_to_read c = 0" "cx_cur_stream c = None"
    using inv by (auto simp: recv_inv_def label_ok_def)
  have h0: "0 \<le> h_length h" by (simp add: h_def tfw_h2_unpack_frame_header_def)
  have "ctx_ok ?d = ctx_ok c" by (rule ctx_ok_cong) simp_all
  then have d: "recv_ok ?d" "regs_ok ?d"
    using c b h0 by (simp_all add: recv_ok_def regs_ok_def)
  have trm: "recv_ok (tfw_h2_conn_terminate err ?d)" for err
    using conn_coreD(1) [OF conn_core_ctrl(6), of err ?d] d(1) by simp
  let ?e = "next_settings_entry ?d"
  have e: "recv_ok ?e" using conn_coreD(1) [of ?e ?d] d(1) by simp
  have e': "regs_ok ?e" "label_ok HTTP2_RECV_FRAME_SETTINGS ?e \<or> cx_to_read ?e = 0" if "h_length h \<noteq> 0 \<longrightarrow> h_length h mod 6 = 0"
  proof -
    have "h_length h = 0 \<or> 6 \<le> h_length h" using that h0 by presburger
    then show "regs_ok ?e" "label_ok HTTP2_RECV_FRAME_SETTINGS ?e \<or> cx_to_read ?e = 0"
      using d(2) that by (auto simp: next_settings_entry_def Let_def upd_hdr_def regs_ok_def label_ok_def mod_eq_0_iff_dvd)
  qed
  show "outcome (flat (cx_sched c)) HTTP2_RECV_FIRST_SETTINGS p (do {
          (ret, c) \<leftarrow> tfw_h2_first_settings_verify ?c;
          (if ret \<noteq> T_OK then FRAME_FSM_EXIT ret HTTP2_RECV_FIRST_SETTINGS c p'
           else if cx_to_read c \<noteq> 0 then FRAME_FSM_MOVE HTTP2_RECV_FRAME_SETTINGS c p'
           else FRAME_FSM_EXIT T_OK HTTP2_RECV_FIRST_SETTINGS c p') })"
  proof -
    have "outcome (flat (cx_sched c)) HTTP2_RECV_FIRST_SETTINGS p
        (FRAME_FSM_EXIT EINVAL HTTP2_RECV_FIRST_SETTINGS (tfw_h2_conn_terminate err ?d) p')" for err
      by (rule exit_outcome) (use c(2) p' trm in \<open>simp_all add: APP_FRAME_def\<close>)
    moreover have "outcome (flat (cx_sched c)) HTTP2_RECV_FIRST_SETTINGS p
        (FRAME_FSM_EXIT T_OK HTTP2_RECV_FIRST_SETTINGS ?e p')" if "h_length h \<noteq> 0 \<longrightarrow> h_length h mod 6 = 0"
      by (rule exit_outcome) (use p' e e'(1) [OF that] in simp_all)
    moreover have "outcome (flat (cx_sched c)) HTTP2_RECV_FIRST_SETTINGS p
        (FRAME_FSM_MOVE HTTP2_RECV_FRAME_SETTINGS ?e p')"
      if "h_length h \<noteq> 0 \<longrightarrow> h_length h mod 6 = 0" "cx_to_read ?e \<noteq> 0"
      by (rule move_outcome) (use p' e e' [OF that(1)] that(2) in \<open>auto simp: risky_def intro: measure_less\<close>)
    ultimately show ?thesis
      using c(3) by (simp add: tfw_h2_first_settings_verify_def h_def [symmetric] Let_def)
  qed
qed (use inv in \<open>auto simp: recv_inv_def rlen_ok_def APP_FRAME_def\<close>)

lemma settings_outcome:
  assumes inv: "recv_inv HTTP2_RECV_FRAME_SETTINGS c"
  shows "outcome (flat (cx_sched c)) HTTP2_RECV_FRAME_SETTINGS p (recv_settings c p)"
  unfolding recv_settings_def
proof (rule read_label_outcome [OF inv], simp)
  fix c' and p' :: "u8 list"
  assume c': "recv_ok c'" "regs_ok c'" "label_ok HTTP2_RECV_FRAME_SETTINGS c'" and p': "length p' < length p"
  obtain r d where d: "tfw_h2_settings_process c' = (r, d)" by force
  have D: "recv_ok d" using conn_coreD(1) [OF conn_core_ctrl(8) [OF d]] c'(1) by simp
  have env: "env_ok (cx_env d)"
    using d c'(2) by (auto simp: tfw_h2_settings_process_def next_settings_entry_def
        tfw_h2_save_settings_entry_def Let_def split: if_splits)
  have r: "r \<noteq> T_POSTPONE"
    using d by (auto simp: tfw_h2_settings_process_def tfw_h2_check_settings_entry_def Let_def split: if_splits)
  have "6 dvd h_length (cx_hdr c')" "0 \<le> h_length (cx_hdr c')"
    using c'(2,3) by (simp_all add: label_ok_def regs_ok_def)
  then have l: "h_length (cx_hdr c') = 0 \<or> 6 \<le> h_length (cx_hdr c') \<and> 6 dvd h_length (cx_hdr c') - 6" by presburger
  have D': "regs_ok d" "label_ok HTTP2_RECV_FRAME_SETTINGS d \<or> cx_to_read d = 0" if "r = T_OK"
  proof -
    have "tfw_h2_settings_process c' = (T_OK, d)" using that d by simp
    then obtain g where g: "d = next_settings_entry g" "regs g = regs c'"
      by (auto simp: tfw_h2_settings_process_def Let_def split: if_splits)
    note G = regsD(1,4,7) [OF g(2)]
    show "regs_ok d" using l c'(2) G
      by (auto simp: g(1) next_settings_entry_def regs_ok_def upd_hdr_def Let_def)
    show "label_ok HTTP2_RECV_FRAME_SETTINGS d \<or> cx_to_read d = 0" using l G
      by (auto simp: g(1) next_settings_entry_def label_ok_def upd_hdr_def Let_def)
  qed
  obtain r2 e where e: "tfw_h2_send_settings_ack d = (r2, e)" by force
  have E: "recv_ok e" "regs_ok d \<Longrightarrow> regs_ok e \<and> r2 \<noteq> T_POSTPONE"
    using conn_coreD(1) [OF conn_core_ctrl(3) [OF e]] D regsD(6) [OF regs_ctrl(3) [OF e]]
      send_not_postponed(2) [of d _ _ r2 e] e
    by (auto simp: tfw_h2_send_settings_ack_def)
  show "outcome (flat (cx_sched c)) HTTP2_RECV_FRAME_SETTINGS p (case tfw_h2_settings_process c' of
          (ret, c) \<Rightarrow>
            if ret \<noteq> T_OK then FRAME_FSM_EXIT ret HTTP2_RECV_FRAME_SETTINGS c p'
            else if cx_to_read c \<noteq> 0 then FRAME_FSM_MOVE HTTP2_RECV_FRAME_SETTINGS c p'
            else (case tfw_h2_send_settings_ack c of
                    (ret, c) \<Rightarrow> FRAME_FSM_EXIT ret HTTP2_RECV_FRAME_SETTINGS c p'))"
  proof -
    have "outcome (flat (cx_sched c)) HTTP2_RECV_FRAME_SETTINGS p (FRAME_FSM_EXIT r HTTP2_RECV_FRAME_SETTINGS d p')"
      if "r \<noteq> T_OK"
      by (rule exit_outcome) (use D r that p' env in \<open>simp_all add: APP_FRAME_def\<close>)
    moreover have "outcome (flat (cx_sched c)) HTTP2_RECV_FRAME_SETTINGS p
        (FRAME_FSM_EXIT r2 HTTP2_RECV_FRAME_SETTINGS e p')" if "r = T_OK"
      by (rule exit_outcome) (use E D'(1) that p' in simp_all)
    moreover have "outcome (flat (cx_sched c)) HTTP2_RECV_FRAME_SETTINGS p
        (FRAME_FSM_MOVE HTTP2_RECV_FRAME_SETTINGS d p')" if "r = T_OK" "cx_to_read d \<noteq> 0"
      by (rule move_outcome) (use D D' that p' in \<open>auto simp: risky_def intro: measure_less\<close>)
    ultimately show ?thesis by (simp add: d e)
  qed
qed

lemma goaway_outcome:
  assumes inv: "recv_inv HTTP2_RECV_FRAME_GOAWAY c"
  shows "outcome (flat (cx_sched c)) HTTP2_RECV_FRAME_GOAWAY p (recv_goaway c p)"
  unfolding recv_goaway_def
proof (rule read_label_outcome [OF inv], simp)
  fix c' and p' :: "u8 list"
  assume c': "recv_ok c'" "regs_ok c'" and p': "length p' < length p"
  let ?d = "SET_TO_READ c'"
  have "recv_ok ?d" "regs_ok ?d" using conn_coreD(1) [of ?d c'] c' to_read_verify_regs(3) by simp_all
  then show "outcome (flat (cx_sched c)) HTTP2_RECV_FRAME_GOAWAY p (let c = tfw_h2_goaway_process c' in
          if cx_to_read c \<noteq> 0 then FRAME_FSM_MOVE HTTP2_IGNORE_FRAME_DATA c p'
          else FRAME_FSM_EXIT T_OK HTTP2_RECV_FRAME_GOAWAY c p')"
    using p' by (auto simp: tfw_h2_goaway_process_def Let_def label_ok_def risky_def
        intro!: exit_outcome move_outcome measure_less)
qed

lemma cli_outcome:
  assumes inv: "recv_inv HTTP2_RECV_CLI_START_SEQ c"
  shows "outcome (flat (cx_sched c)) HTTP2_RECV_CLI_START_SEQ p (recv_cli_start_seq c p)"
proof -
  define n where "n = fsm_avail 24 c p"
  have c: "recv_ok c" "regs_ok c" "label_ok HTTP2_RECV_CLI_START_SEQ c" "0 \<le> cx_rlen c" "cx_rlen c < 24"
    using inv by (auto simp: recv_inv_def rlen_ok_def)
  then have n: "0 \<le> n" "n \<le> 24 - cx_rlen c" "n \<le> int (length p)" by (auto simp: n_def fsm_avail_def)
  let ?c = "c\<lparr>cx_rlen := cx_rlen c + n\<rparr>"
  obtain r d where d: "tfw_h2_send_settings_init ?c = (r, d)" by force
  have rc: "regs_ok ?c" using c(2) by (simp add: regs_ok_def)
  have D: "recv_ok d" "regs_ok d" "cx_to_read d = 0" "cx_cur_stream d = None"
    using conn_coreD(1,5) [OF conn_core_ctrl(4) [OF d]] regsD(2,6) [OF regs_ctrl(4) [OF d]] c rc
    by (simp_all add: label_ok_def)
  have "regs_ok (?c\<lparr>cx_settings_to_apply := x\<rparr>)" for x using rc by (simp add: regs_ok_def)
  then have r: "r \<noteq> T_POSTPONE"
    using d by (auto simp: tfw_h2_send_settings_init_def Let_def split: if_splits
        dest: send_not_postponed(2) [rotated])
  have post: "outcome (flat (cx_sched c)) HTTP2_RECV_CLI_START_SEQ p (Some (Fsm_Exit T_POSTPONE HTTP2_RECV_CLI_START_SEQ, ?c, drop (nat n) p))"
    if "cx_rlen c + n < 24"
  proof -
    have "drop (nat n) p = []" using that n by (simp add: n_def fsm_avail_def split: if_splits)
    then show ?thesis
      using c that n rc by (simp add: outcome_def recv_inv_def rlen_ok_def APP_FRAME_def)
  qed
  have move: "outcome (flat (cx_sched c)) HTTP2_RECV_CLI_START_SEQ p (FRAME_FSM_MOVE HTTP2_RECV_FIRST_SETTINGS d (drop (nat n) p))"
    if "\<not> cx_rlen c + n < 24"
  proof (rule move_outcome)
    have "0 < n" using that c(5) by simp
    then show "fsm_measure HTTP2_RECV_FIRST_SETTINGS (drop (nat n) p) < fsm_measure HTTP2_RECV_CLI_START_SEQ p"
      using n by (intro measure_less) simp
  qed (use D in \<open>simp_all add: label_ok_def risky_def\<close>)
  have ex: "outcome (flat (cx_sched c)) HTTP2_RECV_CLI_START_SEQ p (FRAME_FSM_EXIT r HTTP2_RECV_CLI_START_SEQ d (drop (nat n) p))"
    using D r by (intro exit_outcome) simp_all
  have bad: "outcome (flat (cx_sched c)) HTTP2_RECV_CLI_START_SEQ p (FRAME_FSM_EXIT T_BAD HTTP2_RECV_CLI_START_SEQ c p)"
    using c by (intro exit_outcome) simp_all
  show ?thesis
    using n post move ex bad
    unfolding recv_cli_start_seq_def FRAME_FSM_READ_def Let_def n_def [symmetric]
    by (simp add: d)
qed

lemma app_outcome:
  assumes inv: "recv_inv st c" and st: "st \<in> {HTTP2_RECV_DATA, HTTP2_RECV_CONT, HTTP2_RECV_HEADER}"
    and h: "\<And>c'. recv_ok c' \<Longrightarrow> regs_ok c' \<Longrightarrow> label_ok st c' \<Longrightarrow>
      fine (deps c') c' (handler c') (\<lambda>r _. r \<noteq> T_POSTPONE)"
  shows "outcome (flat (cx_sched c)) st p (recv_app st handler c p)"
proof -
  define n where "n = fsm_avail (cx_to_read c) c p"
  have c: "recv_ok c" "regs_ok c" "label_ok st c" "cx_rlen c = 0" "0 \<le> cx_to_read c"
    using inv st by (auto simp: recv_inv_def rlen_ok_def APP_FRAME_def regs_ok_def)
  then have n: "0 \<le> n" "n \<le> cx_to_read c" "n \<le> int (length p)" by (auto simp: n_def fsm_avail_def)
  let ?c = "c\<lparr>cx_rlen := n, cx_to_read := cx_to_read c - n\<rparr>"
  have lab: "label_ok st ?c" using c(3) st by (auto simp: label_ok_def hdr_pending_def)
  have rc: "regs_ok ?c" using c(2) n by (simp add: regs_ok_def)
  note hh = h [of ?c]
  show ?thesis
  proof (cases "handler ?c")
    case None
    with hh c(1) rc lab n c(4) st show ?thesis
      by (auto simp: recv_app_def FRAME_FSM_READ_PYLD_def n_def [symmetric] Let_def fine_def outcome_def risky_def)
  next
    case (Some x)
    obtain r d where x: "x = (r, d)" by (cases x)
    with Some hh c(1) rc lab have d: "recv_ok d" "regs_ok d" "r \<noteq> T_POSTPONE"
      "h_stream_id (cx_hdr d) = h_stream_id (cx_hdr c)" by (auto simp: fine_def)
    have m: "fsm_measure st' (drop (nat n) p) < fsm_measure st p"
      if "st' = HTTP2_IGNORE_FRAME_DATA \<or> st' = HTTP2_RECV_APP_DATA_POST" for st'
      using that st by (auto simp: fsm_measure_def)
    have "outcome (flat (cx_sched c)) st p (FRAME_FSM_EXIT r' st' d (drop (nat n) p))"
      if "r' \<noteq> T_POSTPONE" "st' = HTTP2_IGNORE_FRAME_DATA \<or> st' = st" for r' st'
      using d that c(3) header_label [of c] by (intro exit_outcome) auto
    moreover have "outcome (flat (cx_sched c)) st p (FRAME_FSM_MOVE st' d (drop (nat n) p))"
      if "st' = HTTP2_IGNORE_FRAME_DATA \<or> st' = HTTP2_RECV_APP_DATA_POST" for st'
      using d that m by (intro move_outcome) (auto simp: label_ok_def APP_FRAME_def risky_def)
    ultimately show ?thesis
      using Some x n c(4) d(3)
      by (simp add: recv_app_def FRAME_FSM_READ_PYLD_def n_def [symmetric] Let_def)
  qed
qed

lemma post_ignore_outcome:
  "recv_inv HTTP2_RECV_APP_DATA_POST c \<Longrightarrow> outcome fl HTTP2_RECV_APP_DATA_POST p (recv_app_data_post c p)"
  "recv_inv HTTP2_IGNORE_FRAME_DATA c \<Longrightarrow> outcome fl HTTP2_IGNORE_FRAME_DATA p (recv_ignore c p)"
proof -
  show "outcome fl HTTP2_RECV_APP_DATA_POST p (recv_app_data_post c p)" if "recv_inv HTTP2_RECV_APP_DATA_POST c"
    using that
    by (auto simp: recv_app_data_post_def FRAME_FSM_READ_PYLD_def fsm_avail_def Let_def outcome_def
        FRAME_FSM_EXIT_def recv_inv_def rlen_ok_def APP_FRAME_def regs_ok_def label_ok_def)
  show "outcome fl HTTP2_IGNORE_FRAME_DATA p (recv_ignore c p)" if "recv_inv HTTP2_IGNORE_FRAME_DATA c"
    using that
    by (auto simp: recv_ignore_def FRAME_FSM_READ_def fsm_avail_def Let_def outcome_def
        FRAME_FSM_EXIT_def recv_inv_def rlen_ok_def APP_FRAME_def regs_ok_def label_ok_def)
qed

lemma frame_state_outcome:
  assumes inv: "recv_inv st c"
  shows "outcome (flat (cx_sched c)) st p (frame_state st c p)"
proof -
  note fin = and_finish_outcome [of st c] and nxt = and_next_outcome [of st c] and app = app_outcome [of st c]
  have weak: "fine t d m Q \<Longrightarrow> (t \<Longrightarrow> t') \<Longrightarrow> (\<And>r e. Q r e \<Longrightarrow> r \<noteq> T_POSTPONE) \<Longrightarrow> fine t' d m (\<lambda>r _. r \<noteq> T_POSTPONE)"
    for t t' d m Q by (auto simp: fine_def split: option.splits)
  have sp: "fine (deps d) d (tfw_h2_current_stream_state_process d) (\<lambda>r _. r \<noteq> T_POSTPONE)"
    if "recv_ok d" "regs_ok d" "cx_cur_stream d \<noteq> None" for d
    using that by (auto intro: weak [OF state_process_fine])
  show ?thesis
  proof (cases st)
    case HTTP2_RECV_FRAME_PRIORITY
    have "fine False d (tfw_h2_priority_process d) (\<lambda>r _. r \<noteq> T_POSTPONE)"
      if "recv_ok d" "regs_ok d" "label_ok st d" for d
      using that HTTP2_RECV_FRAME_PRIORITY by (intro weak [OF priority_process_fine]) (auto simp: label_ok_def)
    with fin [OF inv, of tfw_h2_priority_process] HTTP2_RECV_FRAME_PRIORITY show ?thesis
      by (simp add: frame_state_def risky_def)
  next
    case HTTP2_RECV_FRAME_WND_UPDATE
    have "fine False d (tfw_h2_wnd_update_process d) (\<lambda>r _. r \<noteq> T_POSTPONE)"
      if "recv_ok d" "regs_ok d" "label_ok st d" for d
      using that HTTP2_RECV_FRAME_WND_UPDATE by (intro weak [OF wnd_update_fine]) (auto simp: label_ok_def)
    with fin [OF inv, of tfw_h2_wnd_update_process] HTTP2_RECV_FRAME_WND_UPDATE show ?thesis
      by (simp add: frame_state_def risky_def)
  next
    case HTTP2_RECV_FRAME_PING
    have "fine False d (Some (recv_ping d)) (\<lambda>r _. r \<noteq> T_POSTPONE)" if "recv_ok d" "regs_ok d" for d
    proof -
      obtain r e where e: "recv_ping d = (r, e)" by force
      with send_not_postponed(2) [OF that(2)] have "r \<noteq> T_POSTPONE"
        by (auto simp: recv_ping_def tfw_h2_send_ping_def split: if_splits)
      with e that conn_coreD(1,3) [OF conn_core_ctrl(5) [OF e]] regsD(6) [OF regs_ctrl(5) [OF e]] show ?thesis
        by (simp add: fine_def)
    qed
    with fin [OF inv, of "\<lambda>c. Some (recv_ping c)"] HTTP2_RECV_FRAME_PING show ?thesis
      by (simp add: frame_state_def risky_def)
  next
    case HTTP2_RECV_FRAME_RST_STREAM
    have "fine (deps d) d (map_option (Pair T_OK) (tfw_h2_rst_stream_process d)) (\<lambda>r _. r \<noteq> T_POSTPONE)"
      if "recv_ok d" "regs_ok d" "label_ok st d" for d
      using that HTTP2_RECV_FRAME_RST_STREAM weak [OF drop_current_fine [of d _ T_OK], of _ "deps d"]
      by (auto simp: label_ok_def tfw_h2_rst_stream_process_def)
    with fin [OF inv, of "\<lambda>c. map_option (Pair T_OK) (tfw_h2_rst_stream_process c)"] HTTP2_RECV_FRAME_RST_STREAM
    show ?thesis by (simp add: frame_state_def risky_def)
  next
    case HTTP2_RECV_HEADER
    have "fine (deps d) d (tfw_h2_headers_process d) (\<lambda>r _. r \<noteq> T_POSTPONE)"
      if "recv_ok d" "regs_ok d" "label_ok st d" for d
      using that HTTP2_RECV_HEADER
      by (intro weak [OF headers_process_fine]) (auto simp: label_ok_def hdr_pending_def)
    with app [OF inv, of tfw_h2_headers_process] HTTP2_RECV_HEADER show ?thesis by (simp add: frame_state_def)
  next
    case HTTP2_RECV_DATA
    with app [OF inv, of tfw_h2_current_stream_state_process] sp show ?thesis
      by (simp add: frame_state_def label_ok_def)
  next
    case HTTP2_RECV_CONT
    with app [OF inv, of tfw_h2_current_stream_state_process] sp show ?thesis
      by (simp add: frame_state_def label_ok_def)
  next
    case HTTP2_RECV_FRAME_PADDED
    with nxt [OF inv, of tfw_h2_frame_pad_process] pad_process_steps show ?thesis by (simp add: frame_state_def risky_def)
  next
    case HTTP2_RECV_HEADER_PRI
    with nxt [OF inv, of tfw_h2_headers_pri_process] headers_pri_steps show ?thesis by (simp add: frame_state_def risky_def)
  qed (use inv header_outcome first_settings_outcome settings_outcome goaway_outcome cli_outcome post_ignore_outcome
      in \<open>simp_all add: frame_state_def\<close>)
qed

text \<open>What the machine guarantees for a buffer.\<close>

definition recv_result :: "bool \<Rightarrow> u8 list \<Rightarrow> (rc \<times> TfwH2Ctx \<times> u8 list) option \<Rightarrow> bool" where
  "recv_result trap p m \<longleftrightarrow> (case m of
       None \<Rightarrow> trap
     | Some (r, c', p') \<Rightarrow> recv_ok c' \<and> env_ok (cx_env c') \<and> length p' \<le> length p
         \<and> (r = T_POSTPONE \<longrightarrow> p' = [] \<and> recv_inv (cx_state c') c')
         \<and> (r = T_OK \<or> APP_FRAME (cx_state c') \<longrightarrow> regs_ok c' \<and> cx_rlen c' = 0)
         \<and> (cx_state c' = HTTP2_RECV_HEADER \<longrightarrow> h_stream_id (cx_hdr c') \<noteq> sched_root))"

lemma frame_fsm_result: "recv_inv st c \<Longrightarrow> recv_result (risky st \<and> deps c) p (frame_fsm st c p)"
proof (induction "fsm_measure st p" arbitrary: st c p rule: less_induct)
  case less
  note out = frame_state_outcome [OF less.prems, of p]
  show ?case
  proof (cases "frame_state st c p")
    case None
    with out show ?thesis by (subst frame_fsm.simps) (simp add: outcome_def recv_result_def)
  next
    case (Some x)
    obtain nxt c' p' where x: "x = (nxt, c', p')" by (cases x)
    show ?thesis
    proof (cases nxt)
      case (Fsm_Exit r st')
      have "recv_inv st' (c'\<lparr>cx_state := st'\<rparr>) = recv_inv st' c'" "regs_ok (c'\<lparr>cx_state := st'\<rparr>) = regs_ok c'"
        by (simp_all add: recv_inv_def label_ok_def hdr_pending_def regs_ok_def rlen_ok_def strm_def
            split: TfwFrameState.split)
      with out Some x Fsm_Exit show ?thesis
        by (subst frame_fsm.simps) (auto simp: outcome_def recv_result_def)
    next
      case (Fsm_Goto st')
      with out Some x have g: "recv_inv st' c'" "fsm_measure st' p' < fsm_measure st p" "length p' \<le> length p"
        "risky st' \<longrightarrow> risky st \<and> (flat (cx_sched c) \<longrightarrow> flat (cx_sched c'))"
        by (auto simp: outcome_def)
      from less.hyps [OF g(2,1)] g(3,4) Some x Fsm_Goto show ?thesis
        by (subst frame_fsm.simps) (auto simp: recv_result_def split: option.splits)
    qed
  qed
qed

end
