(* ===== verification/H2_Recv_Process.thy ===== *)
theory H2_Recv_Process
  imports H2_Recv_Machine
begin

text \<open>
  The invariant of reception over socket buffers: \<^verbatim>\<open>ss_skb_process()\<close> and
  \<^verbatim>\<open>tfw_h2_frame_process()\<close>, for an HTTP layer that keeps the connection well formed.
\<close>

section \<open>Socket buffers\<close>

text \<open>The machine is run over the parts of a buffer as long as it asks for more.\<close>

lemma skb_loop_result:
  assumes "recv_inv (cx_state c) c" "skb_process_loop r c n skb = Some (r', c', m)" "skb \<noteq> []"
  shows "recv_ok c' \<and> env_ok (cx_env c') \<and> m \<le> n + skb_len skb
    \<and> (r' = T_POSTPONE \<longrightarrow> recv_inv (cx_state c') c' \<and> m = n + skb_len skb)
    \<and> (r' = T_OK \<or> APP_FRAME (cx_state c') \<longrightarrow> regs_ok c' \<and> cx_rlen c' = 0)
    \<and> (cx_state c' = HTTP2_RECV_HEADER \<longrightarrow> h_stream_id (cx_hdr c') \<noteq> sched_root)"
  using assms
proof (induction skb arbitrary: r c n)
  case (Cons f fs)
  obtain r1 c1 rest where f: "tfw_h2_frame_recv c f = Some (r1, c1, rest)"
    using Cons.prems(2) by (auto split: option.splits)
  with frame_fsm_result [of "cx_state c" c f] Cons.prems(1)
  have c1: "recv_ok c1" "env_ok (cx_env c1)" "length rest \<le> length f"
    "r1 = T_POSTPONE \<longrightarrow> rest = [] \<and> recv_inv (cx_state c1) c1"
    "r1 = T_OK \<or> APP_FRAME (cx_state c1) \<longrightarrow> regs_ok c1 \<and> cx_rlen c1 = 0"
    "cx_state c1 = HTTP2_RECV_HEADER \<longrightarrow> h_stream_id (cx_hdr c1) \<noteq> sched_root"
    by (auto simp: recv_result_def tfw_h2_frame_recv_def)
  show ?case
  proof (cases "r1 = T_POSTPONE \<and> fs \<noteq> []")
    case False
    then have "r' = r1" "c' = c1" "m = n + (length f - length rest)"
      using Cons.prems(2) f by (cases fs; simp add: Let_def split: if_splits)+
    with c1 False show ?thesis by (cases fs) (auto simp: skb_len_def)
  next
    case True
    with Cons.prems(2) f c1(4) have l: "skb_process_loop T_POSTPONE c1 (n + length f) fs = Some (r', c', m)"
      by (simp add: Let_def)
    with Cons.IH [OF _ l] c1(4) True show ?thesis by (auto simp: skb_len_def)
  qed
qed simp

section \<open>Frame processing\<close>

text \<open>
  What is relied on of the HTTP layer: it keeps the connection well formed and does not touch
  the registers of the frame machine.
\<close>

definition http_keeps :: "http_layer \<Rightarrow> bool" where
  "http_keeps http \<longleftrightarrow> (\<forall>s b c. recv_ok c \<longrightarrow> (case http s b c of (r, c') \<Rightarrow>
     recv_ok c' \<and> regs c' = regs c \<and> cx_cur_stream c' = cx_cur_stream c))"

lemma clear_frame_inv:
  assumes "recv_ok c" "env_ok (cx_env c)"
  shows "recv_inv HTTP2_RECV_FRAME_HEADER (clear_frame c)"
proof -
  have "ctx_ok (clear_frame c) = ctx_ok c" by (rule ctx_ok_cong) (simp_all add: clear_frame_def)
  with assms show ?thesis
    by (simp add: recv_inv_def recv_ok_def regs_ok_def label_ok_def rlen_ok_def clear_frame_def zero_hdr_def)
qed

text \<open>What holds between the frame machine and the reset of the frame context.\<close>

definition parsed_ok :: "TfwH2Ctx \<Rightarrow> bool" where
  "parsed_ok c \<longleftrightarrow> recv_ok c \<and> env_ok (cx_env c)
     \<and> (APP_FRAME (cx_state c) \<longrightarrow> regs_ok c \<and> cx_rlen c = 0)
     \<and> (cx_state c = HTTP2_RECV_HEADER \<longrightarrow> h_stream_id (cx_hdr c) \<noteq> sched_root)"

lemma reinit_inv:
  assumes ok: "parsed_ok c" and "postponed \<longrightarrow> recv_inv (cx_state c) c"
  shows "recv_inv (cx_state (tfw_h2_context_reinit postponed c)) (tfw_h2_context_reinit postponed c)"
proof -
  have "cx_state (clear_frame c) = HTTP2_RECV_FRAME_HEADER" by (simp add: clear_frame_def)
  then have "recv_inv (cx_state (clear_frame c)) (clear_frame c)"
    using clear_frame_inv [of c] ok by (simp add: parsed_ok_def)
  moreover have "recv_inv HTTP2_IGNORE_FRAME_DATA
      (c\<lparr>cx_state := HTTP2_IGNORE_FRAME_DATA, cx_to_read := uint (cx_padlen c), cx_padlen := 0\<rparr>)" (is "recv_inv _ ?d")
    if "APP_FRAME (cx_state c)"
  proof -
    have "recv_ok ?d" using conn_coreD(1) [of ?d c] ok by (simp add: parsed_ok_def)
    moreover have "regs_ok ?d" "cx_rlen ?d = 0" using ok that by (simp_all add: parsed_ok_def regs_ok_def)
    ultimately show ?thesis by (simp add: recv_inv_def label_ok_def rlen_ok_def APP_FRAME_def)
  qed
  ultimately show ?thesis
    using assms(2) by (simp add: tfw_h2_context_reinit_def)
qed

lemma recv_inv_cong:
  assumes "conn_core c' = conn_core c" "regs c' = regs c"
  shows "recv_inv st c' = recv_inv st c"
proof -
  note core = conn_coreD(1,4,5,6,7) [OF assms(1)] and reg = regsD(2,3,4,6) [OF assms(2)]
  have "label_ok st c' = label_ok st c"
    unfolding label_ok_def hdr_pending_def core reg by (rule refl)
  moreover have "rlen_ok st c' = rlen_ok st c" unfolding rlen_ok_def reg by (rule refl)
  ultimately show ?thesis by (simp add: recv_inv_def core(1) reg(4))
qed

lemma process_out_inv:
  assumes c: "parsed_ok c"
    and r: "\<not> tfw_error_code_is_crucial r \<longrightarrow> recv_inv (cx_state c) c" "frame_process_out r c = (r', c')"
  shows "recv_inv (cx_state c') c'"
proof -
  let ?d = "c\<lparr>cx_skb_head := []\<rparr>"
  have d: "recv_inv st ?d = recv_inv st c" for st by (rule recv_inv_cong) simp_all
  have "recv_ok ?d = recv_ok c" "regs_ok ?d = regs_ok c"
    using conn_coreD(1) [of ?d c] by (simp_all add: regs_ok_def)
  with c reinit_inv [of ?d False, unfolded parsed_ok_def]
  have "recv_inv (cx_state (tfw_h2_context_reinit False ?d)) (tfw_h2_context_reinit False ?d)"
    by (simp add: parsed_ok_def)
  moreover have "c' = (if tfw_error_code_is_crucial r then tfw_h2_context_reinit False ?d else ?d)"
    using r(2) by (simp add: frame_process_out_def Let_def split: if_splits)
  ultimately show ?thesis using r(1) d [of "cx_state c"] by (cases "tfw_error_code_is_crucial r") simp_all
qed

text \<open>Handing the frame over keeps the invariant.\<close>

lemma kmem_alloc_core: "kmem_alloc c = (b, d) \<Longrightarrow> conn_core d = conn_core c \<and> regs d = regs c"
  by (auto simp: kmem_alloc_def)

definition passed :: "TfwH2Ctx \<Rightarrow> TfwH2Ctx \<Rightarrow> bool" where
  "passed c d \<longleftrightarrow> recv_ok d \<and> regs d = regs c \<and> cx_cur_stream d = cx_cur_stream c"

lemma passed_upd:
  assumes "recv_ok c" "conn_core d = conn_core c" "regs d = regs c"
  shows "passed c d"
  using assms conn_coreD(1,5) [OF assms(2)] by (simp add: passed_def)

lemma passed_fields:
  assumes "recv_ok c" "conn_core d = conn_core c" "regs d = regs c"
  shows "passed c (d\<lparr>cx_skb_head := xs, cx_data_off := n\<rparr>)" "passed c (d\<lparr>cx_data_off := n, cx_skb_head := xs\<rparr>)"
  using assms by (auto intro!: passed_upd)

lemma passed_http:
  assumes http: "http_keeps http" and "http s b d = (r', e)" "passed c d"
  shows "passed c e"
proof -
  have "recv_ok d" using assms(3) by (simp add: passed_def)
  with http have "case http s b d of (r, c') \<Rightarrow> recv_ok c' \<and> regs c' = regs d \<and> cx_cur_stream c' = cx_cur_stream d"
    by (simp add: http_keeps_def)
  with assms(2,3) show ?thesis by (simp add: passed_def)
qed

lemma pass_app_frame_keeps:
  assumes http: "http_keeps http" and ok: "recv_ok c"
  shows "case pass_app_frame http s r c of Inl d \<Rightarrow> passed c d | Inr (r', d) \<Rightarrow> passed c d"
proof -
  obtain xs off where x: "drop_header_skbs (cx_skb_head c) (cx_data_off c) = (xs, off)" by force
  obtain b d where d: "kmem_alloc c = (b, d)" by force
  note D = kmem_alloc_core [OF d]
  show ?thesis
  proof (cases xs)
    case Nil
    with passed_fields(1) [OF ok, of c] x show ?thesis by (simp add: pass_app_frame_def)
  next
    case (Cons y ys)
    obtain r' e where e: "http s (skb_drop (unat off) y) (d\<lparr>cx_skb_head := [], cx_data_off := 0\<rparr>) = (r', e)" by force
    from passed_http [OF http e, of c] passed_fields(1) [OF ok, of d] D Cons x d e show ?thesis
      by (simp add: pass_app_frame_def)
  qed
qed

lemma pass_frame_keeps:
  assumes http: "http_keeps http" and ok: "recv_ok c"
  shows "case pass_frame http r c of Inl d \<Rightarrow> passed c d | Inr (r', d) \<Rightarrow> passed c d"
proof (cases "cx_cur_stream c")
  case (Some s)
  obtain r' e where e: "http s (last (cx_skb_head c)) (c\<lparr>cx_skb_head := [], cx_data_off := 0\<rparr>) = (r', e)" by force
  from passed_http [OF http e, of c] passed_fields [OF ok, of c] pass_app_frame_keeps [OF assms, of s r] Some e
  show ?thesis by (simp add: pass_frame_def)
qed (use passed_fields(2) [OF ok, of c] in \<open>simp add: pass_frame_def\<close>)

lemma passed_parsed:
  assumes "passed c d" "parsed_ok c"
  shows "parsed_ok d"
proof -
  have d: "recv_ok d" "regs d = regs c" using assms(1) by (auto simp: passed_def)
  note reg = regsD(3,4,5,6,7) [OF d(2)]
  show ?thesis using assms(2) d(1) unfolding parsed_ok_def reg by simp
qed

lemma parsed_app_inv:
  assumes ok: "parsed_ok c" and st: "APP_FRAME (cx_state c)" and cur: "cx_cur_stream c \<noteq> None"
  shows "recv_inv (cx_state c) c"
proof -
  obtain s where "cx_cur_stream c = Some s" using cur by blast
  then have "label_ok (cx_state c) c"
    using st ok unfolding APP_FRAME_def
    by (elim insertE emptyE) (simp_all add: label_ok_def hdr_pending_def parsed_ok_def)
  moreover have "rlen_ok (cx_state c) c" using ok st by (auto simp: rlen_ok_def APP_FRAME_def parsed_ok_def)
  ultimately show ?thesis using ok st by (simp add: recv_inv_def parsed_ok_def)
qed

lemma pass_frame_inv:
  assumes http: "http_keeps http" and ok: "parsed_ok c"
  shows "case pass_frame http r c of
      Inl d \<Rightarrow> recv_inv (cx_state d) d
    | Inr (r', d) \<Rightarrow> parsed_ok d \<and> (APP_FRAME (cx_state c) \<and> recv_inv (cx_state c) c \<longrightarrow> recv_inv (cx_state d) d)"
proof (cases "cx_cur_stream c")
  case None
  let ?d = "c\<lparr>cx_data_off := 0, cx_skb_head := []\<rparr>"
  have "parsed_ok ?d"
    using passed_parsed [OF passed_fields(2) [of c c "[]" 0] ok] ok by (simp add: parsed_ok_def)
  moreover have "recv_inv st ?d = recv_inv st c" for st by (rule recv_inv_cong) simp_all
  ultimately show ?thesis using None by (simp add: pass_frame_def)
next
  case (Some s)
  have inv: "parsed_ok d \<and> (APP_FRAME (cx_state c) \<longrightarrow> recv_inv (cx_state d) d)" if "passed c d" for d
  proof -
    have "cx_state d = cx_state c" "cx_cur_stream d = Some s"
      using that Some regsD(5) [of d c] by (auto simp: passed_def)
    with passed_parsed [OF that ok] parsed_app_inv [of d] show ?thesis by simp
  qed
  have keep: "case pass_frame http r c of Inl d \<Rightarrow> passed c d | Inr (r', d) \<Rightarrow> passed c d"
    by (rule pass_frame_keeps [OF http]) (use ok in \<open>simp add: parsed_ok_def\<close>)
  show ?thesis
  proof (cases "pass_frame http r c")
    case (Inl d)
    then have "APP_FRAME (cx_state c)" using Some by (simp add: pass_frame_def split: if_splits)
    with Inl keep inv [of d] show ?thesis by simp
  next
    case (Inr x)
    with keep inv show ?thesis by (cases x) simp
  qed
qed

lemma skb_process_result:
  assumes inv: "recv_inv (cx_state c) c" and skb: "ss_skb_process c skb = Some (r, c', m)"
  shows "parsed_ok c' \<and> m \<le> skb_len skb \<and> (r = T_POSTPONE \<longrightarrow> recv_inv (cx_state c') c' \<and> m = skb_len skb)"
proof (cases "skb_len skb = 0")
  case True
  moreover have "parsed_ok c"
    using inv header_label [of c] by (auto simp: recv_inv_def parsed_ok_def rlen_ok_def APP_FRAME_def)
  ultimately show ?thesis using skb by (simp add: ss_skb_process_def)
next
  case False
  then have "skb \<noteq> []" by (auto simp: skb_len_def)
  moreover have "skb_process_loop T_OK c 0 skb = Some (r, c', m)"
    using skb False by (simp add: ss_skb_process_def)
  ultimately show ?thesis
    using skb_loop_result [OF inv, of T_OK 0 skb r c' m] by (simp add: parsed_ok_def)
qed

text \<open>Reception of a buffer keeps the invariant, whatever comes over the network.\<close>

abbreviation (input) at_rest :: "rc \<times> TfwH2Ctx \<Rightarrow> bool" where
  "at_rest x \<equiv> recv_inv (cx_state (snd x)) (snd x)"

lemma process_out_settled:
  "parsed_ok e \<Longrightarrow> (\<not> tfw_error_code_is_crucial q \<Longrightarrow> recv_inv (cx_state e) e) \<Longrightarrow> at_rest (frame_process_out q e)"
  by (rule process_out_inv [of e q "fst (frame_process_out q e)"]) simp_all

text \<open>The part of a round after the machine has finished a frame, or a part of an application frame.\<close>

lemma pass_settled:
  assumes http: "http_keeps http" and e: "parsed_ok e" and post: "r = T_POSTPONE \<Longrightarrow> APP_FRAME (cx_state e) \<and> recv_inv (cx_state e) e"
    and p: "postponed \<longleftrightarrow> r = T_POSTPONE"
    and IH: "\<And>c x. proc c = Some x \<Longrightarrow> recv_inv (cx_state c) c \<Longrightarrow> at_rest x"
    and res: "(case pass_frame http r e of
         Inl c \<Rightarrow> Some (T_OK, c)
       | Inr (r', c) \<Rightarrow>
           if tfw_error_code_is_crucial r' then Some (frame_process_out r' c)
           else let c = tfw_h2_context_reinit postponed c in
             if again then proc c else Some (frame_process_out r' c)) = Some x"
  shows "at_rest x"
proof (cases "pass_frame http r e")
  case (Inl d)
  with pass_frame_inv [OF http e, of r] res show ?thesis by auto
next
  case (Inr y)
  obtain r' d where y: "y = (r', d)" by (cases y)
  have d: "parsed_ok d" "postponed \<longrightarrow> recv_inv (cx_state d) d"
    using pass_frame_inv [OF http e, of r] Inr y post p by auto
  let ?d = "tfw_h2_context_reinit postponed d"
  have inv: "recv_inv (cx_state ?d) ?d" by (rule reinit_inv [OF d])
  then have "parsed_ok ?d"
    using header_label [of ?d] by (auto simp: recv_inv_def parsed_ok_def rlen_ok_def APP_FRAME_def)
  with inv process_out_settled [of d r'] process_out_settled [of ?d r'] d(1) IH [of ?d x] res Inr y show ?thesis
    by (auto simp: Let_def split: if_splits)
qed

text \<open>A round of the loop, with the rest of the loop as an argument.\<close>

definition process_round ::
    "http_layer \<Rightarrow> (TfwH2Ctx \<Rightarrow> skb \<Rightarrow> (rc \<times> TfwH2Ctx) option) \<Rightarrow> TfwH2Ctx \<Rightarrow> skb \<Rightarrow> (rc \<times> TfwH2Ctx) option" where
  "process_round http proc c skb =
     (case ss_skb_process (c\<lparr>cx_skb_head := cx_skb_head c @ [skb]\<rparr>) skb of
        None \<Rightarrow> None
      | Some (r, c, parsed) \<Rightarrow>
          if r = T_BLOCK_WITH_FIN \<or> r = T_BLOCK_WITH_RST then Some (frame_process_out r c)
          else if r \<noteq> T_OK \<and> r \<noteq> T_POSTPONE then Some (frame_process_out T_BAD c)
          else if r = T_POSTPONE \<and> \<not> APP_FRAME (cx_state c) then Some (T_OK, c)
          else
            let postponed = (r = T_POSTPONE);
                more = (parsed < skb_len skb);
                (ok, c) = (if more then kmem_alloc c else (True, c)) in
            if \<not> ok then Some (frame_process_out ENOMEM c)
            else
              let c = c\<lparr>cx_skb_head := butlast (cx_skb_head c) @ [skb_take parsed skb]\<rparr> in
              (case pass_frame http r c of
                 Inl c \<Rightarrow> Some (T_OK, c)
               | Inr (r, c) \<Rightarrow>
                   if tfw_error_code_is_crucial r then Some (frame_process_out r c)
                   else
                     let c = tfw_h2_context_reinit postponed c in
                     if more then proc c (skb_drop parsed skb)
                     else Some (frame_process_out r c)))"

lemma round_settled:
  assumes res: "process_round http proc c skb = Some x" and http: "http_keeps http"
    and inv0: "recv_inv (cx_state c) c"
    and IH: "\<And>c skb x. proc c skb = Some x \<Longrightarrow> recv_inv (cx_state c) c \<Longrightarrow> at_rest x"
  shows "at_rest x"
proof -
  let ?c = "c\<lparr>cx_skb_head := cx_skb_head c @ [skb]\<rparr>"
  have inv: "recv_inv (cx_state ?c) ?c"
    using recv_inv_cong [of ?c c] inv0 by simp
  obtain r d m where skb: "ss_skb_process ?c skb = Some (r, d, m)"
    using res by (auto simp: process_round_def split: option.splits)
  note d = skb_process_result [OF inv skb] and body = res [unfolded process_round_def skb]
  obtain ok e where e: "(if m < skb_len skb then kmem_alloc d else (True, d)) = (ok, e)" by force
  then have ce: "conn_core e = conn_core d" "regs e = regs d"
    using kmem_alloc_core [of d ok e] by (auto split: if_splits)
  let ?e = "e\<lparr>cx_skb_head := butlast (cx_skb_head e) @ [skb_take m skb]\<rparr>"
  have "parsed_ok f" if "conn_core f = conn_core d" "regs f = regs d" for f
    by (rule passed_parsed [OF passed_upd [OF _ that]]) (use d in \<open>simp_all add: parsed_ok_def\<close>)
  then have eok: "parsed_ok e" "parsed_ok ?e" using ce by simp_all
  have einv: "recv_inv st ?e = recv_inv st d" for st by (rule recv_inv_cong) (use ce in simp_all)
  have st: "cx_state ?e = cx_state d" using regsD(5) [OF ce(2)] by simp
  consider (fin) "r \<noteq> T_OK" "r \<noteq> T_POSTPONE" | (more) "r = T_POSTPONE" "\<not> APP_FRAME (cx_state d)"
    | (nomem) "r = T_OK \<or> r = T_POSTPONE \<and> APP_FRAME (cx_state d)" "\<not> ok"
    | (pass) "r = T_OK \<or> r = T_POSTPONE \<and> APP_FRAME (cx_state d)" ok by blast
  then show ?thesis
  proof cases
    case fin
    with body d show ?thesis
      by (auto simp: tfw_error_code_is_crucial_def intro!: process_out_settled split: if_splits)
  next
    case more
    with body d show ?thesis by auto
  next
    case nomem
    with body e eok(1) show ?thesis
      by (auto simp: Let_def tfw_error_code_is_crucial_def intro!: process_out_settled)
  next
    case pass
    have "APP_FRAME (cx_state ?e) \<and> recv_inv (cx_state ?e) ?e" if "r = T_POSTPONE"
      using pass that d unfolding st einv by simp
    note settled = pass_settled [OF http eok(2) this, where proc = "\<lambda>c. proc c (skb_drop m skb)"
      and x = x and again = "m < skb_len skb" and r = r, OF _ _ IH]
    from pass(1) show ?thesis
    proof
      assume "r = T_OK"
      with pass(2) body show ?thesis by (intro settled [of False]) (simp_all add: e Let_def)
    next
      assume "r = T_POSTPONE \<and> APP_FRAME (cx_state d)"
      with pass(2) body show ?thesis by (intro settled [of True]) (simp_all add: e Let_def)
    qed
  qed
qed

lemma frame_process_inv:
  assumes proc: "tfw_h2_frame_process http c skb = Some x" and http: "http_keeps http"
    and inv: "recv_inv (cx_state c) c"
  shows "at_rest x"
proof -
  let ?P = "\<lambda>http c skb x. http_keeps http \<longrightarrow> recv_inv (cx_state c) c \<longrightarrow> at_rest x"
  have "?P http c skb x"
  proof (rule tfw_h2_frame_process.raw_induct [of ?P, OF _ proc], intro impI, goal_cases)
    case (1 proc http c skb x)
    from 1(2) [folded process_round_def [of http "proc http"]] 1(3,4) show ?case
      by (rule round_settled) (use 1(1,3) in simp)
  qed
  with http inv show ?thesis by simp
qed

end
