(* ===== verification/H2_Frame_Spec.thy ===== *)
theory H2_Frame_Spec
  imports H2_Example H2_Recv_Process
begin

unbundle bit_operations_syntax

text \<open>
  The properties of the reception of HTTP/2 frames (\<^verbatim>\<open>src/fw/http_frame.c\<close>): the frame machine
  returns and keeps the connection well formed, what it refuses, what it answers, and the frame
  sequences it misreads.
\<close>

section \<open>Safety of the frame machine\<close>

lemma init_recv_inv:
  assumes "env_ok env"
  shows "recv_inv (cx_state (tfw_h2_context_init m l n env)) (tfw_h2_context_init m l n env)"
  using init_ctx_ok [of m l n env] assms
  by (simp add: recv_inv_def recv_ok_def regs_ok_def label_ok_def rlen_ok_def tfw_h2_context_init_def
      stream_ids_def tfw_h2_init_stream_sched_def zero_hdr_def)

text \<open>
  (C2) On a connection in good order whose client declared no dependencies between streams,
  the frame machine returns for every input, however it is cut: no assertion fails, the read
  pointer never runs past the buffer, the stream table stays consistent and within the
  concurrency limit; and if the machine asks for more, it has consumed the buffer and is again
  in a state from which it can go on.
\<close>

theorem frame_recv_total:
  assumes "recv_inv (cx_state c) c" "flat (cx_sched c)"
  shows "\<exists>r c' rest. tfw_h2_frame_recv c buf = Some (r, c', rest) \<and> length rest \<le> length buf
    \<and> ctx_ok c' \<and> card (ids c') \<le> max_streams c'
    \<and> (r = T_POSTPONE \<longrightarrow> rest = [] \<and> recv_inv (cx_state c') c')"
  using frame_fsm_result [OF assms(1), of buf] assms(2)
  by (cases "frame_fsm (cx_state c) c buf")
    (auto simp: recv_result_def tfw_h2_frame_recv_def recv_ok_def)

lemma ex_init_inv: "recv_inv (cx_state ex_ctx) ex_ctx" "flat (cx_sched ex_ctx)"
proof -
  show "recv_inv (cx_state ex_ctx) ex_ctx"
    unfolding ex_ctx_def by (rule init_recv_inv) (simp add: env_ok_def ex_env_def)
  show "flat (cx_sched ex_ctx)"
    by (simp add: flat_def stream_ids_def ex_ctx_def tfw_h2_context_init_def tfw_h2_init_stream_sched_def)
qed

theorem frame_recv_total_witness:
  "\<exists>r c' rest. tfw_h2_frame_recv ex_ctx [80, 82, 73] = Some (r, c', rest) \<and> ctx_ok c'"
  using frame_recv_total [OF ex_init_inv, of "[80, 82, 73]"] by blast

section \<open>Reachable connections\<close>

text \<open>
  A connection that is set up and then receives buffers, in any number and of any content.
\<close>

inductive h2_reach :: "http_layer \<Rightarrow> h2_env \<Rightarrow> TfwH2Ctx \<Rightarrow> bool" for http env where
  init: "h2_reach http env (tfw_h2_context_init cli_max_streams max_hdr list_sz env)"
| recv: "h2_reach http env c \<Longrightarrow> tfw_h2_frame_process http c skb = Some (r, c') \<Longrightarrow> h2_reach http env c'"


definition ex_http :: http_layer where
  "ex_http s b c = (T_OK, c)"


section \<open>What is refused\<close>

text \<open>The lengths RFC 9113 section 6 does not allow, by frame type.\<close>

definition wrong_size :: "TfwFrameHdr \<Rightarrow> int \<Rightarrow> bool" where
  "wrong_size h max_frame \<longleftrightarrow> h_length h > max_frame
     \<or> h_type h = HTTP2_PRIORITY \<and> h_length h \<noteq> 5
     \<or> h_type h = HTTP2_RST_STREAM \<and> h_length h \<noteq> 4
     \<or> h_type h = HTTP2_WINDOW_UPDATE \<and> h_length h \<noteq> 4
     \<or> h_type h = HTTP2_PING \<and> h_length h \<noteq> 8
     \<or> h_type h = HTTP2_GOAWAY \<and> h_length h < 8
     \<or> h_type h = HTTP2_SETTINGS \<and> (h_length h mod 6 \<noteq> 0 \<or> has_flag (h_flags h) HTTP2_F_ACK \<and> h_length h > 0)"

text \<open>The types RFC 9113 restricts to stream 0, and those it does not allow there.\<close>

definition wrong_stream :: "TfwFrameHdr \<Rightarrow> bool" where
  "wrong_stream h \<longleftrightarrow>
     (if h_type h \<in> {HTTP2_SETTINGS, HTTP2_PING, HTTP2_GOAWAY} then h_stream_id h \<noteq> 0
      else h_type h \<in> {HTTP2_DATA, HTTP2_HEADERS, HTTP2_PRIORITY, HTTP2_RST_STREAM, HTTP2_CONTINUATION}
        \<and> h_stream_id h = 0)"

lemma ctrl_frame_limit_core:
  assumes "tfw_h2_ctrl_frame_limit ty c = (b, d)"
  shows "cx_hdr d = cx_hdr c" "cx_sched d = cx_sched c" "cx_lsettings d = cx_lsettings c"
  using conn_coreD(4,6) [OF conn_core_ctrl(7) [OF assms]] regsD(4) [OF regs_ctrl(7) [OF assms]] by auto

lemma terminate_sched [simp]: "cx_sched (tfw_h2_conn_terminate err c) = cx_sched c"
  using conn_coreD(4) [OF conn_core_ctrl(6), of err c] .

text \<open>
  (C23) A frame whose length RFC 9113 does not allow for its type, which is longer than the
  announced maximum, which is sent on stream 0 although its type needs a stream or on a stream
  although its type belongs to the connection, or which is a PUSH_PROMISE, is answered by the
  end of the connection, and no stream is touched.
\<close>

theorem malformed_frame_refused:
  assumes "wrong_size (cx_hdr c) (uint (s_max_frame_sz (cx_lsettings c))) \<or> wrong_stream (cx_hdr c)
    \<or> h_type (cx_hdr c) = HTTP2_PUSH_PROMISE"
  shows "\<exists>r c'. tfw_h2_frame_type_process c = Some (r, c') \<and> r \<in> {EINVAL, T_BLOCK_WITH_RST} \<and> cx_sched c' = cx_sched c"
proof (cases "h_length (cx_hdr c) > uint (s_max_frame_sz (cx_lsettings c))")
  case True
  then show ?thesis by (simp add: tfw_h2_frame_type_process_def conn_term_def Let_def)
next
  case False
  define ty where "ty = (if h_type (cx_hdr c) \<le> HTTP2_UNDEFINED then h_type (cx_hdr c) else HTTP2_UNDEFINED)"
  obtain b d where d: "tfw_h2_ctrl_frame_limit ty c = (b, d)" by force
  note core = ctrl_frame_limit_core [OF d]
  show ?thesis
  proof (cases b)
    case True
    have ty: "h_type (cx_hdr c) \<in> {HTTP2_DATA, HTTP2_HEADERS, HTTP2_PRIORITY, HTTP2_RST_STREAM, HTTP2_SETTINGS,
        HTTP2_PUSH_PROMISE, HTTP2_PING, HTTP2_GOAWAY, HTTP2_WINDOW_UPDATE, HTTP2_CONTINUATION}"
      using assms False by (auto simp: wrong_size_def wrong_stream_def split: if_splits)
    then have "ty = h_type (cx_hdr c)" unfolding ty_def by (elim insertE emptyE) simp_all
    with True False d have proc: "tfw_h2_frame_type_process c =
        (let ty = h_type (cx_hdr c) in
         if ty = HTTP2_DATA then type_process_data d
         else if ty = HTTP2_HEADERS then type_process_headers d
         else if ty = HTTP2_PRIORITY then type_process_priority d
         else if ty = HTTP2_WINDOW_UPDATE then type_process_window_update d
         else if ty = HTTP2_SETTINGS then type_process_settings d
         else if ty = HTTP2_PUSH_PROMISE then conn_term HTTP2_ECODE_PROTO d
         else if ty = HTTP2_PING then type_process_ping d
         else if ty = HTTP2_RST_STREAM then type_process_rst_stream d
         else if ty = HTTP2_GOAWAY then type_process_goaway d
         else if ty = HTTP2_CONTINUATION then type_process_continuation d
         else type_process_unknown d)"
      unfolding tfw_h2_frame_type_process_def ty_def [symmetric] by (simp add: Let_def)
    from ty show ?thesis
      using assms False core unfolding proc wrong_size_def wrong_stream_def
      by (elim insertE emptyE)
        (auto simp: conn_term_def Let_def type_process_data_def type_process_headers_def type_process_priority_def
          type_process_window_update_def type_process_settings_def type_process_ping_def
          type_process_rst_stream_def type_process_goaway_def type_process_continuation_def)
  next
    case False
    with \<open>\<not> h_length (cx_hdr c) > _\<close> d core show ?thesis
      by (simp add: tfw_h2_frame_type_process_def ty_def [symmetric])
  qed
qed

theorem malformed_frame_refused_witness:
  "\<exists>r c'. tfw_h2_frame_type_process (ex_ctx\<lparr>cx_hdr := \<lparr>h_length = 7, h_stream_id = 0, h_type = HTTP2_PING, h_flags = 0\<rparr>\<rparr>)
     = Some (r, c') \<and> r \<in> {EINVAL, T_BLOCK_WITH_RST}"
  using malformed_frame_refused
    [of "ex_ctx\<lparr>cx_hdr := \<lparr>h_length = 7, h_stream_id = 0, h_type = HTTP2_PING, h_flags = 0\<rparr>\<rparr>"]
  by (auto simp: wrong_size_def)

end
