(* ===== verification/H2_Recv_Spec.thy ===== *)
theory H2_Recv_Spec
  imports H2_Frame_Spec H2_Conn_Spec H2_Sched_Spec
begin

unbundle bit_operations_syntax

text \<open>
  What the reception of frames does, frame by frame (\<^verbatim>\<open>src/fw/http_frame.c\<close>): the answer to
  PING, the effect of WINDOW_UPDATE, the admission of new streams, and the frames at the edge
  of the format on which the machine departs from RFC 9113.
\<close>

section \<open>Control frames\<close>

text \<open>All bytes of a part of a frame are at hand.\<close>

lemma read_srvc_all:
  assumes "cx_rlen c = 0" "length (cx_rbuf c) = 9" "n = int (length bs)" "length bs \<le> 9"
  shows "FRAME_FSM_READ_SRVC n st c (bs @ rest) k
    = k (c\<lparr>cx_rbuf := bs @ drop (length bs) (cx_rbuf c), cx_rlen := n\<rparr>) rest"
  using assms by (simp add: FRAME_FSM_READ_SRVC_def FRAME_FSM_READ_def fsm_avail_def rbuf_write_def Let_def)

definition ctrl_hdr :: "int \<Rightarrow> u8 \<Rightarrow> u8 \<Rightarrow> TfwFrameHdr" where
  "ctrl_hdr n ty flags = \<lparr>h_length = n, h_stream_id = 0, h_type = ty, h_flags = flags\<rparr>"

lemma ctrl_bytes:
  "tfw_h2_pack_frame_header (ctrl_hdr 8 HTTP2_PING flags) = [0, 0, 8, 6, flags, 0, 0, 0, 0]"
  "tfw_h2_unpack_frame_header [0, 0, 8, 6, flags, 0, 0, 0, 0] = ctrl_hdr 8 HTTP2_PING flags"
  "tfw_h2_pack_frame_header (ctrl_hdr 0 HTTP2_SETTINGS flags) = [0, 0, 0, 4, flags, 0, 0, 0, 0]"
  "tfw_h2_unpack_frame_header [0, 0, 0, 4, flags, 0, 0, 0, 0] = ctrl_hdr 0 HTTP2_SETTINGS flags"
  by (simp_all add: tfw_h2_pack_frame_header_def tfw_h2_unpack_frame_header_def ctrl_hdr_def htonl_def ntohl_def)

lemma rate_limit_upd:
  assumes "tfw_h2_ctrl_frame_rate_limit k c = (b, d)"
  shows "\<exists>st. d = c\<lparr>cx_stat := st\<rparr>" 
    "tfw_h2_ctrl_frame_rate_limit k (c\<lparr>cx_rbuf := x, cx_rlen := n, cx_hdr := h\<rparr>) = (b, d\<lparr>cx_rbuf := x, cx_rlen := n, cx_hdr := h\<rparr>)"
  using assms by (auto simp: tfw_h2_ctrl_frame_rate_limit_def Let_def)


lemma ex_first_frame: "fst (tfw_h2_ctrl_frame_rate_limit k (ex_ctx\<lparr>cx_state := HTTP2_RECV_FRAME_HEADER\<rparr>))"
  by (cases k) (simp_all add: tfw_h2_ctrl_frame_rate_limit_def ctrl_account_def ctrl_sum_def frang_time_in_frame_def
      time_before_def ex_ctx_def tfw_h2_context_init_def ex_env_def zero_stat_def ex_replicate Let_def)


text \<open>
  A SETTINGS frame without entries, which asks for no change but for an acknowledgement as
  any other SETTINGS frame (RFC 9113 section 6.5.3), is not acknowledged: nothing is sent.
\<close>

theorem empty_settings_not_acknowledged:
  assumes "cx_state c = HTTP2_RECV_FRAME_HEADER" "cx_rlen c = 0" "length (cx_rbuf c) = 9"
    and "fst (tfw_h2_ctrl_frame_rate_limit Settings_Cnt c)" "cx_to_read c = 0"
  shows "\<exists>c'. tfw_h2_frame_recv c (tfw_h2_pack_frame_header (ctrl_hdr 0 HTTP2_SETTINGS 0) @ rest) = Some (T_OK, c', rest)
    \<and> cx_state c' = HTTP2_RECV_FRAME_HEADER \<and> cx_sent c' = cx_sent c"
proof -
  let ?h = "ctrl_hdr 0 HTTP2_SETTINGS 0"
  obtain st where lim: "tfw_h2_ctrl_frame_rate_limit Settings_Cnt c = (True, c\<lparr>cx_stat := st\<rparr>)"
    using assms(4) rate_limit_upd(1) by (metis prod.collapse)
  have "frame_state HTTP2_RECV_FRAME_HEADER c (tfw_h2_pack_frame_header ?h @ rest)
      = Some (Fsm_Exit T_OK HTTP2_RECV_FRAME_HEADER,
          c\<lparr>cx_rbuf := [0, 0, 0, 4, 0, 0, 0, 0, 0], cx_hdr := ?h, cx_stat := st, cx_rlen := 0, cx_to_read := 0\<rparr>, rest)"
    using rate_limit_upd(2) [OF lim, where x = "[0, 0, 0, 4, 0, 0, 0, 0, 0]" and n = 9 and h = ?h] assms
    unfolding frame_state_def ctrl_bytes
    by (auto simp: recv_frame_header_def read_srvc_all [where bs = "[0, 0, 0, 4, 0, 0, 0, 0, 0]", simplified] ctrl_bytes
        tfw_h2_frame_type_process_def tfw_h2_ctrl_frame_limit_def type_process_settings_def FRAME_FSM_EXIT_def
        ctrl_hdr_def has_flag_def Let_def)
  then show ?thesis
    unfolding tfw_h2_frame_recv_def assms(1) by (subst frame_fsm.simps) simp
qed

theorem empty_settings_not_acknowledged_witness:
  "\<exists>c'. tfw_h2_frame_recv (ex_ctx\<lparr>cx_state := HTTP2_RECV_FRAME_HEADER\<rparr>)
      (tfw_h2_pack_frame_header (ctrl_hdr 0 HTTP2_SETTINGS 0) @ []) = Some (T_OK, c', [])
    \<and> cx_sent c' = []"
proof -
  let ?c = "ex_ctx\<lparr>cx_state := HTTP2_RECV_FRAME_HEADER\<rparr>"
  show ?thesis
    using empty_settings_not_acknowledged [of ?c "[]"] ex_first_frame
    by (auto simp: ex_ctx_def tfw_h2_context_init_def)
qed

section \<open>Frames at the edge\<close>

text \<open>
  (C37) A HEADERS frame that has the PRIORITY flag and nothing but the priority fields leaves
  the machine with five bytes still to be skipped: the first five bytes of the next frame
  are swallowed, and no stream is created.
\<close>

theorem priority_only_headers_swallow:
  assumes "h_length (cx_hdr c) = 5" "has_flag (h_flags (cx_hdr c)) HTTP2_F_PRIORITY"
    and "\<not> has_flag (h_flags (cx_hdr c)) HTTP2_F_PADDED" "length (cx_rbuf c) = 9"
    and "length pri = 5" "length nxt = 5"
  shows "\<exists>d c'. type_process_headers_tail c = Some (T_OK, d)
    \<and> tfw_h2_frame_recv (d\<lparr>cx_rlen := 0\<rparr>) (pri @ nxt @ rest) = Some (T_OK, c', rest) \<and> cx_sched c' = cx_sched c"
proof -
  let ?d = "c\<lparr>cx_data_off := 9, cx_plen := 0, cx_to_read := 5, cx_hdr := (cx_hdr c)\<lparr>h_length := 0\<rparr>,
     cx_state := HTTP2_RECV_HEADER_PRI, cx_rlen := 0\<rparr>"
  let ?e = "?d\<lparr>cx_rbuf := pri @ drop 5 (cx_rbuf c), cx_priority := tfw_h2_unpack_priority (pri @ drop 5 (cx_rbuf c)),
     cx_data_off := 14, cx_state := HTTP2_IGNORE_FRAME_DATA\<rparr>"
  have "frame_state HTTP2_RECV_HEADER_PRI ?d (pri @ nxt @ rest) = Some (Fsm_Goto HTTP2_IGNORE_FRAME_DATA, ?e, nxt @ rest)"
    using assms
    by (auto simp: frame_state_def recv_and_next_def read_srvc_all tfw_h2_headers_pri_process_def SET_TO_READ_VERIFY_def
        FRAME_FSM_NEXT_def FRAME_FSM_MOVE_def)
  moreover have "frame_state HTTP2_IGNORE_FRAME_DATA ?e (nxt @ rest) = Some (Fsm_Exit T_OK HTTP2_IGNORE_FRAME_DATA, ?e, rest)"
    using assms by (simp add: frame_state_def recv_ignore_def FRAME_FSM_READ_def fsm_avail_def FRAME_FSM_EXIT_def)
  ultimately have "tfw_h2_frame_recv ?d (pri @ nxt @ rest) = Some (T_OK, ?e, rest)"
    by (simp add: tfw_h2_frame_recv_def frame_fsm.simps [of HTTP2_RECV_HEADER_PRI] frame_fsm.simps [of HTTP2_IGNORE_FRAME_DATA])
  moreover have "type_process_headers_tail c = Some (T_OK, ?d\<lparr>cx_rlen := cx_rlen c\<rparr>)"
    using assms by (simp add: type_process_headers_tail_def start_payload_def tfw_h2_recv_priority_def recv_optional_def
        VERIFY_FRAME_SIZE_def upd_hdr_def Let_def)
  ultimately show ?thesis by (intro exI conjI) (assumption | simp)+
qed

theorem priority_only_headers_swallow_witness:
  "\<exists>c d c'. type_process_headers_tail c = Some (T_OK, d)
    \<and> tfw_h2_frame_recv (d\<lparr>cx_rlen := 0\<rparr>) ([0, 0, 0, 0, 15] @ [0, 0, 8, 6, 0] @ [0, 0, 0, 0]) = Some (T_OK, c', [0, 0, 0, 0])"
  using priority_only_headers_swallow
    [of "ex_ctx\<lparr>cx_hdr := \<lparr>h_length = 5, h_stream_id = 1, h_type = HTTP2_HEADERS, h_flags = 0x25\<rparr>\<rparr>"
      "[0, 0, 0, 0, 15]" "[0, 0, 8, 6, 0]" "[0, 0, 0, 0]"]
  by (simp add: has_flag_def ex_ctx_def tfw_h2_context_init_def) blast

text \<open>
  (C36) When the padding takes all of a padded DATA or HEADERS frame, the frame ends with the
  byte that holds the length of the padding; the padding itself is read as the next frame header.
\<close>

theorem padding_read_as_frame:
  assumes "h_type (cx_hdr c) \<in> {HTTP2_DATA, HTTP2_HEADERS}" "h_length (cx_hdr c) = 1 + uint pad" "0 < pad"
    and "cx_plen c = word_of_int (1 + uint pad)" "length (cx_rbuf c) = 9" "padding \<noteq> []"
    and "e_alloc (cx_env c) (cx_allocs c)" "cx_skb_head c = []"
  shows "\<exists>d e. tfw_h2_recv_padded c = Some (T_OK, d)
    \<and> tfw_h2_frame_process http (d\<lparr>cx_rlen := 0\<rparr>) [pad # padding] = tfw_h2_frame_process http e [padding]
    \<and> cx_state e = HTTP2_RECV_FRAME_HEADER \<and> cx_rlen e = 0"
proof -
  let ?d = "c\<lparr>cx_to_read := 1, cx_plen := word_of_int (uint pad), cx_hdr := (cx_hdr c)\<lparr>h_length := uint pad\<rparr>,
     cx_state := HTTP2_RECV_FRAME_PADDED, cx_rlen := 0\<rparr>"
  have "uint (ucast pad :: u32) = uint pad"
    using unsigned_less [of pad, where 'a = int] by (simp add: unsigned_ucast_eq take_bit_int_eq_self)
  then have pl: "(ucast pad :: u32) \<noteq> 0" using assms(3) by (auto simp: word_less_def)
  have 1: "tfw_h2_recv_padded c = Some (T_OK, ?d\<lparr>cx_rlen := cx_rlen c\<rparr>)"
    using assms by (simp add: tfw_h2_recv_padded_def recv_optional_def VERIFY_FRAME_SIZE_def upd_hdr_def)
  let ?e = "?d\<lparr>cx_skb_head := [[pad # padding]], cx_rbuf := pad # tl (cx_rbuf c), cx_data_off := cx_data_off c + 1, cx_padlen := pad,
    cx_hdr := (cx_hdr c)\<lparr>h_length := 0\<rparr>, cx_to_read := 0\<rparr>"
  have "frame_state HTTP2_RECV_FRAME_PADDED (?d\<lparr>cx_skb_head := [[pad # padding]]\<rparr>) (pad # padding)
     = Some (Fsm_Exit T_OK HTTP2_RECV_FRAME_PADDED, ?e\<lparr>cx_state := HTTP2_IGNORE_FRAME_DATA\<rparr>, padding)"
    using assms read_srvc_all [where bs = "[pad]" and n = 1]
    by (auto simp: frame_state_def recv_and_next_def tfw_h2_frame_pad_process_def upd_hdr_def
        VERIFY_FRAME_SIZE_def FRAME_FSM_EXIT_def Let_def drop_Suc)
  then have "ss_skb_process (?d\<lparr>cx_skb_head := [[pad # padding]]\<rparr>) [pad # padding] = Some (T_OK, ?e, 1)"
    by (simp add: ss_skb_process_def skb_len_def tfw_h2_frame_recv_def frame_fsm.simps [of HTTP2_RECV_FRAME_PADDED])
  then have "tfw_h2_frame_process http ?d [pad # padding]
     = tfw_h2_frame_process http (clear_frame (?e\<lparr>cx_allocs := Suc (cx_allocs c)\<rparr>)) [padding]"
    using assms pl
    by (subst tfw_h2_frame_process.simps)
      (cases "cx_cur_stream c"; simp add: skb_len_def kmem_alloc_def pass_frame_def APP_FRAME_def Let_def
        tfw_h2_allowed_empty_frame_def tfw_error_code_is_crucial_def tfw_h2_context_reinit_def clear_frame_def)
  moreover have "cx_state (clear_frame x) = HTTP2_RECV_FRAME_HEADER" "cx_rlen (clear_frame x) = 0" for x
    by (simp_all add: clear_frame_def)
  ultimately show ?thesis using 1 by (intro exI conjI) (assumption | simp)+
qed


theorem padding_read_as_frame_witness:
  "\<exists>c d e. tfw_h2_recv_padded c = Some (T_OK, d)
    \<and> tfw_h2_frame_process ex_http (d\<lparr>cx_rlen := 0\<rparr>) [9 # [0, 0, 8, 6, 0, 0, 0, 0, 0]]
      = tfw_h2_frame_process ex_http e [[0, 0, 8, 6, 0, 0, 0, 0, 0]] \<and> cx_state e = HTTP2_RECV_FRAME_HEADER"
  using padding_read_as_frame
    [of "ex_ctx\<lparr>cx_hdr := \<lparr>h_length = 10, h_stream_id = 1, h_type = HTTP2_DATA, h_flags = 8\<rparr>, cx_plen := 10\<rparr>"
      9 "[0, 0, 8, 6, 0, 0, 0, 0, 0]" ex_http]
  by (simp add: ex_ctx_def tfw_h2_context_init_def ex_env_def) blast

text \<open>
  The last stream id of a connection moves back when the trailers of an older stream
  arrive; from then on DATA frames of the newer streams, which are still there, end the
  connection.
\<close>

theorem trailers_move_last_stream_back:
  assumes "cx_cur_stream c = Some s" "h_stream_id (cx_hdr c) = s" "st_state (strm c s) = HTTP2_STREAM_OPENED"
    and "h_type (cx_hdr c) = HTTP2_HEADERS" "h_flags (cx_hdr c) = HTTP2_F_END_HEADERS OR HTTP2_F_END_STREAM"
    and "cx_cur_recv_headers c = None" "pri_stream_id (cx_priority c) \<noteq> s" "s < h_stream_id h"
  shows "\<exists>c'. tfw_h2_headers_process c = Some (T_OK, c') \<and> sc_streams (cx_sched c') = sc_streams (cx_sched c)
    \<and> type_process_data (c'\<lparr>cx_hdr := h\<rparr>) = conn_term HTTP2_ECODE_PROTO (c'\<lparr>cx_hdr := h\<rparr>)"
proof -
  let ?d = "c\<lparr>cx_lstream_id := s\<rparr>"
  let ?v = "\<lparr>fv_state = 0x25, fv_send_headers = cx_cur_send_headers c, fv_recv_headers = None\<rparr>"
  have "h2_stream_fsm (Some s) (h_type (cx_hdr c)) (h_flags (cx_hdr c)) False ?d
      = Some (STREAM_FSM_RES_OK, HTTP2_ECODE_NO_ERROR, put_fsm_view s ?v ?d)"
    using assms
    by (simp add: h2_stream_fsm_def ctx_fsm_view_def strm_def fsm_branches TFW_H2_FSM_STREAM_CHECK_def
       TFW_H2_FSM_TYPE_CHECK_def cur_headers_def tfw_h2_get_stream_state_def has_flag_def SET_STATE_def set_eos_received_def tfw_h2_set_stream_state_def)
  then have "tfw_h2_headers_process c = Some (T_OK, put_fsm_view s ?v ?d)"
    using assms
    by (simp add: tfw_h2_headers_process_def tfw_h2_current_stream_state_process_def STREAM_RECV_PROCESS_def put_fsm_view_def
        tfw_h2_check_current_stream_is_closed_def tfw_h2_stream_is_closed_def tfw_h2_get_stream_state_def strm_def Let_def)
  moreover have "type_process_data (put_fsm_view s ?v ?d\<lparr>cx_hdr := h\<rparr>) = conn_term HTTP2_ECODE_PROTO (put_fsm_view s ?v ?d\<lparr>cx_hdr := h\<rparr>)"
    using assms(8) by (auto simp: type_process_data_def put_fsm_view_def Let_def)
  ultimately show ?thesis by (simp add: put_fsm_view_def)
qed

theorem trailers_move_last_stream_back_witness:
  "\<exists>c c'. ids c = {1, 3} \<and> tfw_h2_headers_process c = Some (T_OK, c')
    \<and> fst (the (type_process_data (c'\<lparr>cx_hdr := \<lparr>h_length = 1, h_stream_id = 3, h_type = HTTP2_DATA, h_flags = 0\<rparr>\<rparr>))) = EINVAL"
proof -
  let ?t = "put_strm 1 (\<lambda>t. t\<lparr>st_state := HTTP2_STREAM_OPENED\<rparr>) ex_wnd"
  let ?c = "?t\<lparr>cx_cur_stream := Some 1, cx_hdr := \<lparr>h_length = 1, h_stream_id = 1, h_type = HTTP2_HEADERS, h_flags = 5\<rparr>,
     cx_cur_recv_headers := None, cx_priority := zero_pri\<rparr>"
  have "ids ?c = {1, 3}" using ex_wnd_eval(1) by simp
  moreover obtain c' where "tfw_h2_headers_process ?c = Some (T_OK, c')"
    "fst (the (type_process_data (c'\<lparr>cx_hdr := \<lparr>h_length = 1, h_stream_id = 3, h_type = HTTP2_DATA, h_flags = 0\<rparr>\<rparr>))) = EINVAL"
    using trailers_move_last_stream_back [of ?c 1 "\<lparr>h_length = 1, h_stream_id = 3, h_type = HTTP2_DATA, h_flags = 0\<rparr>"]
    by (auto simp: conn_term_def zero_pri_def strm_def)
  ultimately show ?thesis by blast
qed

section \<open>Windows\<close>

text \<open>
  (C28) A WINDOW_UPDATE frame with an increment that keeps the window of a stream within
  2^31 - 1 raises this window by the increment and touches no other window.  A stream that was
  blocked because its window was exhausted takes part in scheduling again as soon as the
  window is positive, and the scheduler finds a stream to send from.
\<close>

theorem wnd_update_unblocks:
  fixes c defines "incr \<equiv> ntohl (cx_rbuf c) AND 0x7fffffff"
  assumes ok: "ctx_ok c" and s: "cx_cur_stream c = Some s" "s \<in> ids c"
    and incr: "incr \<noteq> 0" "st_rem_wnd (strm c s) + uint incr \<le> 2 ^ 31 - 1"
  shows "\<exists>c'. tfw_h2_wnd_update_process c = Some (T_OK, c') \<and> ctx_ok c' \<and> ids c' = ids c
    \<and> (\<forall>t. st_rem_wnd (strm c' t) = st_rem_wnd (strm c t) + (if t = s then uint incr else 0))
    \<and> (0 < st_rem_wnd (strm c' s) \<and> x_skb_head (st_xmit (strm c s)) \<noteq> [] \<longrightarrow>
         tfw_h2_stream_is_active (cx_sched c') s
         \<and> (\<exists>t. tfw_h2_sched_get_most_prio_stream (cx_sched c') = Some (Some t)))"
proof -
  define w where "w = st_rem_wnd (strm c s) + uint incr"
  define d where "d = put_strm s (\<lambda>t. t\<lparr>st_rem_wnd := w\<rparr>) c"
  have d: "ctx_ok d" using ok put_strm_ok [of "\<lambda>t. t\<lparr>st_rem_wnd := w\<rparr>" c s]
    by (simp add: d_def xmit_same_def)
  have ds: "st_rem_wnd (sc_stream (cx_sched d) s) = w" "st_xmit (sc_stream (cx_sched d) s) = st_xmit (strm c s)"
    by (simp_all add: d_def strm_def)
  have "s \<in> ids d" using s by (simp add: d_def)
  then obtain S' where S': "tfw_h2_stream_try_unblock s (cx_sched d) = Some S'" "sched_ok S'" "blocked_ok S'"
    "sc_streams S' = sc_streams (cx_sched d)"
    "\<And>t. stream_rest (sc_stream S' t) = stream_rest (sc_stream (cx_sched d) t)"
    "0 < w \<and> x_skb_head (st_xmit (strm c s)) \<noteq> [] \<longrightarrow> tfw_h2_stream_is_active S' s"
    using try_unblock_ok [of "cx_sched d" s] d ds by (auto simp: ctx_ok_def)
  let ?e = "set_has_data (\<not> tfw_h2_is_ready_to_send c) (d\<lparr>cx_sched := S'\<rparr>)"
  have f: "st_queue (sc_stream S' t) = st_queue (strm d t)" "st_state (sc_stream S' t) = st_state (strm d t)"
    "st_rem_wnd (sc_stream S' t) = st_rem_wnd (strm d t)" for t
    using arg_cong [OF S'(5), of st_queue t] arg_cong [OF S'(5), of st_state t] arg_cong [OF S'(5), of st_rem_wnd t]
    by (simp_all add: strm_def)
  have e: "cx_sched ?e = S'" by (simp add: set_has_data_def)
  have "ctx_ok ?e"
    using ctx_ok_sched [OF d S'(2-4) f(1,2)] conn_coreD(2) [of ?e "d\<lparr>cx_sched := S'\<rparr>"] by simp
  moreover have "ids ?e = ids c" using S'(4) e by (simp add: d_def stream_ids_def)
  moreover have "st_rem_wnd (strm ?e t) = st_rem_wnd (strm c t) + (if t = s then uint incr else 0)" for t
    using f(3) [of t] unfolding strm_def e by (cases "t = s") (simp_all add: d_def w_def strm_def)
  moreover have "tfw_h2_wnd_update_process c = Some (T_OK, ?e)"
    using incr s(1) S'(1)
    by (simp add: tfw_h2_wnd_update_process_def incr_def [symmetric] tfw_h2_increment_wnd_sz_def w_def [symmetric]
        d_def [symmetric] on_sched_def Let_def)
  moreover have "\<exists>t. tfw_h2_sched_get_most_prio_stream S' = Some (Some t)" if "tfw_h2_stream_is_active S' s"
  proof -
    have "s \<in> stream_ids S'" using \<open>s \<in> ids d\<close> S'(4) by (simp add: stream_ids_def)
    with that root_counts_active [OF S'(2)] have "cnt S' sched_root \<noteq> 0"
      by (auto simp: card_gt_0_iff)
    with sched_most_prio_correct [OF S'(2), of sched_root] show ?thesis
      by (auto simp: tfw_h2_sched_get_most_prio_stream_def sched_keys_def)
  qed
  ultimately show ?thesis using S'(6) e by (intro exI [of _ ?e]) (auto simp: w_def)
qed


theorem wnd_update_unblocks_witness:
  "\<exists>c'. tfw_h2_wnd_update_process (ex_wnd\<lparr>cx_cur_stream := Some 3, cx_rbuf := [0, 0, 1, 0, 0, 0, 0, 0, 0]\<rparr>) = Some (T_OK, c')
    \<and> st_rem_wnd (strm c' 3) = 65791"
proof -
  let ?c = "ex_wnd\<lparr>cx_cur_stream := Some 3, cx_rbuf := [0, 0, 1, 0, 0, 0, 0, 0, 0]\<rparr>"
  have c: "ctx_ok ?c" "ids ?c = {1, 3}" "st_rem_wnd (strm ?c 3) = 65535"
    using ex_wnd_ok ex_wnd_eval ctx_ok_cong [of ?c ex_wnd] by (simp_all add: strm_def)
  show ?thesis using wnd_update_unblocks [of ?c 3] c by (auto simp: ntohl_def)
qed

section \<open>New streams\<close>

lemma headers_tail_cur:
  "type_process_headers_tail d = Some (r, c') \<Longrightarrow> cx_cur_stream c' = cx_cur_stream d"
  by (auto simp: type_process_headers_tail_def start_payload_def tfw_h2_recv_padded_def tfw_h2_recv_priority_def
      recv_optional_def VERIFY_FRAME_SIZE_def upd_hdr_def SET_TO_READ_def Let_def
      conn_coreD(5) [OF conn_core_ctrl(6)] split: if_splits)




end
