(* ===== verification/Hpack_Int.thy ===== *)
theory Hpack_Int
  imports VW_Prelude
begin

unbundle bit_operations_syntax

text \<open>
  Integers of variable length, RFC 7541 section 5.1: \<^verbatim>\<open>write_int()\<close> and the macros
  \<^verbatim>\<open>GET_FLEXIBLE\<close> and \<^verbatim>\<open>GET_CONTINUE\<close> of \<^verbatim>\<open>src/fw/hpack.c\<close>, and \<^verbatim>\<open>tfw_hpack_int_size()\<close> of
  \<^verbatim>\<open>src/fw/hpack.h\<close>.  \<open>None\<close> is a store behind the end of the buffer of \<^verbatim>\<open>TfwHPackInt\<close>, or a shift
  by the width of the operand or more.
\<close>

section \<open>Encoder\<close>

abbreviation (input) HPACK_MAX_INT :: nat where "HPACK_MAX_INT \<equiv> (8 + 7 - 1) div 7 + 1"

abbreviation (input) HPACK_INT_LIMIT :: nat where "HPACK_INT_LIMIT \<equiv> 2 ^ 20"

lemma unat_drop_bit: "unat (drop_bit n (w :: 'a::len word)) = unat w div 2 ^ n"
proof -
  have "unat (drop_bit n w) = drop_bit n (unat w)"
    using unsigned_less [of w, where 'a = nat] by (simp only: unsigned_drop_bit_eq take_bit_nat_eq_self)
  then show ?thesis by (simp only: drop_bit_eq_div)
qed

lemma drop_bit_7_less: "index > 0x7F \<Longrightarrow> unat (drop_bit 7 (index :: u64)) < unat index"
  by (simp only: unat_drop_bit word_less_nat_alt) (rule div_less_dividend, simp_all)

function write_int_loop :: "u64 \<Rightarrow> u8 list" where
  "write_int_loop index =
     (if index > 0x7F then ucast ((index AND 0x7F) OR 0x80) # write_int_loop (drop_bit 7 index)
      else [ucast index])"
  by pat_completeness auto

termination
  by (relation "measure unat") (simp_all add: drop_bit_7_less)

declare write_int_loop.simps [simp del]

definition write_int_bytes :: "u64 \<Rightarrow> u16 \<Rightarrow> u16 \<Rightarrow> u8 list" where
  "write_int_bytes index mx msk =
     (if index < ucast mx then [ucast (index OR ucast msk)]
      else ucast (mx OR msk) # write_int_loop (index - ucast mx))"

definition write_int :: "u64 \<Rightarrow> u16 \<Rightarrow> u16 \<Rightarrow> u8 list option" where
  "write_int index mx msk =
     (let bs = write_int_bytes index mx msk in if length bs \<le> HPACK_MAX_INT then Some bs else None)"

function int_size_loop :: "u64 \<Rightarrow> u32 \<Rightarrow> u32" where
  "int_size_loop index sz = (if index > 0x7F then int_size_loop (drop_bit 7 index) (sz + 1) else sz)"
  by pat_completeness auto

termination
  by (relation "measure (\<lambda>(index, sz). unat index)") (simp_all add: drop_bit_7_less)

declare int_size_loop.simps [simp del]

definition tfw_hpack_int_size :: "u64 \<Rightarrow> u16 \<Rightarrow> u32" where
  "tfw_hpack_int_size index mx =
     (if index < ucast mx then 1 else int_size_loop (index - ucast mx) 2)"

section \<open>Decoder\<close>

text \<open>The integer is complete, goes on in the next fragment at a shift, or is too large.\<close>

datatype 'a flexible = Flex_Done 'a "u8 list" | Flex_More 'a nat | Flex_Error

fun flexible_loop :: "'a::len word \<Rightarrow> nat \<Rightarrow> u8 list \<Rightarrow> 'a word flexible option" where
  "flexible_loop x m [] = Some (Flex_More x m)"
| "flexible_loop x m (c # src) =
     (if m \<ge> 32 then None
      else
        let x = x + ucast (push_bit m (ucast (c AND 127) :: u32)) in
        if unat x > HPACK_INT_LIMIT then Some Flex_Error
        else if c > 127 then flexible_loop x (m + 7) src
        else Some (Flex_Done x src))"

definition GET_FLEXIBLE :: "'a::len word \<Rightarrow> u8 list \<Rightarrow> 'a word flexible option" where
  "GET_FLEXIBLE x src = flexible_loop x 0 src"

text \<open>The next fragment is not empty.\<close>

definition GET_CONTINUE :: "'a::len word \<Rightarrow> nat \<Rightarrow> u8 list \<Rightarrow> 'a word flexible option" where
  "GET_CONTINUE x shift src = (if src = [] then None else flexible_loop x shift src)"

section \<open>What is written is read\<close>

lemma low_bits:
  fixes v :: u64
  defines "c \<equiv> ucast ((v AND 0x7F) OR 0x80) :: u8"
  shows "unat (c AND 127) = unat v mod 128" "c > 127"
proof -
  have m: "(127 :: u8) = mask 7" "(0x7F :: u64) = mask 7" by (simp_all add: mask_eq_exp_minus_1)
  have b: "bit (0x80 :: u64) n \<longleftrightarrow> n = 7" for n
    using bit_exp_iff [of 7 n, where 'a = u64] by auto
  have c: "bit c n \<longleftrightarrow> n < 7 \<and> bit v n \<or> n = 7" for n
    unfolding c_def m by (auto simp only: bit_unsigned_iff bit_or_iff bit_and_iff bit_mask_iff b) simp_all
  have "c AND 127 = ucast (take_bit 7 v)"
    unfolding m by (rule bit_word_eqI) (auto simp: bit_and_iff c bit_unsigned_iff bit_mask_iff bit_take_bit_iff)
  then show "unat (c AND 127) = unat v mod 128"
    by (simp add: unsigned_ucast_eq unsigned_take_bit_eq) (simp add: take_bit_eq_mod)
  have "bit c 7" by (simp add: c)
  then have "bit (unat c) 7" by (simp add: bit_unsigned_iff)
  then have "odd (unat c div 128)" by (simp add: bit_iff_odd)
  then have "128 \<le> unat c" by (metis div_less even_zero not_less)
  then show "c > 127" by (simp add: word_less_nat_alt)
qed

lemma and_127: "unat ((c :: u8) AND 127) = unat c mod 128"
proof -
  have "c AND 127 = take_bit 7 c" by (simp add: take_bit_eq_mask mask_eq_exp_minus_1)
  then show ?thesis by (simp add: unsigned_take_bit_eq) (simp add: take_bit_eq_mod)
qed

lemma unat_of_small:
  assumes "20 < LENGTH('a)" "n \<le> HPACK_INT_LIMIT"
  shows "unat (of_nat n :: 'a::len word) = n"
proof -
  have "(2 :: nat) ^ 21 \<le> 2 ^ LENGTH('a)" using assms(1) by (intro power_increasing) simp_all
  with assms(2) have "n < 2 ^ LENGTH('a)" by simp
  then show ?thesis by (simp add: unsigned_of_nat take_bit_nat_eq_self)
qed

lemma flexible_step:
  fixes x :: "'a::len word" and c :: u8
  assumes "20 < LENGTH('a)" "m \<le> 20" "unat x + unat (c AND 127) * 2 ^ m \<le> HPACK_INT_LIMIT"
  shows "flexible_loop x m (c # src) =
    (let x = of_nat (unat x + unat (c AND 127) * 2 ^ m) in
     if c > 127 then flexible_loop x (m + 7) src else Some (Flex_Done x src))"
proof -
  let ?d = "push_bit m (ucast (c AND 127) :: u32)" and ?n = "unat (c AND 127) * 2 ^ m"
  have u: "unat (ucast (c AND 127) :: u32) = unat (c AND 127)"
    using unsigned_less [of "c AND 127", where 'a = nat] by (simp add: unsigned_ucast_eq take_bit_nat_eq_self)
  have "?n < 2 ^ 32" using assms(3) by simp
  then have d: "unat ?d = ?n"
    by (subst unsigned_push_bit_eq) (simp add: u push_bit_eq_mult take_bit_nat_eq_self)
  have "x + ucast ?d = of_nat (unat x) + of_nat (unat ?d)" by simp
  then have "x + ucast ?d = of_nat (unat x + ?n)" unfolding d of_nat_add .
  moreover have "unat (of_nat (unat x + ?n) :: 'a word) = unat x + ?n"
    by (rule unat_of_small [OF assms(1,3)])
  ultimately show ?thesis using assms(2,3) by (simp add: Let_def del: of_nat_add)
qed

lemma flexible_write:
  fixes x :: "'a::len word"
  assumes "20 < LENGTH('a)"
  shows "m \<le> 20 \<Longrightarrow> unat x + unat v * 2 ^ m \<le> HPACK_INT_LIMIT \<Longrightarrow>
    flexible_loop x m (write_int_loop v @ src) = Some (Flex_Done (of_nat (unat x + unat v * 2 ^ m)) src)"
proof (induction v arbitrary: x m rule: write_int_loop.induct)
  case (1 v)
  show ?case
  proof (cases "v > 0x7F")
    case True
    let ?c = "ucast ((v AND 0x7F) OR 0x80) :: u8" and ?x = "of_nat (unat x + unat v mod 128 * 2 ^ m) :: 'a word"
    have split: "unat v * 2 ^ m = unat v mod 128 * 2 ^ m + unat (drop_bit 7 v) * 2 ^ (m + 7)"
    proof -
      have "unat v * 2 ^ m = (unat v mod 128 + unat v div 128 * 128) * 2 ^ m" unfolding mod_div_mult_eq ..
      then show ?thesis unfolding unat_drop_bit distrib_right by (simp add: power_add)
    qed
    note c = low_bits [of v]
    have "1 \<le> unat (drop_bit 7 v)" using True unfolding unat_drop_bit by (simp add: word_less_nat_alt) 
    then have "2 ^ (m + 7) \<le> unat (drop_bit 7 v) * 2 ^ (m + 7)" by simp
    also have "\<dots> \<le> 2 ^ 20" using "1.prems"(2) split by simp
    finally have m: "m + 7 \<le> 20" by (rule power_le_imp_le_exp [rotated]) simp
    have x: "unat ?x = unat x + unat v mod 128 * 2 ^ m"
      by (rule unat_of_small [OF assms]) (use "1.prems"(2) split in simp)
    have "flexible_loop x m (write_int_loop v @ src) = flexible_loop ?x (m + 7) (write_int_loop (drop_bit 7 v) @ src)"
      using True c flexible_step [OF assms "1.prems"(1), of x ?c] "1.prems"(2) split
      by (subst write_int_loop.simps) simp
    also have "\<dots> = Some (Flex_Done (of_nat (unat ?x + unat (drop_bit 7 v) * 2 ^ (m + 7))) src)"
      by (rule "1.IH" [OF True m]) (use "1.prems"(2) split x in simp)
    finally show ?thesis unfolding x split by (simp add: add.assoc)
  next
    case False
    then have "unat v < 128" by (simp add: word_less_nat_alt)
    then have c: "unat (ucast v :: u8) = unat v" by (simp add: unsigned_ucast_eq take_bit_nat_eq_self)
    then have c': "\<not> (ucast v :: u8) > 127" "unat ((ucast v :: u8) AND 127) = unat v"
      using \<open>unat v < 128\<close> and_127 [of "ucast v"] by (simp_all add: word_less_nat_alt)
    show ?thesis
      using flexible_step [OF assms "1.prems"(1), of x "ucast v"] "1.prems"(2) c' False
      by (subst write_int_loop.simps) simp
  qed
qed

section \<open>Fragments\<close>

lemma flexible_append:
  "flexible_loop x m (p @ q) =
     (case flexible_loop x m p of
        None \<Rightarrow> None
      | Some (Flex_More x m) \<Rightarrow> flexible_loop x m q
      | Some (Flex_Done x src) \<Rightarrow> Some (Flex_Done x (src @ q))
      | Some Flex_Error \<Rightarrow> Some Flex_Error)"
  by (induction x m p rule: flexible_loop.induct) (auto simp: Let_def)

lemma flexible_done_suffix: "flexible_loop x m p = Some (Flex_Done y r) \<Longrightarrow> length r < length p"
  by (induction x m p rule: flexible_loop.induct) (auto simp: Let_def split: if_splits)

text \<open>An integer cut in two is decoded in two steps.\<close>

lemma flexible_cut:
  assumes "\<And>src. flexible_loop x 0 (p @ q @ src) = Some (Flex_Done y src)" "q \<noteq> []"
  obtains x' m where "flexible_loop x 0 p = Some (Flex_More x' m)"
    "\<And>src. flexible_loop x' m (q @ src) = Some (Flex_Done y src)"
proof (cases "flexible_loop x 0 p")
  case None
  with assms(1) [of "[]"] show ?thesis by (simp add: flexible_append)
next
  case (Some res)
  show ?thesis
  proof (cases res)
    case (Flex_Done z r)
    with Some assms(1) [of "[]"] have "r @ q = []" by (simp add: flexible_append)
    with assms(2) show ?thesis by simp
  next
    case (Flex_More x' m)
    with Some assms(1) that show ?thesis by (simp add: flexible_append)
  next
    case Flex_Error
    with Some assms(1) [of "[]"] show ?thesis by (simp add: flexible_append)
  qed
qed

section \<open>Sizes\<close>

lemma int_size_loop_length: "int_size_loop v n + 1 = n + of_nat (length (write_int_loop v))"
proof (induction v n rule: int_size_loop.induct)
  case (1 v n)
  then show ?case by (subst int_size_loop.simps, subst write_int_loop.simps) simp
qed

lemma int_size_length: "tfw_hpack_int_size v mx = of_nat (length (write_int_bytes v mx msk))"
  using int_size_loop_length [of "v - ucast mx" 2]
  by (auto simp: tfw_hpack_int_size_def write_int_bytes_def algebra_simps)

lemma write_int_loop_length: "length (write_int_loop v) \<le> 2 \<longleftrightarrow> unat v < 2 ^ 14"
proof -
  have l: "length (write_int_loop v) \<le> 1 \<longleftrightarrow> unat v < 128" for v
    by (subst write_int_loop.simps, subst write_int_loop.simps) (simp add: word_less_nat_alt not_less)
  show ?thesis
  proof (cases "v > 0x7F")
    case True
    then have "length (write_int_loop v) = Suc (length (write_int_loop (drop_bit 7 v)))"
      by (subst write_int_loop.simps) simp
    with l [of "drop_bit 7 v"] show ?thesis by (simp add: unat_drop_bit div_less_iff_less_mult)
  next
    case False
    with l [of v] show ?thesis by (simp add: word_less_nat_alt not_less)
  qed
qed

end
