(* ===== verification/H2_Xmit.thy ===== *)
theory H2_Xmit
  imports H2_Frame Hpack_Int
begin

unbundle bit_operations_syntax

text \<open>
  The transmission of responses: \<^verbatim>\<open>tfw_h2_make_frames()\<close> and the machine of
  \<^verbatim>\<open>tfw_h2_stream_xmit_process()\<close> (\<^verbatim>\<open>src/fw/http_frame.c\<close>), the preparation of a response and the hand over
  of buffers to the socket (\<^verbatim>\<open>src/fw/http2.c\<close>, \<^verbatim>\<open>src/fw/sock.c\<close>), and
  \<^verbatim>\<open>tfw_connection_fill_sk_write_queue()\<close> (\<^verbatim>\<open>src/fw/connection.c\<close>).

  The encoder of headers and trailers, the cut of chunked bodies and the allocation of room in a
  buffer are parameters: functions from the buffers of the response to a result and the new
  buffers.  The number of calls made so far selects the outcome of an allocation.
\<close>

section \<open>Data\<close>

record h2_resp =
  rp_head_only :: bool
  rp_trailers :: bool
  rp_chunked :: bool
  rp_body_len :: u64
  rp_encode :: "sk_buff list \<Rightarrow> rc \<times> sk_buff list \<times> u64"
  rp_chop :: "sk_buff list \<Rightarrow> rc \<times> sk_buff list"
  rp_encode_trailers :: "sk_buff list \<Rightarrow> rc \<times> sk_buff list \<times> u64"
  rp_cutoff :: "sk_buff list \<Rightarrow> rc \<times> sk_buff list"

record xmit_env =
  xe_resp :: "sid \<Rightarrow> h2_resp"
  xe_headroom :: "nat \<Rightarrow> rc"
  xe_split :: "nat \<Rightarrow> bool"
  xe_room :: "nat \<Rightarrow> u32 \<Rightarrow> sk_buff list \<Rightarrow> rc \<times> sk_buff list"
  xe_tls_max_payload :: u64

text \<open>
  The state of a run: the context, the rest of the send window, \<^verbatim>\<open>*stop\<close>, the write queue of the
  connection, the lengths of the buffers handed to the socket, and a log of the frames made,
  each with the windows of the connection and of the stream and with the largest frame the client
  accepts, as they were at that moment.
\<close>

record made_frame =
  mf_hdr :: TfwFrameHdr
  mf_conn_wnd :: int
  mf_stream_wnd :: int
  mf_max_frame_sz :: u32

record xmit_st =
  xs_ctx :: TfwH2Ctx
  xs_snd_wnd :: u64
  xs_stop :: bool
  xs_write_queue :: "sk_buff list"
  xs_sock :: "u32 list"
  xs_made :: "made_frame list"
  xs_calls :: nat

definition xmit_of :: "sid \<Rightarrow> xmit_st \<Rightarrow> TfwHttpXmit" where
  "xmit_of s st = st_xmit (strm (xs_ctx st) s)"

definition upd_ctx :: "(TfwH2Ctx \<Rightarrow> TfwH2Ctx) \<Rightarrow> xmit_st \<Rightarrow> xmit_st" where
  "upd_ctx f st = st\<lparr>xs_ctx := f (xs_ctx st)\<rparr>"

definition upd_xmit :: "sid \<Rightarrow> (TfwHttpXmit \<Rightarrow> TfwHttpXmit) \<Rightarrow> xmit_st \<Rightarrow> xmit_st" where
  "upd_xmit s f = upd_ctx (put_strm s (\<lambda>t. t\<lparr>st_xmit := f (st_xmit t)\<rparr>))"

section \<open>Preparation of a response\<close>

fun ss_skb_setup_head_of_list :: "sk_buff list \<Rightarrow> sk_buff list option" where
  "ss_skb_setup_head_of_list [] = None"
| "ss_skb_setup_head_of_list (b # bs) = Some (b\<lparr>sk_is_head := True\<rparr> # bs)"

definition prepare_body :: "h2_resp \<Rightarrow> u64 \<Rightarrow> sk_buff list \<Rightarrow> TfwHttpXmit \<Rightarrow> rc \<times> sk_buff list \<times> TfwHttpXmit" where
  "prepare_body R acc bs x =
     (let (r, bs, acc') = (if rp_trailers R then rp_encode_trailers R bs else (T_OK, bs, acc)) in
      if r \<noteq> T_OK then (r, bs, x)
      else
        let x = (if rp_trailers R then x\<lparr>x_t_len := ucast (acc' - acc)\<rparr> else x);
            x = x\<lparr>x_b_len := ucast (rp_body_len R)\<rparr> in
        if rp_chunked R then (case rp_cutoff R bs of (r, bs) \<Rightarrow> (r, bs, x)) else (T_OK, bs, x))"

definition tfw_h2_stream_xmit_prepare_resp :: "h2_resp \<Rightarrow> TfwHttpXmit \<Rightarrow> (rc \<times> TfwHttpXmit) option" where
  "tfw_h2_stream_xmit_prepare_resp R x =
     (if \<not> x_resp x \<or> x_skb_head x = [] then None
      else
        let (r, bs, acc) = rp_encode R (x_skb_head x);
            (r, bs, x) =
              (if r \<noteq> T_OK then (r, bs, x)
               else
                 let x = x\<lparr>x_h_len := ucast acc\<rparr> in
                 if rp_head_only R then (case rp_chop R bs of (r, bs) \<Rightarrow> (r, bs, x))
                 else prepare_body R acc bs x) in
        map_option (\<lambda>bs. (r, x\<lparr>x_skb_head := bs\<rparr>)) (ss_skb_setup_head_of_list bs))"

section \<open>Hand over to the socket\<close>

text \<open>
  The loop of \<^verbatim>\<open>tfw_h2_entail_stream_skb()\<close>.  The second component of the result says whether
  the function returned from within the loop; then come the bytes still to hand over, the
  buffers left, the socket and the number of calls.
\<close>

fun entail_loop ::
    "xmit_env \<Rightarrow> bool \<Rightarrow> u32 \<Rightarrow> sk_buff list \<Rightarrow> u32 list \<Rightarrow> nat \<Rightarrow>
     (rc \<times> bool \<times> u32 \<times> sk_buff list \<times> u32 list \<times> nat) option" where
  "entail_loop E split len [] q n = (if len = 0 then Some (T_OK, False, 0, [], q, n) else None)"
| "entail_loop E split len (b # bs) q n =
     (if len = 0 then Some (T_OK, False, 0, b # bs, q, n)
      else if sk_len b = 0 then entail_loop E split len bs q n
      else if xe_headroom E n \<noteq> T_OK then Some (xe_headroom E n, True, len, b # bs, q, Suc n)
      else if sk_len b > len then
        (if \<not> split then Some (T_OK, False, len, b # bs, q, Suc n)
         else if \<not> xe_split E (Suc n) then Some (ENOMEM, False, len, b # bs, q, Suc (Suc n))
         else Some (T_OK, False, 0,
                \<lparr>sk_len = sk_len b - len, sk_is_head = False, sk_settings_ack = False\<rparr> # bs,
                q @ [len], Suc (Suc n)))
      else entail_loop E split (len - sk_len b) bs (q @ [sk_len b]) (Suc n))"

definition mark_head :: "sk_buff list \<Rightarrow> sk_buff list" where
  "mark_head bs = (case bs of [] \<Rightarrow> [] | b # bs \<Rightarrow> b\<lparr>sk_is_head := True\<rparr> # bs)"

definition tfw_h2_entail_stream_skb :: "xmit_env \<Rightarrow> sid \<Rightarrow> bool \<Rightarrow> xmit_st \<Rightarrow> (rc \<times> xmit_st) option" where
  "tfw_h2_entail_stream_skb E s should_split st =
     (case x_skb_head (xmit_of s st) of
        [] \<Rightarrow> None
      | b # bs \<Rightarrow>
          if \<not> sk_is_head b \<or> sk_settings_ack b then Some (EINVAL, st)
          else do {
            (r, early, len, bs, q, n) \<leftarrow>
              entail_loop E should_split (x_frame_length (xmit_of s st)) (b # bs) (xs_sock st) (xs_calls st);
            Some (r, upd_xmit s
              (\<lambda>x. x\<lparr>x_frame_length := len, x_skb_head := (if early then bs else mark_head bs)\<rparr>)
              (st\<lparr>xs_sock := q, xs_calls := n\<rparr>))
          })"

text \<open>
  \<^verbatim>\<open>ss_skb_tcp_entail_list()\<close> on a list \<open>bs\<close>; the caller stores what is left of it.  An acknowledgement
  of settings applies them when it enters the socket; the hook never asks to skip its list.
\<close>

fun entail_list_loop :: "xmit_env \<Rightarrow> sk_buff list \<Rightarrow> xmit_st \<Rightarrow> (rc \<times> bool \<times> sk_buff list \<times> xmit_st) option" where
  "entail_list_loop E [] st = Some (T_OK, False, [], st)"
| "entail_list_loop E (b # bs) st =
     (if xs_snd_wnd st = 0 then Some (T_OK, False, b # bs, st)
      else do {
        c \<leftarrow> (if sk_is_head b \<and> sk_settings_ack b then tfw_h2_on_tcp_entail_setting_ack (xs_ctx st)
             else Some (xs_ctx st));
        let st = st\<lparr>xs_ctx := c\<rparr>;
        if sk_len b = 0 then entail_list_loop E bs st
        else
          let r = xe_headroom E (xs_calls st);
              st = st\<lparr>xs_calls := Suc (xs_calls st)\<rparr> in
          if r \<noteq> T_OK then Some (r, True, bs, st)
          else entail_list_loop E bs
            (st\<lparr>xs_snd_wnd := (if xs_snd_wnd st > ucast (sk_len b) then xs_snd_wnd st - ucast (sk_len b) else 0),
                xs_sock := xs_sock st @ [sk_len b]\<rparr>)
      })"

definition ss_skb_tcp_entail_list :: "xmit_env \<Rightarrow> sk_buff list \<Rightarrow> xmit_st \<Rightarrow> (rc \<times> sk_buff list \<times> xmit_st) option" where
  "ss_skb_tcp_entail_list E bs st =
     map_option (\<lambda>(r, early, bs, st). (r, if early then bs else mark_head bs, st)) (entail_list_loop E bs st)"

text \<open>
  \<^verbatim>\<open>tfw_h2_stream_send_postponed()\<close> on the list \<open>bs\<close>; returned is what is left in the list.  The
  splice of an empty list onto a queue that is not empty reads through a null pointer.
\<close>

definition tfw_h2_stream_send_postponed ::
    "xmit_env \<Rightarrow> sk_buff list \<Rightarrow> xmit_st \<Rightarrow> (rc \<times> sk_buff list \<times> xmit_st) option" where
  "tfw_h2_stream_send_postponed E bs st = do {
     (r, bs, st) \<leftarrow> (if xs_write_queue st = [] then ss_skb_tcp_entail_list E bs st else Some (T_OK, bs, st));
     if r \<noteq> T_OK then Some (r, bs, st)
     else if xs_write_queue st \<noteq> [] \<and> bs = [] then None
     else
       let st = st\<lparr>xs_write_queue := xs_write_queue st @ bs\<rparr> in
       Some (T_OK, [],
         if xs_write_queue st \<noteq> [] then upd_ctx (\<lambda>c. c\<lparr>cx_has_data := True\<rparr>) st else st)
   }"

section \<open>Frame headers\<close>

definition tfw_h2_calc_frame_length :: "TfwH2Ctx \<Rightarrow> sid \<Rightarrow> u8 \<Rightarrow> u32 \<Rightarrow> u32 \<Rightarrow> u32" where
  "tfw_h2_calc_frame_length c s ty len max_len =
     (let length = min (s_max_frame_sz (cx_rsettings c)) (min len max_len) in
      if ty = HTTP2_DATA then
        min length (min (word_of_int (cx_rem_wnd c)) (word_of_int (st_rem_wnd (strm c s))))
      else length)"

definition tfw_h2_calc_frame_flags :: "TfwStream \<Rightarrow> u8 \<Rightarrow> bool \<Rightarrow> u8" where
  "tfw_h2_calc_frame_flags t ty trailers =
     (let x = st_xmit t in
      (if x_b_len x = 0 \<and> x_t_len x = 0 \<and> (ty = HTTP2_HEADERS \<or> ty = HTTP2_DATA)
          \<and> \<not> tfw_h2_stream_is_eos_sent (st_state t) then HTTP2_F_END_STREAM else 0)
      OR (if x_b_len x = 0 \<and> x_t_len x \<noteq> 0 \<and> ty = HTTP2_HEADERS \<and> trailers then HTTP2_F_END_STREAM else 0)
      OR (if x_h_len x = 0 \<and> ty \<noteq> HTTP2_DATA \<and> \<not> trailers then HTTP2_F_END_HEADERS else 0)
      OR (if x_t_len x = 0 \<and> ty \<noteq> HTTP2_DATA \<and> trailers then HTTP2_F_END_HEADERS else 0))"

text \<open>The first buffer must hold the byte at the offset.\<close>

definition ss_skb_data_ptr_by_offset :: "sk_buff list \<Rightarrow> u32 \<Rightarrow> bool" where
  "ss_skb_data_ptr_by_offset bs off = (case bs of [] \<Rightarrow> False | b # _ \<Rightarrow> off < sk_len b)"

definition frame_room :: "xmit_env \<Rightarrow> sid \<Rightarrow> u32 \<Rightarrow> xmit_st \<Rightarrow> rc \<times> xmit_st" where
  "frame_room E s n st =
     (case xe_room E (xs_calls st) n (x_skb_head (xmit_of s st)) of
        (r, bs) \<Rightarrow> (r, upd_xmit s (\<lambda>x. x\<lparr>x_skb_head := bs\<rparr>) (st\<lparr>xs_calls := Suc (xs_calls st)\<rparr>)))"

text \<open>The bytes of the frame leave the windows and the lengths of the response.\<close>

definition account_frame :: "sid \<Rightarrow> u8 \<Rightarrow> u32 \<Rightarrow> TfwH2Ctx \<Rightarrow> bool \<times> TfwH2Ctx" where
  "account_frame s ty n c =
     (let x = st_xmit (strm c s) in
      if ty = HTTP2_DATA then
        (False, put_strm s (\<lambda>t. t\<lparr>st_rem_wnd := st_rem_wnd t - uint n,
                                 st_xmit := x\<lparr>x_b_len := x_b_len x - ucast n\<rparr>\<rparr>)
          (c\<lparr>cx_rem_wnd := cx_rem_wnd c - uint n, cx_data_bytes_sent := cx_data_bytes_sent c + ucast n\<rparr>))
      else if x_h_len x \<noteq> 0 then (False, put_strm s (\<lambda>t. t\<lparr>st_xmit := x\<lparr>x_h_len := x_h_len x - n\<rparr>\<rparr>) c)
      else if x_t_len x \<noteq> 0 then (True, put_strm s (\<lambda>t. t\<lparr>st_xmit := x\<lparr>x_t_len := x_t_len x - n\<rparr>\<rparr>) c)
      else (False, c))"

text \<open>
  The stream refuses the frame: send the frames made before, if there are any, and drop the rest
  of the response.
\<close>

definition purge_refused :: "xmit_env \<Rightarrow> sid \<Rightarrow> u32 \<Rightarrow> xmit_st \<Rightarrow> (rc \<times> xmit_st) option" where
  "purge_refused E s n st = do {
     let st = upd_xmit s (\<lambda>x. x\<lparr>x_frame_length := x_frame_length x - (n + 9)\<rparr>) st;
     (r, st) \<leftarrow> (if x_frame_length (xmit_of s st) \<noteq> 0 then tfw_h2_entail_stream_skb E s True st else Some (T_OK, st));
     let st = upd_xmit s (\<lambda>x. x\<lparr>x_frame_length := x_frame_length x + (n + 9)\<rparr>) st;
     t \<leftarrow> tfw_h2_stream_purge_send_queue (strm (xs_ctx st) s);
     Some (r, upd_ctx (put_strm s (\<lambda>_. t)) st)
   }"

definition log_frame :: "sid \<Rightarrow> TfwFrameHdr \<Rightarrow> TfwH2Ctx \<Rightarrow> made_frame" where
  "log_frame s hdr c =
     \<lparr>mf_hdr = hdr, mf_conn_wnd = cx_rem_wnd c, mf_stream_wnd = st_rem_wnd (strm c s),
      mf_max_frame_sz = s_max_frame_sz (cx_rsettings c)\<rparr>"

definition tfw_h2_insert_frame_header ::
    "xmit_env \<Rightarrow> sid \<Rightarrow> u8 \<Rightarrow> u32 \<Rightarrow> xmit_st \<Rightarrow> (rc \<times> xmit_st) option" where
  "tfw_h2_insert_frame_header E s ty n st =
     (let x = xmit_of s st;
          st = (if ty = HTTP2_CONTINUATION \<or> ty = HTTP2_DATA \<or> x_h_len x = 0
                then upd_xmit s (\<lambda>x. x\<lparr>x_skb_head := dropWhile (\<lambda>b. sk_len b = 0) (x_skb_head x)\<rparr>) st
                else st) in
      if \<not> ss_skb_data_ptr_by_offset (x_skb_head (xmit_of s st)) (x_frame_length x) then None
      else
        let (r, st) = (if ty = HTTP2_CONTINUATION \<or> ty = HTTP2_DATA then frame_room E s 9 st else (T_OK, st)) in
        if r \<noteq> T_OK then Some (r, st)
        else
          let (trailers, c) = account_frame s ty n (xs_ctx st);
              flags = tfw_h2_calc_frame_flags (strm c s) ty trailers;
              hdr = \<lparr>h_length = uint n, h_stream_id = s, h_type = ty, h_flags = flags\<rparr>;
              st = upd_xmit s (\<lambda>x. x\<lparr>x_frame_length := x_frame_length x + (n + 9)\<rparr>)
                (st\<lparr>xs_ctx := c,
                    xs_made := xs_made st @ [log_frame s hdr (xs_ctx st)]\<rparr>) in do {
            (res, c) \<leftarrow> tfw_h2_stream_fsm_ignore_err (Some s) ty flags (xs_ctx st);
            let st = st\<lparr>xs_ctx := c\<rparr>;
            (case res of
               STREAM_FSM_RES_OK \<Rightarrow> Some (T_OK, st)
             | STREAM_FSM_RES_TERM_CONN \<Rightarrow> Some (EPIPE, st)
             | _ \<Rightarrow> purge_refused E s n st)
          })"

text \<open>The update of the table size goes behind the first frame header.\<close>

definition tfw_hpack_enc_tbl_write_sz :: "xmit_env \<Rightarrow> sid \<Rightarrow> xmit_st \<Rightarrow> (rc \<times> xmit_st) option" where
  "tfw_hpack_enc_tbl_write_sz E s st = do {
     bs \<leftarrow> write_int (ucast (cx_enc_window (xs_ctx st))) 0x1F 0x20;
     if \<not> ss_skb_data_ptr_by_offset (x_skb_head (xmit_of s st)) 9 then None
     else
       case frame_room E s (of_nat (length bs)) st of
         (r, st) \<Rightarrow>
           Some (if r \<noteq> T_OK then (r, st)
                 else (T_OK, upd_ctx (\<lambda>c. c\<lparr>cx_enc_wnd_changed := False\<rparr>)
                               (upd_xmit s (\<lambda>x. x\<lparr>x_h_len := x_h_len x + of_nat (length bs)\<rparr>) st)))
   }"

section \<open>The machine of a stream\<close>

text \<open>A state jumps to another one, leaves the machine, or returns from the function.\<close>

datatype xmit_ctl = Xmit_Jump TfwStreamXmitState | Xmit_Exit | Xmit_Return rc

definition ADJUST_BLOCKED_STREAMS_AND_EXIT :: "sid \<Rightarrow> u32 \<Rightarrow> u8 \<Rightarrow> xmit_st \<Rightarrow> (xmit_ctl \<times> xmit_st) option" where
  "ADJUST_BLOCKED_STREAMS_AND_EXIT s len ty st =
     (if x_is_blocked (xmit_of s st) then None
      else
        let blocked = (ty = HTTP2_DATA \<and> st_rem_wnd (strm (xs_ctx st) s) \<le> uint len) in
        Some (Xmit_Exit,
          (upd_ctx (upd_sched (\<lambda>S. S\<lparr>sc_blocked_streams := sc_blocked_streams S + of_bool blocked\<rparr>))
            (upd_xmit s (\<lambda>x. x\<lparr>x_is_blocked := blocked\<rparr>) st))\<lparr>xs_stop := True\<rparr>))"

text \<open>\<open>Inl\<close> leaves the machine, \<open>Inr\<close> is the length of the frame to make.\<close>

definition CALC_FRAME_LENGTH ::
    "xmit_env \<Rightarrow> sid \<Rightarrow> u32 \<Rightarrow> u8 \<Rightarrow> u32 \<Rightarrow> xmit_st \<Rightarrow> ((xmit_ctl \<times> xmit_st) + u32) option" where
  "CALC_FRAME_LENGTH E s min_to_send ty len st =
     (let c = xs_ctx st; ovh = ucast (e_tls_max_overhead (cx_env c)) in
      if xs_snd_wnd st \<le> 9 + ovh then Some (Inl (Xmit_Exit, st\<lparr>xs_stop := True\<rparr>))
      else
        let max_len = ucast (min (xe_tls_max_payload E) (xs_snd_wnd st - ovh)) - 9;
            min_len = min min_to_send len;
            n = tfw_h2_calc_frame_length c s ty len max_len in
        if n < min_len then map_option Inl (ADJUST_BLOCKED_STREAMS_AND_EXIT s min_len ty st)
        else Some (Inr n))"

definition FRAME_XMIT_FSM_NEXT :: "u32 \<Rightarrow> TfwStreamXmitState \<Rightarrow> xmit_st \<Rightarrow> xmit_ctl \<times> xmit_st" where
  "FRAME_XMIT_FSM_NEXT n state st =
     (Xmit_Jump state, st\<lparr>xs_snd_wnd := xs_snd_wnd st - ucast (n + 9)\<rparr>)"

text \<open>What the states that make a frame have in common; \<open>prep\<close> runs before the header is inserted.\<close>

definition make_frame ::
    "xmit_env \<Rightarrow> sid \<Rightarrow> u32 \<Rightarrow> u8 \<Rightarrow> u32 \<Rightarrow> (xmit_st \<Rightarrow> (rc \<times> xmit_st) option) \<Rightarrow> xmit_st \<Rightarrow>
     (xmit_ctl \<times> xmit_st) option" where
  "make_frame E s min_to_send ty len prep st = do {
     l \<leftarrow> CALC_FRAME_LENGTH E s min_to_send ty len st;
     (case l of
        Inl out \<Rightarrow> Some out
      | Inr n \<Rightarrow> do {
          (r, st) \<leftarrow> prep st;
          if r \<noteq> T_OK then Some (Xmit_Return r, st)
          else do {
            (r, st) \<leftarrow> tfw_h2_insert_frame_header E s ty n st;
            if r \<noteq> T_OK then Some (Xmit_Return r, st)
            else
              let st = (if ty = HTTP2_DATA
                        then upd_ctx (\<lambda>c. c\<lparr>cx_data_frames_sent := cx_data_frames_sent c + 1\<rparr>) st else st) in
              Some (FRAME_XMIT_FSM_NEXT n HTTP2_SEND_FRAMES st)
          }
        })
   }"

definition xmit_encode_headers :: "xmit_env \<Rightarrow> sid \<Rightarrow> xmit_st \<Rightarrow> (rc \<times> xmit_st) option" where
  "xmit_encode_headers E s st =
     map_option (\<lambda>(r, x). (r, upd_xmit s (\<lambda>_. x) st))
       (tfw_h2_stream_xmit_prepare_resp (xe_resp E s) (xmit_of s st))"

definition xmit_release_response :: "rc \<Rightarrow> sid \<Rightarrow> xmit_st \<Rightarrow> (xmit_ctl \<times> xmit_st) option" where
  "xmit_release_response r s st =
     (if \<not> x_resp (xmit_of s st) then None
      else
        let st = upd_xmit s (\<lambda>x. x\<lparr>x_resp := False\<rparr>) st in
        Some (if r \<noteq> T_OK then Xmit_Return r else Xmit_Jump HTTP2_MAKE_HEADERS_FRAMES, st))"

definition xmit_make_headers :: "xmit_env \<Rightarrow> sid \<Rightarrow> u32 \<Rightarrow> xmit_st \<Rightarrow> (xmit_ctl \<times> xmit_st) option" where
  "xmit_make_headers E s min_to_send st =
     make_frame E s min_to_send HTTP2_HEADERS (x_h_len (xmit_of s st))
       (\<lambda>st. if cx_enc_wnd_changed (xs_ctx st) then tfw_hpack_enc_tbl_write_sz E s st else Some (T_OK, st)) st"

definition xmit_make_data :: "xmit_env \<Rightarrow> sid \<Rightarrow> u32 \<Rightarrow> xmit_st \<Rightarrow> (xmit_ctl \<times> xmit_st) option" where
  "xmit_make_data E s min_to_send st =
     (if tfw_h2_conn_or_stream_wnd_is_exceeded s (xs_ctx st)
      then ADJUST_BLOCKED_STREAMS_AND_EXIT s 0 HTTP2_DATA st
      else make_frame E s min_to_send HTTP2_DATA (ucast (x_b_len (xmit_of s st))) (\<lambda>st. Some (T_OK, st)) st)"

text \<open>Send the frames postponed while the header block was open.\<close>

definition xmit_send_postponed :: "xmit_env \<Rightarrow> sid \<Rightarrow> xmit_st \<Rightarrow> (rc \<times> xmit_st) option" where
  "xmit_send_postponed E s st =
     map_option (\<lambda>(r, bs, st). (r, upd_xmit s (\<lambda>x. x\<lparr>x_postponed := bs\<rparr>) st))
       (tfw_h2_stream_send_postponed E (x_postponed (xmit_of s st)) st)"

definition xmit_send_frames :: "xmit_env \<Rightarrow> sid \<Rightarrow> bool \<Rightarrow> xmit_st \<Rightarrow> (xmit_ctl \<times> xmit_st) option" where
  "xmit_send_frames E s is_trailer_cont st = do {
     (r, st) \<leftarrow> (if x_frame_length (xmit_of s st) \<noteq> 0 then tfw_h2_entail_stream_skb E s False st else Some (T_OK, st));
     if r \<noteq> T_OK then Some (Xmit_Return r, st)
     else if x_h_len (xmit_of s st) \<noteq> 0 then Some (Xmit_Jump HTTP2_MAKE_CONTINUATION_FRAMES, st)
     else do {
       (r, st) \<leftarrow>
         (if x_postponed (xmit_of s st) \<noteq> [] \<and> x_frame_length (xmit_of s st) = 0
             \<and> cx_cur_send_headers (xs_ctx st) = None
          then xmit_send_postponed E s st else Some (T_OK, st));
       if r \<noteq> T_OK then Some (Xmit_Return r, st)
       else Some
         (Xmit_Jump
            (if x_b_len (xmit_of s st) \<noteq> 0 then HTTP2_MAKE_DATA_FRAMES
             else if x_t_len (xmit_of s st) \<noteq> 0 then
               (if \<not> is_trailer_cont then HTTP2_MAKE_TRAILER_FRAMES
                else HTTP2_MAKE_TRAILER_CONTINUATION_FRAMES)
             else HTTP2_MAKE_FRAMES_FINISH), st)
     }
   }"

definition xmit_finish :: "xmit_env \<Rightarrow> sid \<Rightarrow> bool \<Rightarrow> xmit_st \<Rightarrow> (xmit_ctl \<times> xmit_st) option" where
  "xmit_finish E s stream_is_exclusive st =
     (if x_resp (xmit_of s st) then None
      else do {
        (r, st) \<leftarrow>
          (if x_skb_head (xmit_of s st) \<noteq> [] then
             map_option (\<lambda>(r, bs, st). (r, upd_xmit s (\<lambda>x. x\<lparr>x_skb_head := bs\<rparr>) st))
               (tfw_h2_stream_send_postponed E (x_skb_head (xmit_of s st)) st)
           else Some (T_OK, st));
        if r \<noteq> T_OK then Some (Xmit_Return r, st)
        else
          let st = upd_ctx (\<lambda>c. c\<lparr>cx_error := (if cx_error c = Some s then None else cx_error c)\<rparr>) st in
          Some (Xmit_Exit, if stream_is_exclusive then st else upd_ctx (tfw_h2_stream_add_closed s) st)
      })"

fun xmit_state ::
    "xmit_env \<Rightarrow> sid \<Rightarrow> bool \<Rightarrow> u32 \<Rightarrow> bool \<Rightarrow> TfwStreamXmitState \<Rightarrow> xmit_st \<Rightarrow> (xmit_ctl \<times> xmit_st) option" where
  "xmit_state E s excl mts tc HTTP2_ENCODE_HEADERS st = do {
     (r, st) \<leftarrow> xmit_encode_headers E s st;
     xmit_release_response r s st
   }"
| "xmit_state E s excl mts tc HTTP2_RELEASE_RESPONSE st = xmit_release_response T_OK s st"
| "xmit_state E s excl mts tc HTTP2_MAKE_HEADERS_FRAMES st = xmit_make_headers E s mts st"
| "xmit_state E s excl mts tc HTTP2_MAKE_CONTINUATION_FRAMES st =
     make_frame E s mts HTTP2_CONTINUATION (x_h_len (xmit_of s st)) (\<lambda>st. Some (T_OK, st)) st"
| "xmit_state E s excl mts tc HTTP2_MAKE_DATA_FRAMES st = xmit_make_data E s mts st"
| "xmit_state E s excl mts tc HTTP2_MAKE_TRAILER_FRAMES st =
     make_frame E s mts HTTP2_HEADERS (x_t_len (xmit_of s st)) (\<lambda>st. Some (T_OK, st)) st"
| "xmit_state E s excl mts tc HTTP2_MAKE_TRAILER_CONTINUATION_FRAMES st =
     make_frame E s mts HTTP2_CONTINUATION (x_t_len (xmit_of s st)) (\<lambda>st. Some (T_OK, st)) st"
| "xmit_state E s excl mts tc HTTP2_SEND_FRAMES st = xmit_send_frames E s tc st"
| "xmit_state E s excl mts tc HTTP2_MAKE_FRAMES_FINISH st = xmit_finish E s excl st"

text \<open>The local \<^verbatim>\<open>is_trailer_cont\<close> is set by both states that make trailers.\<close>

definition trailer_cont :: "bool \<Rightarrow> TfwStreamXmitState \<Rightarrow> bool" where
  "trailer_cont tc state \<longleftrightarrow>
     tc \<or> state = HTTP2_MAKE_TRAILER_FRAMES \<or> state = HTTP2_MAKE_TRAILER_CONTINUATION_FRAMES"

text \<open>The result is the returned code, or the state in which the machine was left.\<close>

partial_function (option) xmit_loop ::
    "xmit_env \<Rightarrow> sid \<Rightarrow> bool \<Rightarrow> u32 \<Rightarrow> bool \<Rightarrow> TfwStreamXmitState \<Rightarrow> xmit_st \<Rightarrow>
     ((rc + TfwStreamXmitState) \<times> xmit_st) option" where
  [code]: "xmit_loop E s excl mts tc state st =
     Option.bind (xmit_state E s excl mts tc state st) (\<lambda>(ctl, st).
       case ctl of
         Xmit_Return r \<Rightarrow> Some (Inl r, st)
       | Xmit_Exit \<Rightarrow> Some (Inr state, st)
       | Xmit_Jump state' \<Rightarrow> xmit_loop E s excl mts (trailer_cont tc state) state' st)"

definition tfw_h2_stream_xmit_process ::
    "xmit_env \<Rightarrow> sid \<Rightarrow> bool \<Rightarrow> u32 \<Rightarrow> xmit_st \<Rightarrow> (rc \<times> xmit_st) option" where
  "tfw_h2_stream_xmit_process E s excl mss_now st = do {
     (out, st) \<leftarrow> xmit_loop E s excl (tfw_h2_calc_min_to_send (xs_ctx st) mss_now) False
       (x_state (xmit_of s st)) st;
     (case out of
        Inl r \<Rightarrow> Some (r, st)
      | Inr state \<Rightarrow>
          let st = upd_xmit s (\<lambda>x. x\<lparr>x_state := state\<rparr>) st in
          if x_frame_length (xmit_of s st) = 0 then Some (T_OK, st)
          else do {
            (r, st) \<leftarrow> tfw_h2_entail_stream_skb E s True st;
            if r \<noteq> T_OK then Some (r, st)
            else if x_postponed (xmit_of s st) \<noteq> [] \<and> cx_cur_send_headers (xs_ctx st) = None
            then xmit_send_postponed E s st
            else Some (T_OK, st)
          })
   }"

section \<open>All streams of a connection\<close>

definition xmit_pick :: "xmit_st \<Rightarrow> (sid \<times> xmit_st) option" where
  "xmit_pick st =
     (let c = xs_ctx st; S = cx_sched c in
      case cx_cur_send_headers c of
        Some s \<Rightarrow> if tfw_h2_stream_is_active S s then Some (s, st) else None
      | None \<Rightarrow>
          (case cx_error c of
             Some s \<Rightarrow>
               if tfw_h2_stream_is_active S s then Some (s, st\<lparr>xs_stop := True\<rparr>)
               else do { r \<leftarrow> tfw_h2_sched_get_most_prio_stream S; s \<leftarrow> r; Some (s, st) }
           | None \<Rightarrow> do { r \<leftarrow> tfw_h2_sched_get_most_prio_stream S; s \<leftarrow> r; Some (s, st) }))"

definition xmit_deactivate :: "sid \<Rightarrow> bool \<Rightarrow> TfwH2Ctx \<Rightarrow> TfwH2Ctx option" where
  "xmit_deactivate s excl c =
     (if tfw_h2_stream_is_active (cx_sched c) s then Some c
      else do {
        c \<leftarrow> on_sched (tfw_h2_sched_deactivate_stream s) c;
        if x_skb_head (st_xmit (strm c s)) \<noteq> [] then Some c
        else if excl then tfw_h2_stream_clean s c
        else do {
          p \<leftarrow> se_parent (sc_entry (cx_sched c) s);
          on_sched (tfw_h2_stream_sched_reinsert s p) c
        }
      })"

partial_function (option) make_frames_loop :: "xmit_env \<Rightarrow> u32 \<Rightarrow> rc \<Rightarrow> xmit_st \<Rightarrow> (rc \<times> xmit_st) option" where
  [code]: "make_frames_loop E mss_now r st =
     (if se_active_cnt (sc_entry (cx_sched (xs_ctx st)) sched_root) = 0 then Some (r, st)
      else
        Option.bind (xmit_pick st) (\<lambda>(s, st).
        Option.bind (tfw_h2_stream_is_exclusive s (cx_sched (xs_ctx st))) (\<lambda>excl.
        Option.bind (tfw_h2_stream_xmit_process E s excl mss_now st) (\<lambda>(r, st).
        Option.bind (xmit_deactivate s excl (xs_ctx st)) (\<lambda>c.
          let st = st\<lparr>xs_ctx := c\<rparr> in
          if xs_stop st \<or> r \<noteq> T_OK then Some (r, st) else make_frames_loop E mss_now r st)))))"

definition tfw_h2_make_frames :: "xmit_env \<Rightarrow> u32 \<Rightarrow> u64 \<Rightarrow> xmit_st \<Rightarrow> (rc \<times> xmit_st) option" where
  "tfw_h2_make_frames E mss_now snd_wnd st =
     make_frames_loop E mss_now T_OK (st\<lparr>xs_snd_wnd := snd_wnd, xs_stop := False\<rparr>)"

text \<open>
  \<^verbatim>\<open>tfw_connection_fill_sk_write_queue()\<close> for a connection with an HTTP/2 context.  \<open>shutdown\<close> is the
  flag \<^verbatim>\<open>Conn_Shutdown\<close>; the second component of the result says whether \<^verbatim>\<open>tcp_shutdown()\<close> is called.
\<close>

definition fill_after :: "bool \<Rightarrow> xmit_st \<Rightarrow> bool \<times> xmit_st" where
  "fill_after shutdown st =
     (if xs_write_queue st \<noteq> [] then (False, st)
      else
        let c = xs_ctx st in
        (shutdown \<and> (case cx_error c of None \<Rightarrow> True | Some s \<Rightarrow> tfw_h2_conn_or_stream_wnd_is_exceeded s c),
         if tfw_h2_is_ready_to_send c then st else upd_ctx (\<lambda>c. c\<lparr>cx_has_data := False\<rparr>) st))"

definition tfw_connection_fill_sk_write_queue ::
    "xmit_env \<Rightarrow> bool \<Rightarrow> u32 \<Rightarrow> u64 \<Rightarrow> xmit_st \<Rightarrow> (rc \<times> bool \<times> xmit_st) option" where
  "tfw_connection_fill_sk_write_queue E shutdown mss_now snd_wnd st = do {
     (r, bs, st) \<leftarrow> ss_skb_tcp_entail_list E (xs_write_queue st) (st\<lparr>xs_snd_wnd := snd_wnd\<rparr>);
     let st = st\<lparr>xs_write_queue := bs\<rparr>;
     if r \<noteq> T_OK then Some (r, False, st)
     else do {
       (r, st) \<leftarrow> (if xs_snd_wnd st \<noteq> 0 then tfw_h2_make_frames E mss_now (xs_snd_wnd st) st else Some (T_OK, st));
       Some (if r \<noteq> T_OK then (r, False, st) else (T_OK, fill_after shutdown st))
     }
   }"

end
