(* ===== verification/H2_Xmit_Flow.thy ===== *)
theory H2_Xmit_Flow
  imports H2_Xmit
begin

unbundle bit_operations_syntax

text \<open>
  Flow control of the transmitted frames: what a run of the transmit machine adds to the log of
  made frames and takes from the send window.
\<close>

text \<open>A frame within the limits of the client at the moment it was made.\<close>

definition made_ok :: "made_frame \<Rightarrow> bool" where
  "made_ok m \<longleftrightarrow> h_length (mf_hdr m) \<le> uint (mf_max_frame_sz m)
     \<and> (h_type (mf_hdr m) = HTTP2_DATA \<longrightarrow>
         h_length (mf_hdr m) \<le> mf_conn_wnd m \<and> h_length (mf_hdr m) \<le> mf_stream_wnd m)"

definition made_bytes :: "made_frame list \<Rightarrow> int" where
  "made_bytes ms = (\<Sum>m\<leftarrow>ms. h_length (mf_hdr m) + 9)"

text \<open>
  From \<open>st\<close> to \<open>st'\<close> only frames within the limits were made, and they fit into the part of the send
  window that was taken, except for \<open>d\<close> bytes not yet taken from it.
\<close>

definition flows :: "int \<Rightarrow> xmit_st \<Rightarrow> xmit_st \<Rightarrow> bool" where
  "flows d st st' \<longleftrightarrow> (\<exists>ms. xs_made st' = xs_made st @ ms \<and> list_all made_ok ms
     \<and> made_bytes ms \<le> uint (xs_snd_wnd st) - uint (xs_snd_wnd st') + d)"

lemma flows_refl [simp]: "flows 0 st st"
  by (auto simp: flows_def made_bytes_def)

lemma flows_trans: "flows d st st1 \<Longrightarrow> flows e st1 st2 \<Longrightarrow> flows (d + e) st st2"
  unfolding flows_def made_bytes_def by (elim exE conjE, rule exI) (auto simp: algebra_simps)

lemma flows_same:
  "xs_made st' = xs_made st \<Longrightarrow> uint (xs_snd_wnd st') \<le> uint (xs_snd_wnd st) \<Longrightarrow> flows 0 st st'"
  by (auto simp: flows_def made_bytes_def)

lemma upd_proj_log [simp]:
  "xs_made (upd_ctx f st) = xs_made st" "xs_snd_wnd (upd_ctx f st) = xs_snd_wnd st"
  "xs_made (upd_xmit s g st) = xs_made st" "xs_snd_wnd (upd_xmit s g st) = xs_snd_wnd st"
  by (simp_all add: upd_ctx_def upd_xmit_def)

lemma entail_stream_same:
  "tfw_h2_entail_stream_skb E s b st = Some (r, st') \<Longrightarrow>
   xs_made st' = xs_made st \<and> xs_snd_wnd st' = xs_snd_wnd st"
  by (auto simp: tfw_h2_entail_stream_skb_def split: list.splits if_splits Option.bind_splits)

lemma u64_sub: "b \<le> a \<Longrightarrow> uint ((a :: u64) - b) = uint a - uint b"
  by (simp add: uint_minus_simple_alt)

lemma entail_list_loop_flows:
  "entail_list_loop E bs st = Some (r, early, bs', st') \<Longrightarrow>
   xs_made st' = xs_made st \<and> uint (xs_snd_wnd st') \<le> uint (xs_snd_wnd st)"
proof (induction bs arbitrary: st)
  case (Cons b bs)
  show ?case
  proof (cases "xs_snd_wnd st = 0")
    case False
    from Cons.prems obtain c where c: "(if sk_is_head b \<and> sk_settings_ack b then tfw_h2_on_tcp_entail_setting_ack (xs_ctx st)
        else Some (xs_ctx st)) = Some c"
      using False by (auto split: Option.bind_splits)
    consider (empty) "sk_len b = 0" | (sent) "sk_len b \<noteq> 0" "xe_headroom E (xs_calls st) = T_OK"
      | (failed) "sk_len b \<noteq> 0" "xe_headroom E (xs_calls st) \<noteq> T_OK" by blast
    then show ?thesis
    proof cases
      case empty
      with Cons.prems c False have "entail_list_loop E bs (st\<lparr>xs_ctx := c\<rparr>) = Some (r, early, bs', st')" by simp
      from Cons.IH [OF this] show ?thesis by simp
    next
      case sent
      let ?w = "if xs_snd_wnd st > ucast (sk_len b) then xs_snd_wnd st - ucast (sk_len b) else 0"
      let ?st = "st\<lparr>xs_ctx := c, xs_calls := Suc (xs_calls st), xs_snd_wnd := ?w, xs_sock := xs_sock st @ [sk_len b]\<rparr>"
      have "entail_list_loop E bs ?st = Some (r, early, bs', st')"
        using Cons.prems False c sent by (simp add: Let_def split: if_splits)
      from Cons.IH [OF this] have "xs_made st' = xs_made st" "uint (xs_snd_wnd st') \<le> uint ?w" by simp_all
      moreover have "uint ?w \<le> uint (xs_snd_wnd st)" using u64_sub [of "ucast (sk_len b)" "xs_snd_wnd st"] by auto
      ultimately show ?thesis by simp
    next
      case failed
      with Cons.prems c False show ?thesis by auto
    qed
  qed (use Cons.prems in auto)
qed simp

lemma send_postponed_flows:
  assumes "tfw_h2_stream_send_postponed E bs st = Some (r, bs', st')"
  shows "flows 0 st st'"
proof -
  obtain r1 bs1 st1 where st1: "(if xs_write_queue st = [] then ss_skb_tcp_entail_list E bs st else Some (T_OK, bs, st)) = Some (r1, bs1, st1)"
    using assms by (auto simp: tfw_h2_stream_send_postponed_def split: Option.bind_splits)
  have "xs_made st1 = xs_made st \<and> uint (xs_snd_wnd st1) \<le> uint (xs_snd_wnd st)"
    using st1 entail_list_loop_flows by (auto simp: ss_skb_tcp_entail_list_def split: if_splits)
  moreover have "xs_made st' = xs_made st1 \<and> xs_snd_wnd st' = xs_snd_wnd st1"
    using assms st1 by (auto simp: tfw_h2_stream_send_postponed_def Let_def split: if_splits)
  ultimately show ?thesis by (intro flows_same) simp_all
qed

lemma xmit_send_postponed_flows:
  assumes "xmit_send_postponed E s st = Some (r, st')"
  shows "flows 0 st st'"
proof -
  obtain bs st1 where "tfw_h2_stream_send_postponed E (x_postponed (xmit_of s st)) st = Some (r, bs, st1)"
    "st' = upd_xmit s (\<lambda>x. x\<lparr>x_postponed := bs\<rparr>) st1" using assms by (auto simp: xmit_send_postponed_def)
  with send_postponed_flows show ?thesis by (fastforce simp: flows_def)
qed

section \<open>Making of one frame\<close>

lemma purge_refused_same:
  "purge_refused E s n st = Some (r, st') \<Longrightarrow> xs_made st' = xs_made st \<and> xs_snd_wnd st' = xs_snd_wnd st"
  using entail_stream_same
  by (auto simp: purge_refused_def Let_def split: Option.bind_splits if_splits)

lemma frame_room_same: "frame_room E s n st = (r, st') \<Longrightarrow> xs_made st' = xs_made st \<and> xs_snd_wnd st' = xs_snd_wnd st"
  by (auto simp: frame_room_def split: prod.splits)

text \<open>What bounds a frame of the stream \<open>s\<close>.\<close>

definition limits :: "sid \<Rightarrow> xmit_st \<Rightarrow> u32 \<times> int \<times> int" where
  "limits s st = (s_max_frame_sz (cx_rsettings (xs_ctx st)), cx_rem_wnd (xs_ctx st), st_rem_wnd (strm (xs_ctx st) s))"

definition within :: "u8 \<Rightarrow> u32 \<Rightarrow> u32 \<times> int \<times> int \<Rightarrow> bool" where
  "within ty n = (\<lambda>(max_sz, conn, stream). uint n \<le> uint max_sz \<and> (ty = HTTP2_DATA \<longrightarrow> uint n \<le> conn \<and> uint n \<le> stream))"

lemma limits_upd [simp]:
  "limits s (upd_xmit s g st) = limits s st"
  "limits s (upd_ctx (\<lambda>c. c\<lparr>cx_enc_wnd_changed := b\<rparr>) st) = limits s st"
  "limits s (st\<lparr>xs_calls := k\<rparr>) = limits s st"
  by (simp_all add: limits_def upd_xmit_def upd_ctx_def put_strm_def upd_sched_def strm_def upd_stream_def)

lemma frame_room_limits: "frame_room E s n st = (r, st') \<Longrightarrow> limits s st' = limits s st"
  by (auto simp: frame_room_def split: prod.splits)

lemma write_sz_same:
  "tfw_hpack_enc_tbl_write_sz E s st = Some (r, st') \<Longrightarrow>
   xs_made st' = xs_made st \<and> xs_snd_wnd st' = xs_snd_wnd st \<and> limits s st' = limits s st"
  using frame_room_same frame_room_limits
  by (fastforce simp: tfw_hpack_enc_tbl_write_sz_def split: Option.bind_splits if_splits prod.splits)

lemma flows_mono: "flows d st st' \<Longrightarrow> d \<le> e \<Longrightarrow> flows e st st'"
  by (auto simp: flows_def)

text \<open>The length of a frame as the macro computes it is within all limits.\<close>

definition payload_ok :: "xmit_env \<Rightarrow> bool" where
  "payload_ok E \<longleftrightarrow> 9 \<le> xe_tls_max_payload E \<and> xe_tls_max_payload E < 2 ^ 32"

lemma calc_frame_length_ok:
  assumes c: "CALC_FRAME_LENGTH E s mts ty len st = Some (Inr n)"
    and P: "payload_ok E"
  shows "uint n + 9 \<le> uint (xs_snd_wnd st)" "uint (n + 9) = uint n + 9" "uint n \<le> uint (s_max_frame_sz (cx_rsettings (xs_ctx st)))"
    and "ty = HTTP2_DATA \<Longrightarrow> \<not> tfw_h2_conn_or_stream_wnd_is_exceeded s (xs_ctx st) \<Longrightarrow>
      uint n \<le> cx_rem_wnd (xs_ctx st) \<and> uint n \<le> st_rem_wnd (strm (xs_ctx st) s)"
proof -
  define ovh where "ovh = (ucast (e_tls_max_overhead (cx_env (xs_ctx st))) :: u64)"
  define y where "y = min (xe_tls_max_payload E) (xs_snd_wnd st - ovh)"
  have w: "\<not> xs_snd_wnd st \<le> 9 + ovh"
    and n: "n = tfw_h2_calc_frame_length (xs_ctx st) s ty len (ucast y - 9)"
    using c by (auto simp: CALC_FRAME_LENGTH_def Let_def ovh_def y_def split: if_splits)
  have "uint ovh < 2 ^ 32"
    using unsigned_less [of "e_tls_max_overhead (cx_env (xs_ctx st))", where 'a = int]
    by (simp add: ovh_def unsigned_ucast_eq take_bit_int_eq_self)
  then have "uint (9 + ovh) = 9 + uint ovh" by (simp add: uint_plus_simple_iff uint_word_ariths)
  with w have w': "9 + uint ovh < uint (xs_snd_wnd st)" by (simp add: not_le word_less_def)
  then have sub: "uint (xs_snd_wnd st - ovh) = uint (xs_snd_wnd st) - uint ovh"
    by (intro u64_sub) (simp add: word_le_def)
  have y: "9 \<le> y" "uint y < 2 ^ 32" "uint y \<le> uint (xs_snd_wnd st) - uint ovh"
    using P w' sub by (auto simp: payload_ok_def y_def min_def word_le_def word_less_def)
  have max_len: "uint (ucast y - 9 :: u32) = uint y - 9"
  proof -
    have u: "uint (ucast y :: u32) = uint y" using y(2) by (simp add: unsigned_ucast_eq take_bit_int_eq_self)
    then have "(9 :: u32) \<le> ucast y" using y(1) by (simp add: word_le_def)
    then have "uint (ucast y - 9 :: u32) = uint (ucast y :: u32) - uint (9 :: u32)"
      by (simp only: uint_minus_simple_alt)
    then show ?thesis using u by simp
  qed
  have le: "n \<le> ucast y - 9" "n \<le> s_max_frame_sz (cx_rsettings (xs_ctx st))"
    unfolding n tfw_h2_calc_frame_length_def by (auto simp: Let_def min_def)
  have "0 \<le> uint ovh" by simp
  moreover have "uint n \<le> uint y - 9" using le(1) max_len by (simp add: word_le_def)
  ultimately show "uint n + 9 \<le> uint (xs_snd_wnd st)" "uint (n + 9) = uint n + 9"
    using y(2,3) by (linarith, simp add: uint_word_ariths)
  show "uint n \<le> uint (s_max_frame_sz (cx_rsettings (xs_ctx st)))" using le(2) by (simp add: word_le_def)
  assume ty: "ty = HTTP2_DATA" and e: "\<not> tfw_h2_conn_or_stream_wnd_is_exceeded s (xs_ctx st)"
  have "n \<le> word_of_int (cx_rem_wnd (xs_ctx st))" "n \<le> word_of_int (st_rem_wnd (strm (xs_ctx st) s))"
    unfolding n tfw_h2_calc_frame_length_def using ty by (auto simp: Let_def min_def)
  moreover have "uint (word_of_int x :: u32) \<le> x" if "0 < x" for x
    using that by (simp add: unsigned_of_int take_bit_int_less_eq_self_iff)
  ultimately show "uint n \<le> cx_rem_wnd (xs_ctx st) \<and> uint n \<le> st_rem_wnd (strm (xs_ctx st) s)"
    using e by (auto simp: tfw_h2_conn_or_stream_wnd_is_exceeded_def word_le_def intro: order_trans)
qed

section \<open>Frames\<close>

text \<open>A header inserted for a frame within the limits takes its bytes.\<close>

lemma insert_frame_header_flows:
  assumes i: "tfw_h2_insert_frame_header E s ty n st = Some (r, st')" and n: "within ty n (limits s st)"
  shows "flows (uint n + 9) st st' \<and> xs_snd_wnd st' = xs_snd_wnd st"
proof -
  define st0 where "st0 = (if ty = HTTP2_CONTINUATION \<or> ty = HTTP2_DATA \<or> x_h_len (xmit_of s st) = 0
    then upd_xmit s (\<lambda>x. x\<lparr>x_skb_head := dropWhile (\<lambda>b. sk_len b = 0) (x_skb_head x)\<rparr>) st else st)"
  obtain r1 st1 where room:
    "(if ty = HTTP2_CONTINUATION \<or> ty = HTTP2_DATA then frame_room E s 9 st0 else (T_OK, st0)) = (r1, st1)"
    by fastforce
  have same: "xs_made st1 = xs_made st" "xs_snd_wnd st1 = xs_snd_wnd st" "limits s st1 = limits s st"
    using room frame_room_same frame_room_limits by (auto simp: st0_def split: if_splits)
  have ret: "if r1 \<noteq> T_OK then st' = st1 else \<exists>m. xs_made st' = xs_made st1 @ [m] \<and> xs_snd_wnd st' = xs_snd_wnd st1
      \<and> made_ok m \<and> h_length (mf_hdr m) = uint n"
  proof (cases "r1 = T_OK")
    case True
    obtain tr c where a: "account_frame s ty n (xs_ctx st1) = (tr, c)" by fastforce
    define m where "m = log_frame s \<lparr>h_length = uint n, h_stream_id = s, h_type = ty,
      h_flags = tfw_h2_calc_frame_flags (strm c s) ty tr\<rparr> (xs_ctx st1)"
    have "made_ok m" "h_length (mf_hdr m) = uint n" using n same(3)
      by (auto simp: m_def log_frame_def made_ok_def within_def limits_def)
    moreover have "xs_made st' = xs_made st1 @ [m] \<and> xs_snd_wnd st' = xs_snd_wnd st1"
      using i True room a purge_refused_same
      unfolding tfw_h2_insert_frame_header_def Let_def st0_def [symmetric] m_def
      by (auto split: if_splits Option.bind_splits TfwStreamFsmRes.splits)
    ultimately show ?thesis using True by auto
  next
    case False
    then show ?thesis using i room unfolding tfw_h2_insert_frame_header_def Let_def st0_def [symmetric]
      by (auto split: if_splits)
  qed
  show ?thesis
  proof (cases "r1 = T_OK")
    case True
    then show ?thesis using ret same by (auto simp: flows_def made_bytes_def)
  next
    case False
    then have "flows 0 st st'" using ret same by (intro flows_same) simp_all
    then show ?thesis using ret False same by (auto intro: flows_mono)
  qed
qed

text \<open>The result of a run: a failure leaves the window as it was before the last frame.\<close>

definition flows_out :: "xmit_st \<Rightarrow> xmit_st \<Rightarrow> bool" where
  "flows_out st st' \<longleftrightarrow> flows (uint (xs_snd_wnd st')) st st'"

lemma flows_outI: "flows d st st' \<Longrightarrow> d \<le> uint (xs_snd_wnd st') \<Longrightarrow> flows_out st st'"
  unfolding flows_out_def by (rule flows_mono)

lemma flows_out_trans: "flows 0 st st1 \<Longrightarrow> flows_out st1 st2 \<Longrightarrow> flows_out st st2"
  unfolding flows_out_def using flows_trans by fastforce

fun ctl_flows :: "xmit_ctl \<Rightarrow> xmit_st \<Rightarrow> xmit_st \<Rightarrow> bool" where
  "ctl_flows (Xmit_Return r) st st' \<longleftrightarrow> r \<noteq> T_OK \<and> flows_out st st'"
| "ctl_flows _ st st' \<longleftrightarrow> flows 0 st st'"

lemma make_frame_flows:
  assumes m: "make_frame E s mts ty len prep st = Some (ctl, st')"
    and P: "payload_ok E"
    and wnd: "ty = HTTP2_DATA \<Longrightarrow> \<not> tfw_h2_conn_or_stream_wnd_is_exceeded s (xs_ctx st)"
    and prep: "\<And>r st'. prep st = Some (r, st') \<Longrightarrow>
      xs_made st' = xs_made st \<and> xs_snd_wnd st' = xs_snd_wnd st \<and> limits s st' = limits s st"
  shows "ctl_flows ctl st st'"
proof -
  obtain l where c: "CALC_FRAME_LENGTH E s mts ty len st = Some l" using m by (auto simp: make_frame_def split: Option.bind_splits)
  show ?thesis
  proof (cases l)
    case (Inl out)
    then have "out = (ctl, st')" using m c by (simp add: make_frame_def)
    then show ?thesis using c Inl
      by (auto simp: CALC_FRAME_LENGTH_def ADJUST_BLOCKED_STREAMS_AND_EXIT_def Let_def intro!: flows_same split: if_splits)
  next
    case (Inr n)
    note ok = calc_frame_length_ok [OF c [unfolded Inr] P]
    have n: "within ty n (limits s st)" using ok(3,4) wnd by (auto simp: within_def limits_def)
    obtain r1 st1 where 1: "prep st = Some (r1, st1)" using m c Inr by (auto simp: make_frame_def split: Option.bind_splits)
    note p = prep [OF 1]
    show ?thesis
    proof (cases "r1 = T_OK")
      case False
      then have "ctl = Xmit_Return r1" "st' = st1" using m c Inr 1 by (simp_all add: make_frame_def)
      then show ?thesis using False p by (auto simp: flows_out_def flows_def made_bytes_def)
    next
      case True
      obtain r2 st2 where 2: "tfw_h2_insert_frame_header E s ty n st1 = Some (r2, st2)"
        using m c Inr 1 True by (auto simp: make_frame_def split: Option.bind_splits)
      from insert_frame_header_flows [OF 2] n p
      have f: "flows (uint n + 9) st st2" "xs_snd_wnd st2 = xs_snd_wnd st" by (auto simp: flows_def)
      have sub: "uint (xs_snd_wnd st - ucast (n + 9)) = uint (xs_snd_wnd st) - (uint n + 9)"
      proof -
        have "uint (ucast (n + 9) :: u64) = uint n + 9"
          using ok(2) unsigned_less [of "n + 9", where 'a = int] by (simp add: unsigned_ucast_eq take_bit_int_eq_self)
        then show ?thesis using ok(1) by (subst u64_sub) (simp_all add: word_le_def)
      qed
      show ?thesis using m c Inr 1 True 2 f sub ok(1)
        by (auto simp: make_frame_def FRAME_XMIT_FSM_NEXT_def Let_def flows_def flows_out_def split: if_splits)
    qed
  qed
qed

section \<open>The machine\<close>

lemma adjust_flows: "ADJUST_BLOCKED_STREAMS_AND_EXIT s n ty st = Some (ctl, st') \<Longrightarrow> ctl_flows ctl st st'"
  by (auto simp: ADJUST_BLOCKED_STREAMS_AND_EXIT_def Let_def intro!: flows_same split: if_splits)

lemma xmit_make_data_flows:
  assumes "xmit_make_data E s mts st = Some (ctl, st')" "payload_ok E"
  shows "ctl_flows ctl st st'"
proof (cases "tfw_h2_conn_or_stream_wnd_is_exceeded s (xs_ctx st)")
  case True
  then show ?thesis using assms by (simp add: xmit_make_data_def adjust_flows)
next
  case False
  then show ?thesis using assms by (intro make_frame_flows) (auto simp: xmit_make_data_def)
qed

lemma flows_outI0: "flows 0 st st' \<Longrightarrow> flows_out st st'"
  by (rule flows_outI [OF _ unsigned_greater_eq])

lemma xmit_send_frames_flows:
  assumes m: "xmit_send_frames E s tc st = Some (ctl, st')"
  shows "ctl_flows ctl st st'"
proof -
  obtain r1 st1 where 1: "(if x_frame_length (xmit_of s st) \<noteq> 0 then tfw_h2_entail_stream_skb E s False st else Some (T_OK, st)) = Some (r1, st1)"
    using m by (auto simp: xmit_send_frames_def split: Option.bind_splits)
  then have f: "flows 0 st st1" by (auto dest!: entail_stream_same intro!: flows_same split: if_splits)
  show ?thesis
  proof (cases "r1 \<noteq> T_OK \<or> x_h_len (xmit_of s st1) \<noteq> 0")
    case True
    then show ?thesis using m 1 f by (auto simp: xmit_send_frames_def flows_outI0 split: if_splits)
  next
    case False
    then obtain r2 st2 where 2: "(if x_postponed (xmit_of s st1) \<noteq> [] \<and> x_frame_length (xmit_of s st1) = 0
        \<and> cx_cur_send_headers (xs_ctx st1) = None then xmit_send_postponed E s st1 else Some (T_OK, st1)) = Some (r2, st2)"
      using m 1 unfolding xmit_send_frames_def by (auto split: Option.bind_splits)
    then have "flows 0 st1 st2" by (auto dest: xmit_send_postponed_flows split: if_splits)
    with f have "flows 0 st st2" using flows_trans by fastforce
    then show ?thesis using m False unfolding xmit_send_frames_def 1 using 2
      by (auto simp: flows_outI0 split: if_splits)
  qed
qed

lemma xmit_finish_flows:
  assumes m: "xmit_finish E s excl st = Some (ctl, st')"
  shows "ctl_flows ctl st st'"
proof -
  let ?m = "(if x_skb_head (xmit_of s st) \<noteq> [] then
      map_option (\<lambda>(r, bs, st). (r, upd_xmit s (\<lambda>x. x\<lparr>x_skb_head := bs\<rparr>) st))
        (tfw_h2_stream_send_postponed E (x_skb_head (xmit_of s st)) st)
    else Some (T_OK, st))"
  obtain r1 st1 where 1: "?m = Some (r1, st1)"
    using m unfolding xmit_finish_def by (auto split: Option.bind_splits if_splits)
  then have "flows 0 st st1"
    using send_postponed_flows by (fastforce simp: flows_def made_bytes_def split: if_splits)
  then show ?thesis using m unfolding xmit_finish_def 1
    by (auto simp: flows_outI0 Let_def flows_def made_bytes_def split: if_splits)
qed

lemma xmit_state_flows:
  assumes m: "xmit_state E s excl mts tc state st = Some (ctl, st')"
    and P: "payload_ok E"
  shows "ctl_flows ctl st st'"
proof (cases state)
  case HTTP2_ENCODE_HEADERS
  then show ?thesis using m
    by (auto simp: xmit_encode_headers_def xmit_release_response_def Let_def intro!: flows_same flows_outI0 split: Option.bind_splits if_splits)
next
  case HTTP2_RELEASE_RESPONSE
  then show ?thesis using m by (auto simp: xmit_release_response_def Let_def intro!: flows_same split: if_splits)
next
  case HTTP2_MAKE_HEADERS_FRAMES
  show ?thesis using m [unfolded HTTP2_MAKE_HEADERS_FRAMES xmit_state.simps xmit_make_headers_def]
    by (rule make_frame_flows [OF _ P]) (auto dest: write_sz_same split: if_splits)
next
  case HTTP2_MAKE_CONTINUATION_FRAMES
  show ?thesis using m [unfolded HTTP2_MAKE_CONTINUATION_FRAMES xmit_state.simps]
    by (rule make_frame_flows [OF _ P]) auto
next
  case HTTP2_MAKE_TRAILER_FRAMES
  show ?thesis using m [unfolded HTTP2_MAKE_TRAILER_FRAMES xmit_state.simps]
    by (rule make_frame_flows [OF _ P]) auto
next
  case HTTP2_MAKE_TRAILER_CONTINUATION_FRAMES
  show ?thesis using m [unfolded HTTP2_MAKE_TRAILER_CONTINUATION_FRAMES xmit_state.simps]
    by (rule make_frame_flows [OF _ P]) auto
qed (use m xmit_make_data_flows [OF _ P] xmit_send_frames_flows xmit_finish_flows in \<open>simp_all\<close>)

definition loop_flows :: "xmit_st \<Rightarrow> (rc + TfwStreamXmitState) \<times> xmit_st \<Rightarrow> bool" where
  "loop_flows st = (\<lambda>(out, st'). case out of Inl r \<Rightarrow> r \<noteq> T_OK \<and> flows_out st st' | Inr _ \<Rightarrow> flows 0 st st')"

lemma loop_flows_trans: "flows 0 st st1 \<Longrightarrow> loop_flows st1 y \<Longrightarrow> loop_flows st y"
  by (auto simp: loop_flows_def intro: flows_out_trans flows_trans [of 0 _ _ 0, simplified] split: sum.splits prod.splits)

lemma xmit_loop_flows:
  "xmit_loop E s excl mts tc state st = Some y \<Longrightarrow> payload_ok E \<longrightarrow> loop_flows st y"
proof (rule xmit_loop.raw_induct [where P = "\<lambda>E s excl mts tc state st y. payload_ok E \<longrightarrow> loop_flows st y"])
  fix f E s excl mts tc state st y
  assume IH: "\<And>E s excl mts tc state st y. f E s excl mts tc state st = Some y \<Longrightarrow> payload_ok E \<longrightarrow> loop_flows st y"
    and b: "Option.bind (xmit_state E s excl mts tc state st) (\<lambda>(ctl, st). case ctl of
      Xmit_Jump state' \<Rightarrow> f E s excl mts (trailer_cont tc state) state' st
    | Xmit_Exit \<Rightarrow> Some (Inr state, st) | Xmit_Return r \<Rightarrow> Some (Inl r, st)) = Some y"
  from b obtain ctl st1 where x: "xmit_state E s excl mts tc state st = Some (ctl, st1)"
    by (auto split: Option.bind_splits)
  show "payload_ok E \<longrightarrow> loop_flows st y"
  proof (cases ctl)
    case (Xmit_Jump state')
    then show ?thesis using b x xmit_state_flows [OF x] IH loop_flows_trans by fastforce
  qed (use b x xmit_state_flows [OF x] in \<open>auto simp: loop_flows_def\<close>)
qed

lemma xmit_process_flows:
  assumes p: "tfw_h2_stream_xmit_process E s excl mss st = Some (r, st')" and P: "payload_ok E"
  shows "if r = T_OK then flows 0 st st' else flows_out st st'"
proof -
  obtain out st1 where 1: "xmit_loop E s excl (tfw_h2_calc_min_to_send (xs_ctx st) mss) False
      (x_state (xmit_of s st)) st = Some (out, st1)"
    using p by (auto simp: tfw_h2_stream_xmit_process_def split: Option.bind_splits)
  note l = xmit_loop_flows [OF 1, rule_format, OF P]
  show ?thesis
  proof (cases out)
    case (Inl r')
    then show ?thesis using p 1 l by (auto simp: tfw_h2_stream_xmit_process_def loop_flows_def)
  next
    case (Inr state)
    define st2 where "st2 = upd_xmit s (\<lambda>x. x\<lparr>x_state := state\<rparr>) st1"
    have f: "flows 0 st st2" using l Inr by (auto simp: st2_def loop_flows_def flows_def)
    have "flows 0 st2 st'"
    proof (cases "x_frame_length (xmit_of s st2) = 0")
      case True
      then show ?thesis using p 1 Inr by (simp add: tfw_h2_stream_xmit_process_def st2_def Let_def)
    next
      case False
      then obtain r3 st3 where 3: "tfw_h2_entail_stream_skb E s True st2 = Some (r3, st3)"
        using p 1 Inr by (auto simp: tfw_h2_stream_xmit_process_def st2_def Let_def split: Option.bind_splits)
      have "flows 0 st2 st3" using entail_stream_same [OF 3] by (intro flows_same) simp_all
      moreover have "flows 0 st3 st'" using p 1 Inr False 3
        by (auto simp: tfw_h2_stream_xmit_process_def st2_def Let_def dest: xmit_send_postponed_flows split: if_splits)
      ultimately show ?thesis using flows_trans by fastforce
    qed
    with f have "flows 0 st st'" using flows_trans by fastforce
    then show ?thesis by (simp add: flows_outI0)
  qed
qed

lemma xmit_pick_flows: "xmit_pick st = Some (s, st') \<Longrightarrow> flows 0 st st'"
  by (auto simp: xmit_pick_def Let_def intro!: flows_same split: option.splits if_splits Option.bind_splits)

lemma make_frames_loop_flows:
  "make_frames_loop E mss r st = Some y \<Longrightarrow> payload_ok E \<longrightarrow> flows_out st (snd y)"
proof (rule make_frames_loop.raw_induct [where P = "\<lambda>E mss r st y. payload_ok E \<longrightarrow> flows_out st (snd y)"])
  fix f E mss r st y
  assume IH: "\<And>E mss r st y. f E mss r st = Some y \<Longrightarrow> payload_ok E \<longrightarrow> flows_out st (snd y)"
    and b: "(if se_active_cnt (sc_entry (cx_sched (xs_ctx st)) sched_root) = 0 then Some (r, st)
      else
        Option.bind (xmit_pick st) (\<lambda>(s, st).
        Option.bind (tfw_h2_stream_is_exclusive s (cx_sched (xs_ctx st))) (\<lambda>excl.
        Option.bind (tfw_h2_stream_xmit_process E s excl mss st) (\<lambda>(r, st).
        Option.bind (xmit_deactivate s excl (xs_ctx st)) (\<lambda>c.
          let st = st\<lparr>xs_ctx := c\<rparr> in
          if xs_stop st \<or> r \<noteq> T_OK then Some (r, st) else f E mss r st))))) = Some y"
  show "payload_ok E \<longrightarrow> flows_out st (snd y)"
  proof (cases "se_active_cnt (sc_entry (cx_sched (xs_ctx st)) sched_root) = 0")
    case True
    then show ?thesis using b by (auto intro!: flows_outI0)
  next
    case False
    then obtain s st1 excl r2 st2 c where 1: "xmit_pick st = Some (s, st1)"
        "tfw_h2_stream_xmit_process E s excl mss st1 = Some (r2, st2)"
      and y: "(if xs_stop (st2\<lparr>xs_ctx := c\<rparr>) \<or> r2 \<noteq> T_OK then Some (r2, st2\<lparr>xs_ctx := c\<rparr>)
        else f E mss r2 (st2\<lparr>xs_ctx := c\<rparr>)) = Some y"
      using b by (auto simp: Let_def split: Option.bind_splits)
    have f1: "flows 0 st st1" using xmit_pick_flows [OF 1(1)] .
    show ?thesis
    proof
      assume P: "payload_ok E"
      note f2 = xmit_process_flows [OF 1(2) P]
      show "flows_out st (snd y)"
      proof (cases "xs_stop (st2\<lparr>xs_ctx := c\<rparr>) \<or> r2 \<noteq> T_OK")
        case True
        have "flows_out st1 (st2\<lparr>xs_ctx := c\<rparr>)" using f2 flows_outI0 by (auto simp: flows_out_def flows_def split: if_splits)
        then show ?thesis using y True flows_out_trans [OF f1] by auto
      next
        case False
        then have "flows 0 st1 (st2\<lparr>xs_ctx := c\<rparr>)" using f2 by (auto simp: flows_def)
        then have "flows 0 st (st2\<lparr>xs_ctx := c\<rparr>)" using flows_trans f1 by fastforce
        moreover have "flows_out (st2\<lparr>xs_ctx := c\<rparr>) (snd y)"
          using IH [of E mss r2 "st2\<lparr>xs_ctx := c\<rparr>" y] y False P by simp
        ultimately show ?thesis by (rule flows_out_trans)
      qed
    qed
  qed
qed

lemma fill_flows:
  assumes f: "tfw_connection_fill_sk_write_queue E shutdown mss wnd st = Some (r, sh, st')" and P: "payload_ok E"
  shows "flows_out (st\<lparr>xs_snd_wnd := wnd\<rparr>) st'"
proof -
  let ?st = "st\<lparr>xs_snd_wnd := wnd\<rparr>"
  obtain r1 bs st1 where 1: "ss_skb_tcp_entail_list E (xs_write_queue st) ?st = Some (r1, bs, st1)"
    using f by (auto simp: tfw_connection_fill_sk_write_queue_def split: Option.bind_splits)
  define st2 where "st2 = st1\<lparr>xs_write_queue := bs\<rparr>"
  have "xs_made st1 = xs_made ?st \<and> uint (xs_snd_wnd st1) \<le> uint (xs_snd_wnd ?st)"
    using 1 entail_list_loop_flows by (fastforce simp: ss_skb_tcp_entail_list_def)
  then have f2: "flows 0 ?st st2" unfolding st2_def by (intro flows_same) simp_all
  show ?thesis
  proof (cases "r1 = T_OK")
    case False
    then show ?thesis using f 1 f2 by (simp add: tfw_connection_fill_sk_write_queue_def st2_def flows_outI0)
  next
    case True
    let ?m = "if xs_snd_wnd st2 \<noteq> 0 then tfw_h2_make_frames E mss (xs_snd_wnd st2) st2 else Some (T_OK, st2)"
    have "Option.bind ?m (\<lambda>(r, st). Some (if r \<noteq> T_OK then (r, False, st) else (T_OK, fill_after shutdown st)))
        = Some (r, sh, st')"
      using f 1 True by (auto simp: tfw_connection_fill_sk_write_queue_def Let_def st2_def split: if_splits)
    then obtain r3 st3 where 3: "?m = Some (r3, st3)" and ret:
        "(if r3 \<noteq> T_OK then (r3, False, st3) else (T_OK, fill_after shutdown st3)) = (r, sh, st')"
      by (cases ?m) auto
    have "flows_out st2 st3"
    proof (cases "xs_snd_wnd st2 = 0")
      case True
      then show ?thesis using 3 by (simp add: flows_outI0)
    next
      case False
      then have "make_frames_loop E mss T_OK (st2\<lparr>xs_stop := False\<rparr>) = Some (r3, st3)"
        using 3 by (simp add: tfw_h2_make_frames_def)
      from make_frames_loop_flows [OF this] P show ?thesis by (simp add: flows_out_def flows_def)
    qed
    moreover have "xs_made st' = xs_made st3" "xs_snd_wnd st' = xs_snd_wnd st3"
      using ret by (auto simp: Let_def fill_after_def split: if_splits)
    ultimately show ?thesis using flows_out_trans [OF f2] by (simp add: flows_out_def flows_def)
  qed
qed

end
