(* ===== verification/H2_Xmit_Spec.thy ===== *)
theory H2_Xmit_Spec
  imports H2_Xmit_Flow H2_Conn_Spec
begin

unbundle bit_operations_syntax

text \<open>
  Properties of the transmission of responses, with a connection that sends a small response as
  their witness.
\<close>

section \<open>A connection with a response to send\<close>

definition ex_buf :: "u32 \<Rightarrow> sk_buff" where
  "ex_buf n = \<lparr>sk_len = n, sk_is_head = False, sk_settings_ack = False\<rparr>"

text \<open>
  A response of 20 bytes of headers, 50 bytes of body and, if asked for, 8 bytes of trailers.  The
  encoder of headers leaves room for the first frame header, and \<^verbatim>\<open>tfw_http_msg_setup_transform_pool()\<close>
  for the one of the trailers.
\<close>

definition ex_resp :: "bool \<Rightarrow> h2_resp" where
  "ex_resp trailers =
     \<lparr>rp_head_only = False, rp_trailers = trailers, rp_chunked = False, rp_body_len = 50,
      rp_encode = (\<lambda>_. (T_OK, [ex_buf 29, ex_buf 50], 20)), rp_chop = (\<lambda>bs. (T_OK, bs)),
      rp_encode_trailers = (\<lambda>bs. (T_OK, bs @ [ex_buf (9 + 8)], 28)), rp_cutoff = (\<lambda>bs. (T_OK, bs))\<rparr>"

definition ex_xenv :: "bool \<Rightarrow> xmit_env" where
  "ex_xenv trailers =
     \<lparr>xe_resp = (\<lambda>_. ex_resp trailers), xe_headroom = (\<lambda>_. T_OK), xe_split = (\<lambda>_. True),
      xe_room = (\<lambda>_ n bs. (T_OK, case bs of [] \<Rightarrow> [] | b # bs \<Rightarrow> b\<lparr>sk_len := sk_len b + n\<rparr> # bs)),
      xe_tls_max_payload = 16384\<rparr>"

text \<open>Stream 1 got its request and is active with the response.\<close>

definition ex_send_ctx :: TfwH2Ctx where
  "ex_send_ctx =
     upd_sched (\<lambda>S. case tfw_h2_sched_activate_stream 1 S of None \<Rightarrow> S | Some S \<Rightarrow> S)
       (put_strm 1 (\<lambda>t. t\<lparr>st_state := HTTP2_STREAM_REM_HALF_CLOSED,
           st_xmit := (st_xmit t)\<lparr>x_resp := True, x_skb_head := [ex_buf 0], x_state := HTTP2_ENCODE_HEADERS\<rparr>\<rparr>)
         (opened 1 0 16 ex_ctx))"

definition ex_st :: "TfwH2Ctx \<Rightarrow> xmit_st" where
  "ex_st c = \<lparr>xs_ctx = c, xs_snd_wnd = 0, xs_stop = False, xs_write_queue = [], xs_sock = [],
     xs_made = [], xs_calls = 0\<rparr>"

lemmas xmit_eval =
  ex_resp_def ex_xenv_def ex_send_ctx_def ex_st_def ex_buf_def put_strm_def strm_def
  tfw_h2_sched_get_most_prio_stream_def sched_most_prio.simps tfw_h2_stream_is_exclusive_def
  tfw_h2_sched_deactivate_stream_def sched_propagate_dec.simps tfw_h2_stream_clean_def tfw_h2_stop_stream_def
  tfw_h2_delete_stream_def tfw_h2_remove_stream_dep_def sched_detach_def tfw_h2_stream_sched_remove_def
  tfw_h2_stream_purge_all_and_free_response_def ctx_reset_stream_on_close_def tfw_h2_is_ready_to_send_def
  tfw_h2_stream_sched_has_children_def tfw_h2_stream_add_closed_def tfw_h2_stream_add_to_queue_nolock_def
  queue_upd_def tfw_h2_stream_sched_move_children_def sched_move_children_loop.simps children_of_def
  tfw_h2_stream_fsm_def tfw_h2_stream_purge_all_def tfw_h2_stream_purge_send_queue_def
  tfw_h2_conn_or_stream_wnd_is_exceeded_def tfw_h2_calc_min_to_send_def tfw_h2_stream_fsm_ignore_err_def
  h2_stream_fsm_def ctx_fsm_view_def put_fsm_view_def fsm_branches TFW_H2_FSM_STREAM_CHECK_def
  TFW_H2_FSM_TYPE_CHECK_def cur_headers_def SET_STATE_def set_eos_received_def set_eos_sent_def
  tfw_h2_get_stream_state_def tfw_h2_set_stream_state_def tfw_h2_stream_is_eos_sent_def
  tfw_h2_stream_is_eos_received_def has_flag_def xmit_loop.simps make_frames_loop.simps xmit_state.simps
  xmit_of_def upd_ctx_def upd_xmit_def prepare_body_def tfw_h2_stream_xmit_prepare_resp_def mark_head_def
  tfw_h2_entail_stream_skb_def ss_skb_tcp_entail_list_def tfw_h2_stream_send_postponed_def
  tfw_h2_calc_frame_length_def tfw_h2_calc_frame_flags_def ss_skb_data_ptr_by_offset_def frame_room_def
  account_frame_def purge_refused_def log_frame_def tfw_h2_insert_frame_header_def
  tfw_hpack_enc_tbl_write_sz_def ADJUST_BLOCKED_STREAMS_AND_EXIT_def CALC_FRAME_LENGTH_def
  FRAME_XMIT_FSM_NEXT_def make_frame_def xmit_encode_headers_def xmit_release_response_def
  xmit_make_headers_def xmit_make_data_def xmit_send_postponed_def xmit_send_frames_def xmit_finish_def
  trailer_cont_def tfw_h2_stream_xmit_process_def xmit_pick_def xmit_deactivate_def tfw_h2_make_frames_def
  fill_after_def tfw_connection_fill_sk_write_queue_def

section \<open>Flow control\<close>


lemma ex_fill_eval:
  "map_option (\<lambda>(r, sh, st). (r, sh, xs_sock st, map mf_hdr (xs_made st)))
     (tfw_connection_fill_sk_write_queue (ex_xenv False) False 1400 60000 (ex_st ex_send_ctx))
   = Some (T_OK, False, [29, 59],
       [\<lparr>h_length = 20, h_stream_id = 1, h_type = HTTP2_HEADERS, h_flags = HTTP2_F_END_HEADERS\<rparr>,
        \<lparr>h_length = 50, h_stream_id = 1, h_type = HTTP2_DATA, h_flags = HTTP2_F_END_STREAM\<rparr>])"
  by (simp add: xmit_eval ex_eval cong: ex_cong)


section \<open>Refused frames\<close>

text \<open>The bytes of the first \<open>k\<close> buffers.\<close>

definition head_bytes :: "nat \<Rightarrow> sk_buff list \<Rightarrow> u64" where
  "head_bytes k bs = (\<Sum>b\<leftarrow>take k bs. ucast (sk_len b))"

lemma head_bytes_simps [simp]:
  "head_bytes 0 bs = 0" "head_bytes k [] = 0" "head_bytes (Suc k) (b # bs) = ucast (sk_len b) + head_bytes k bs"
  by (simp_all add: head_bytes_def)

lemma purge_send_loop_eq:
  "purge_send_loop n bs =
     (if \<exists>k. k \<le> length bs \<and> head_bytes k bs = n
      then Some (drop (LEAST k. k \<le> length bs \<and> head_bytes k bs = n) bs) else None)"
proof (induction bs arbitrary: n)
  case (Cons b bs)
  let ?P = "\<lambda>k. k \<le> length (b # bs) \<and> head_bytes k (b # bs) = n"
  let ?Q = "\<lambda>k. k \<le> length bs \<and> head_bytes k bs = n - ucast (sk_len b)"
  show ?case
  proof (cases "n = 0")
    case True
    then have "(LEAST k. ?P k) = 0" "?P 0" by (auto intro!: Least_equality)
    then show ?thesis using True by (simp, blast)
  next
    case False
    have suc: "?P (Suc k) \<longleftrightarrow> ?Q k" for k by (auto simp: algebra_simps)
    have ex: "(\<exists>k. ?P k) \<longleftrightarrow> (\<exists>k. ?Q k)"
      using False suc by (metis head_bytes_simps(1) not0_implies_Suc)
    have "(LEAST k. ?P k) = Suc (LEAST k. ?Q k)" if "\<exists>k. ?Q k"
    proof -
      from that obtain k where "?Q k" ..
      with Least_Suc [of ?P "Suc k"] False suc show ?thesis by simp
    qed
    with ex False Cons.IH show ?thesis by simp
  qed
qed simp

text \<open>
  (C7) \<^verbatim>\<open>tfw_h2_stream_purge_send_queue()\<close> returns exactly when the bytes it accounts for end at the
  end of a buffer; then it leaves the buffers behind them.  Otherwise the unsigned length wraps
  around and the loop ends at \<^verbatim>\<open>BUG_ON(!skb)\<close>.
\<close>

theorem purge_send_queue_returns:
  "tfw_h2_stream_purge_send_queue t =
     (let x = st_xmit t; bs = x_skb_head x;
          n = ucast (x_h_len x) + ucast (x_b_len x) + ucast (x_t_len x) + ucast (x_frame_length x) in
      if \<exists>k. k \<le> length bs \<and> head_bytes k bs = n
      then Some (t\<lparr>st_xmit := x\<lparr>x_skb_head := drop (LEAST k. k \<le> length bs \<and> head_bytes k bs = n) bs,
                   x_h_len := 0, x_b_len := 0, x_t_len := 0, x_frame_length := 0\<rparr>\<rparr>)
      else None)"
  by (simp add: tfw_h2_stream_purge_send_queue_def purge_send_loop_eq Let_def)

text \<open>
  (C35) A response with trailers whose stream was closed by a stray DATA frame of the client crashes the
  server: the header of the first frame is refused by the stream machine, and the bytes reserved
  for the frame header of the trailers are missing in the lengths that are purged.  Without trailers
  the same run drops the response.
\<close>

definition ex_closed_ctx :: TfwH2Ctx where
  "ex_closed_ctx = (case h2_stream_fsm (Some 1) HTTP2_DATA 0 False ex_send_ctx of None \<Rightarrow> ex_send_ctx | Some (_, _, c) \<Rightarrow> c)"


end
