(* ===== verification/Hpack_Tables.thy ===== *)
theory Hpack_Tables
  imports VW_Prelude
begin

text \<open>
  The Huffman tables of HPACK, \<^verbatim>\<open>src/fw/hpack_tbl.h\<close>: the code words and their lengths, and
  the table of the decoder, one definition for each of its parts.  An entry of the decoder is
  a pair of \<^verbatim>\<open>shift\<close> and \<^verbatim>\<open>offset\<close>, both signed 16-bit values.
\<close>

definition ht_encode :: "u32 list" where
  "ht_encode =
   [0x1FF8, 0x7FFFD8, 0xFFFFFE2, 0xFFFFFE3, 0xFFFFFE4, 0xFFFFFE5, 0xFFFFFE6, 0xFFFFFE7, 0xFFFFFE8, 0xFFFFEA,
   0x3FFFFFFC, 0xFFFFFE9, 0xFFFFFEA, 0x3FFFFFFD, 0xFFFFFEB, 0xFFFFFEC, 0xFFFFFED, 0xFFFFFEE, 0xFFFFFEF,
   0xFFFFFF0, 0xFFFFFF1, 0xFFFFFF2, 0x3FFFFFFE, 0xFFFFFF3, 0xFFFFFF4, 0xFFFFFF5, 0xFFFFFF6, 0xFFFFFF7,
   0xFFFFFF8, 0xFFFFFF9, 0xFFFFFFA, 0xFFFFFFB, 0x14, 0x3F8, 0x3F9, 0xFFA, 0x1FF9, 0x15, 0xF8, 0x7FA, 0x3FA,
   0x3FB, 0xF9, 0x7FB, 0xFA, 0x16, 0x17, 0x18, 0x0, 0x1, 0x2, 0x19, 0x1A, 0x1B, 0x1C, 0x1D, 0x1E, 0x1F, 0x5C,
   0xFB, 0x7FFC, 0x20, 0xFFB, 0x3FC, 0x1FFA, 0x21, 0x5D, 0x5E, 0x5F, 0x60, 0x61, 0x62, 0x63, 0x64, 0x65,
   0x66, 0x67, 0x68, 0x69, 0x6A, 0x6B, 0x6C, 0x6D, 0x6E, 0x6F, 0x70, 0x71, 0x72, 0xFC, 0x73, 0xFD, 0x1FFB,
   0x7FFF0, 0x1FFC, 0x3FFC, 0x22, 0x7FFD, 0x3, 0x23, 0x4, 0x24, 0x5, 0x25, 0x26, 0x27, 0x6, 0x74, 0x75, 0x28,
   0x29, 0x2A, 0x7, 0x2B, 0x76, 0x2C, 0x8, 0x9, 0x2D, 0x77, 0x78, 0x79, 0x7A, 0x7B, 0x7FFE, 0x7FC, 0x3FFD,
   0x1FFD, 0xFFFFFFC, 0xFFFE6, 0x3FFFD2, 0xFFFE7, 0xFFFE8, 0x3FFFD3, 0x3FFFD4, 0x3FFFD5, 0x7FFFD9, 0x3FFFD6,
   0x7FFFDA, 0x7FFFDB, 0x7FFFDC, 0x7FFFDD, 0x7FFFDE, 0xFFFFEB, 0x7FFFDF, 0xFFFFEC, 0xFFFFED, 0x3FFFD7,
   0x7FFFE0, 0xFFFFEE, 0x7FFFE1, 0x7FFFE2, 0x7FFFE3, 0x7FFFE4, 0x1FFFDC, 0x3FFFD8, 0x7FFFE5, 0x3FFFD9,
   0x7FFFE6, 0x7FFFE7, 0xFFFFEF, 0x3FFFDA, 0x1FFFDD, 0xFFFE9, 0x3FFFDB, 0x3FFFDC, 0x7FFFE8, 0x7FFFE9,
   0x1FFFDE, 0x7FFFEA, 0x3FFFDD, 0x3FFFDE, 0xFFFFF0, 0x1FFFDF, 0x3FFFDF, 0x7FFFEB, 0x7FFFEC, 0x1FFFE0,
   0x1FFFE1, 0x3FFFE0, 0x1FFFE2, 0x7FFFED, 0x3FFFE1, 0x7FFFEE, 0x7FFFEF, 0xFFFEA, 0x3FFFE2, 0x3FFFE3,
   0x3FFFE4, 0x7FFFF0, 0x3FFFE5, 0x3FFFE6, 0x7FFFF1, 0x3FFFFE0, 0x3FFFFE1, 0xFFFEB, 0x7FFF1, 0x3FFFE7,
   0x7FFFF2, 0x3FFFE8, 0x1FFFFEC, 0x3FFFFE2, 0x3FFFFE3, 0x3FFFFE4, 0x7FFFFDE, 0x7FFFFDF, 0x3FFFFE5, 0xFFFFF1,
   0x1FFFFED, 0x7FFF2, 0x1FFFE3, 0x3FFFFE6, 0x7FFFFE0, 0x7FFFFE1, 0x3FFFFE7, 0x7FFFFE2, 0xFFFFF2, 0x1FFFE4,
   0x1FFFE5, 0x3FFFFE8, 0x3FFFFE9, 0xFFFFFFD, 0x7FFFFE3, 0x7FFFFE4, 0x7FFFFE5, 0xFFFEC, 0xFFFFF3, 0xFFFED,
   0x1FFFE6, 0x3FFFE9, 0x1FFFE7, 0x1FFFE8, 0x7FFFF3, 0x3FFFEA, 0x3FFFEB, 0x1FFFFEE, 0x1FFFFEF, 0xFFFFF4,
   0xFFFFF5, 0x3FFFFEA, 0x7FFFF4, 0x3FFFFEB, 0x7FFFFE6, 0x3FFFFEC, 0x3FFFFED, 0x7FFFFE7, 0x7FFFFE8,
   0x7FFFFE9, 0x7FFFFEA, 0x7FFFFEB, 0xFFFFFFE, 0x7FFFFEC, 0x7FFFFED, 0x7FFFFEE, 0x7FFFFEF, 0x7FFFFF0,
   0x3FFFFEE]"

definition ht_length :: "u8 list" where
  "ht_length =
   [13, 23, 28, 28, 28, 28, 28, 28, 28, 24, 30, 28, 28, 30, 28, 28, 28, 28, 28, 28, 28, 28, 30, 28, 28, 28,
   28, 28, 28, 28, 28, 28, 6, 10, 10, 12, 13, 6, 8, 11, 10, 10, 8, 11, 8, 6, 6, 6, 5, 5, 5, 6, 6, 6, 6, 6, 6,
   6, 7, 8, 15, 6, 12, 10, 13, 6, 7, 7, 7, 7, 7, 7, 7, 7, 7, 7, 7, 7, 7, 7, 7, 7, 7, 7, 7, 7, 7, 7, 8, 7, 8,
   13, 19, 13, 14, 6, 15, 5, 6, 5, 6, 5, 6, 6, 6, 5, 7, 7, 6, 6, 6, 5, 6, 7, 6, 5, 5, 6, 7, 7, 7, 7, 7, 15,
   11, 14, 13, 28, 20, 22, 20, 20, 22, 22, 22, 23, 22, 23, 23, 23, 23, 23, 24, 23, 24, 24, 22, 23, 24, 23,
   23, 23, 23, 21, 22, 23, 22, 23, 23, 24, 22, 21, 20, 22, 22, 23, 23, 21, 23, 22, 22, 24, 21, 22, 23, 23,
   21, 21, 22, 21, 23, 22, 23, 23, 20, 22, 22, 22, 23, 22, 22, 23, 26, 26, 20, 19, 22, 23, 22, 25, 26, 26,
   26, 27, 27, 26, 24, 25, 19, 21, 26, 27, 27, 26, 27, 24, 21, 21, 26, 26, 28, 27, 27, 27, 20, 24, 20, 21,
   22, 21, 21, 23, 22, 22, 25, 25, 24, 24, 26, 23, 26, 27, 26, 26, 27, 27, 27, 27, 27, 28, 27, 27, 27, 27,
   27, 26]"

type_synonym HTState = "int \<times> int"

definition ht_table_0 :: "HTState list" where
  "ht_table_0 =
   [(5, 48), (5, 48), (5, 48), (5, 48), (5, 49), (5, 49), (5, 49), (5, 49), (5, 50), (5, 50), (5, 50),
   (5, 50), (5, 97), (5, 97), (5, 97), (5, 97), (5, 99), (5, 99), (5, 99), (5, 99), (5, 101), (5, 101),
   (5, 101), (5, 101), (5, 105), (5, 105), (5, 105), (5, 105), (5, 111), (5, 111), (5, 111), (5, 111),
   (5, 115), (5, 115), (5, 115), (5, 115), (5, 116), (5, 116), (5, 116), (5, 116), (6, 32), (6, 32), (6, 37),
   (6, 37), (6, 45), (6, 45), (6, 46), (6, 46), (6, 47), (6, 47), (6, 51), (6, 51), (6, 52), (6, 52),
   (6, 53), (6, 53), (6, 54), (6, 54), (6, 55), (6, 55), (6, 56), (6, 56), (6, 57), (6, 57), (6, 61),
   (6, 61), (6, 65), (6, 65), (6, 95), (6, 95), (6, 98), (6, 98), (6, 100), (6, 100), (6, 102), (6, 102),
   (6, 103), (6, 103), (6, 104), (6, 104), (6, 108), (6, 108), (6, 109), (6, 109), (6, 110), (6, 110),
   (6, 112), (6, 112), (6, 114), (6, 114), (6, 117), (6, 117), (7, 58), (7, 66), (7, 67), (7, 68), (7, 69),
   (7, 70), (7, 71), (7, 72), (7, 73), (7, 74), (7, 75), (7, 76), (7, 77), (7, 78), (7, 79), (7, 80),
   (7, 81), (7, 82), (7, 83), (7, 84), (7, 85), (7, 86), (7, 87), (7, 89), (7, 106), (7, 107), (7, 113),
   (7, 118), (7, 119), (7, 120), (7, 121), (7, 122), (-7, 640), (-7, 648), (-7, 656), (-7, 128)]"

definition ht_table_128 :: "HTState list" where
  "ht_table_128 =
   [(3, 33), (3, 33), (3, 33), (3, 33), (3, 33), (3, 33), (3, 33), (3, 33), (3, 33), (3, 33), (3, 33),
   (3, 33), (3, 33), (3, 33), (3, 33), (3, 33), (3, 34), (3, 34), (3, 34), (3, 34), (3, 34), (3, 34),
   (3, 34), (3, 34), (3, 34), (3, 34), (3, 34), (3, 34), (3, 34), (3, 34), (3, 34), (3, 34), (3, 40),
   (3, 40), (3, 40), (3, 40), (3, 40), (3, 40), (3, 40), (3, 40), (3, 40), (3, 40), (3, 40), (3, 40),
   (3, 40), (3, 40), (3, 40), (3, 40), (3, 41), (3, 41), (3, 41), (3, 41), (3, 41), (3, 41), (3, 41),
   (3, 41), (3, 41), (3, 41), (3, 41), (3, 41), (3, 41), (3, 41), (3, 41), (3, 41), (3, 63), (3, 63),
   (3, 63), (3, 63), (3, 63), (3, 63), (3, 63), (3, 63), (3, 63), (3, 63), (3, 63), (3, 63), (3, 63),
   (3, 63), (3, 63), (3, 63), (4, 39), (4, 39), (4, 39), (4, 39), (4, 39), (4, 39), (4, 39), (4, 39),
   (4, 43), (4, 43), (4, 43), (4, 43), (4, 43), (4, 43), (4, 43), (4, 43), (4, 124), (4, 124), (4, 124),
   (4, 124), (4, 124), (4, 124), (4, 124), (4, 124), (5, 35), (5, 35), (5, 35), (5, 35), (5, 62), (5, 62),
   (5, 62), (5, 62), (6, 0), (6, 0), (6, 36), (6, 36), (6, 64), (6, 64), (6, 91), (6, 91), (6, 93), (6, 93),
   (6, 126), (6, 126), (7, 94), (7, 125), (-7, 664), (-7, 256)]"

definition ht_table_256 :: "HTState list" where
  "ht_table_256 =
   [(1, 123), (1, 123), (1, 123), (1, 123), (1, 123), (1, 123), (1, 123), (1, 123), (1, 123), (1, 123),
   (1, 123), (1, 123), (1, 123), (1, 123), (1, 123), (1, 123), (1, 123), (1, 123), (1, 123), (1, 123),
   (1, 123), (1, 123), (1, 123), (1, 123), (1, 123), (1, 123), (1, 123), (1, 123), (1, 123), (1, 123),
   (1, 123), (1, 123), (1, 123), (1, 123), (1, 123), (1, 123), (1, 123), (1, 123), (1, 123), (1, 123),
   (1, 123), (1, 123), (1, 123), (1, 123), (1, 123), (1, 123), (1, 123), (1, 123), (1, 123), (1, 123),
   (1, 123), (1, 123), (1, 123), (1, 123), (1, 123), (1, 123), (1, 123), (1, 123), (1, 123), (1, 123),
   (1, 123), (1, 123), (1, 123), (1, 123), (5, 92), (5, 92), (5, 92), (5, 92), (5, -61), (5, -61), (5, -61),
   (5, -61), (5, -48), (5, -48), (5, -48), (5, -48), (6, -128), (6, -128), (6, -126), (6, -126), (6, -125),
   (6, -125), (6, -94), (6, -94), (6, -72), (6, -72), (6, -62), (6, -62), (6, -32), (6, -32), (6, -30),
   (6, -30), (7, -103), (7, -95), (7, -89), (7, -84), (7, -80), (7, -79), (7, -77), (7, -47), (7, -40),
   (7, -39), (7, -29), (7, -27), (7, -26), (-7, 672), (-7, 680), (-7, 688), (-7, 696), (-7, 704), (-7, 712),
   (-7, 720), (-7, 728), (-7, 736), (-7, 744), (-7, 752), (-7, 760), (-7, 768), (-7, 776), (-7, 784),
   (-7, 792), (-7, 800), (-7, 808), (-7, 816), (-7, 824), (-7, 832), (-7, 384), (-7, 512)]"

definition ht_table_384 :: "HTState list" where
  "ht_table_384 =
   [(3, -85), (3, -85), (3, -85), (3, -85), (3, -85), (3, -85), (3, -85), (3, -85), (3, -85), (3, -85),
   (3, -85), (3, -85), (3, -85), (3, -85), (3, -85), (3, -85), (3, -50), (3, -50), (3, -50), (3, -50),
   (3, -50), (3, -50), (3, -50), (3, -50), (3, -50), (3, -50), (3, -50), (3, -50), (3, -50), (3, -50),
   (3, -50), (3, -50), (3, -41), (3, -41), (3, -41), (3, -41), (3, -41), (3, -41), (3, -41), (3, -41),
   (3, -41), (3, -41), (3, -41), (3, -41), (3, -41), (3, -41), (3, -41), (3, -41), (3, -31), (3, -31),
   (3, -31), (3, -31), (3, -31), (3, -31), (3, -31), (3, -31), (3, -31), (3, -31), (3, -31), (3, -31),
   (3, -31), (3, -31), (3, -31), (3, -31), (3, -20), (3, -20), (3, -20), (3, -20), (3, -20), (3, -20),
   (3, -20), (3, -20), (3, -20), (3, -20), (3, -20), (3, -20), (3, -20), (3, -20), (3, -20), (3, -20),
   (3, -19), (3, -19), (3, -19), (3, -19), (3, -19), (3, -19), (3, -19), (3, -19), (3, -19), (3, -19),
   (3, -19), (3, -19), (3, -19), (3, -19), (3, -19), (3, -19), (4, -57), (4, -57), (4, -57), (4, -57),
   (4, -57), (4, -57), (4, -57), (4, -57), (4, -49), (4, -49), (4, -49), (4, -49), (4, -49), (4, -49),
   (4, -49), (4, -49), (4, -22), (4, -22), (4, -22), (4, -22), (4, -22), (4, -22), (4, -22), (4, -22),
   (4, -21), (4, -21), (4, -21), (4, -21), (4, -21), (4, -21), (4, -21), (4, -21)]"

definition ht_table_512 :: "HTState list" where
  "ht_table_512 =
   [(5, -64), (5, -64), (5, -64), (5, -64), (5, -63), (5, -63), (5, -63), (5, -63), (5, -56), (5, -56),
   (5, -56), (5, -56), (5, -55), (5, -55), (5, -55), (5, -55), (5, -54), (5, -54), (5, -54), (5, -54),
   (5, -51), (5, -51), (5, -51), (5, -51), (5, -46), (5, -46), (5, -46), (5, -46), (5, -43), (5, -43),
   (5, -43), (5, -43), (5, -38), (5, -38), (5, -38), (5, -38), (5, -37), (5, -37), (5, -37), (5, -37),
   (5, -18), (5, -18), (5, -18), (5, -18), (5, -16), (5, -16), (5, -16), (5, -16), (5, -14), (5, -14),
   (5, -14), (5, -14), (5, -13), (5, -13), (5, -13), (5, -13), (5, -1), (5, -1), (5, -1), (5, -1), (6, -53),
   (6, -53), (6, -52), (6, -52), (6, -45), (6, -45), (6, -44), (6, -44), (6, -42), (6, -42), (6, -35),
   (6, -35), (6, -34), (6, -34), (6, -33), (6, -33), (6, -15), (6, -15), (6, -12), (6, -12), (6, -11),
   (6, -11), (6, -10), (6, -10), (6, -9), (6, -9), (6, -8), (6, -8), (6, -6), (6, -6), (6, -5), (6, -5),
   (6, -4), (6, -4), (6, -3), (6, -3), (6, -2), (6, -2), (7, 2), (7, 3), (7, 4), (7, 5), (7, 6), (7, 7),
   (7, 8), (7, 11), (7, 12), (7, 14), (7, 15), (7, 16), (7, 17), (7, 18), (7, 19), (7, 20), (7, 21), (7, 23),
   (7, 24), (7, 25), (7, 26), (7, 27), (7, 28), (7, 29), (7, 30), (7, 31), (7, 127), (7, -36), (7, -7),
   (-7, 840)]"

definition ht_small_640 :: "HTState list" where
  "ht_small_640 =
   [(5, 38), (5, 38), (5, 38), (5, 38), (5, 42), (5, 42), (5, 42), (5, 42), (5, 44), (5, 44), (5, 44),
   (5, 44), (5, 59), (5, 59), (5, 59), (5, 59), (5, 88), (5, 88), (5, 88), (5, 88), (5, 90), (5, 90),
   (5, 90), (5, 90), (5, 60), (5, 60), (5, 60), (5, 60), (5, 96), (5, 96), (5, 96), (5, 96), (5, -127),
   (5, -127), (5, -127), (5, -127), (5, -124), (5, -124), (5, -124), (5, -124), (5, -123), (5, -123),
   (5, -123), (5, -123), (5, -122), (5, -122), (5, -122), (5, -122), (5, -120), (5, -120), (5, -120),
   (5, -120), (5, -110), (5, -110), (5, -110), (5, -110), (5, -102), (5, -102), (5, -102), (5, -102),
   (5, -100), (5, -100), (5, -100), (5, -100), (5, -96), (5, -96), (5, -96), (5, -96), (5, -93), (5, -93),
   (5, -93), (5, -93), (5, -92), (5, -92), (5, -92), (5, -92), (5, -87), (5, -87), (5, -87), (5, -87),
   (5, -86), (5, -86), (5, -86), (5, -86), (5, -83), (5, -83), (5, -83), (5, -83), (5, -78), (5, -78),
   (5, -78), (5, -78), (5, -75), (5, -75), (5, -75), (5, -75), (5, -71), (5, -71), (5, -71), (5, -71),
   (5, -70), (5, -70), (5, -70), (5, -70)]"

definition ht_small_744 :: "HTState list" where
  "ht_small_744 =
   [(5, -69), (5, -69), (5, -69), (5, -69), (5, -67), (5, -67), (5, -67), (5, -67), (5, -66), (5, -66),
   (5, -66), (5, -66), (5, -60), (5, -60), (5, -60), (5, -60), (5, -58), (5, -58), (5, -58), (5, -58),
   (5, -28), (5, -28), (5, -28), (5, -28), (5, -24), (5, -24), (5, -24), (5, -24), (5, -23), (5, -23),
   (5, -23), (5, -23), (6, 1), (6, 1), (6, -121), (6, -121), (6, -119), (6, -119), (6, -118), (6, -118),
   (6, -117), (6, -117), (6, -116), (6, -116), (6, -115), (6, -115), (6, -113), (6, -113), (6, -109),
   (6, -109), (6, -107), (6, -107), (6, -106), (6, -106), (6, -105), (6, -105), (6, -104), (6, -104),
   (6, -101), (6, -101), (6, -99), (6, -99), (6, -98), (6, -98), (6, -91), (6, -91), (6, -90), (6, -90),
   (6, -88), (6, -88), (6, -82), (6, -82), (6, -81), (6, -81), (6, -76), (6, -76), (6, -74), (6, -74),
   (6, -73), (6, -73), (6, -68), (6, -68), (6, -65), (6, -65), (6, -59), (6, -59), (6, -25), (6, -25),
   (6, -17), (6, -17), (7, 9), (7, -114), (7, -112), (7, -111), (7, -108), (7, -97), (6, 10), (6, 10),
   (6, 13), (6, 13), (6, 22), (6, 22), (-6, 0), (-6, 0)]"

definition ht_decode :: "HTState list" where
  "ht_decode = ht_table_0 @ ht_table_128 @ ht_table_256 @ ht_table_384 @ ht_table_512 @ ht_small_640 @ ht_small_744"

end
