(* ===== verification/Tfw_Str.thy ===== *)
theory Tfw_Str
  imports VW_Prelude "HOL-Library.Log_Nat" "HOL-Library.Sublist"
begin

unbundle bit_operations_syntax

text \<open>
  Chunked strings (\<^verbatim>\<open>src/fw/str.c\<close>): comparison, copying and the conversion of numbers.

  A string is the list of its chunks; a plain string has one chunk.  Strings of duplicates are
  compared one by one by the callers and do not occur here.  The loops keep indexes and offsets
  in C \<^verbatim>\<open>int\<close>s, so that a chunk of 2 GB or more is outside of the model.  As in the kernel, \<^verbatim>\<open>char\<close> is unsigned.
\<close>

section \<open>Bytes\<close>

type_synonym TfwStr = "u8 list list"

definition tfw_lct :: "u8 list" where
  "tfw_lct =
    [
     0x00, 0x01, 0x02, 0x03, 0x04, 0x05, 0x06, 0x07, 0x08, 0x09, 0x0a, 0x0b, 0x0c, 0x0d, 0x0e, 0x0f,
     0x10, 0x11, 0x12, 0x13, 0x14, 0x15, 0x16, 0x17, 0x18, 0x19, 0x1a, 0x1b, 0x1c, 0x1d, 0x1e, 0x1f,
     0x20, 0x21, 0x22, 0x23, 0x24, 0x25, 0x26, 0x27, 0x28, 0x29, 0x2a, 0x2b, 0x2c, 0x2d, 0x2e, 0x2f,
     0x30, 0x31, 0x32, 0x33, 0x34, 0x35, 0x36, 0x37, 0x38, 0x39, 0x3a, 0x3b, 0x3c, 0x3d, 0x3e, 0x3f,
     0x40, 0x61, 0x62, 0x63, 0x64, 0x65, 0x66, 0x67, 0x68, 0x69, 0x6a, 0x6b, 0x6c, 0x6d, 0x6e, 0x6f,
     0x70, 0x71, 0x72, 0x73, 0x74, 0x75, 0x76, 0x77, 0x78, 0x79, 0x7a, 0x5b, 0x5c, 0x5d, 0x5e, 0x5f,
     0x60, 0x61, 0x62, 0x63, 0x64, 0x65, 0x66, 0x67, 0x68, 0x69, 0x6a, 0x6b, 0x6c, 0x6d, 0x6e, 0x6f,
     0x70, 0x71, 0x72, 0x73, 0x74, 0x75, 0x76, 0x77, 0x78, 0x79, 0x7a, 0x7b, 0x7c, 0x7d, 0x7e, 0x7f,
     0x80, 0x81, 0x82, 0x83, 0x84, 0x85, 0x86, 0x87, 0x88, 0x89, 0x8a, 0x8b, 0x8c, 0x8d, 0x8e, 0x8f,
     0x90, 0x91, 0x92, 0x93, 0x94, 0x95, 0x96, 0x97, 0x98, 0x99, 0x9a, 0x9b, 0x9c, 0x9d, 0x9e, 0x9f,
     0xa0, 0xa1, 0xa2, 0xa3, 0xa4, 0xa5, 0xa6, 0xa7, 0xa8, 0xa9, 0xaa, 0xab, 0xac, 0xad, 0xae, 0xaf,
     0xb0, 0xb1, 0xb2, 0xb3, 0xb4, 0xb5, 0xb6, 0xb7, 0xb8, 0xb9, 0xba, 0xbb, 0xbc, 0xbd, 0xbe, 0xbf,
     0xc0, 0xc1, 0xc2, 0xc3, 0xc4, 0xc5, 0xc6, 0xc7, 0xc8, 0xc9, 0xca, 0xcb, 0xcc, 0xcd, 0xce, 0xcf,
     0xd0, 0xd1, 0xd2, 0xd3, 0xd4, 0xd5, 0xd6, 0xd7, 0xd8, 0xd9, 0xda, 0xdb, 0xdc, 0xdd, 0xde, 0xdf,
     0xe0, 0xe1, 0xe2, 0xe3, 0xe4, 0xe5, 0xe6, 0xe7, 0xe8, 0xe9, 0xea, 0xeb, 0xec, 0xed, 0xee, 0xef,
     0xf0, 0xf1, 0xf2, 0xf3, 0xf4, 0xf5, 0xf6, 0xf7, 0xf8, 0xf9, 0xfa, 0xfb, 0xfc, 0xfd, 0xfe, 0xff]"

definition TFW_LC :: "u8 \<Rightarrow> u8" where
  "TFW_LC c = tfw_lct ! unat c"

abbreviation (input) INT_MAX :: int where "INT_MAX \<equiv> 0x7FFFFFFF"

text \<open>Conversion to \<^verbatim>\<open>int\<close>.\<close>

definition c_int :: "int \<Rightarrow> int" where
  "c_int x = (x + 2 ^ 31) mod 2 ^ 32 - 2 ^ 31"

text \<open>The bytes of a string literal.\<close>

definition bytes :: "string \<Rightarrow> u8 list" where
  "bytes s = map of_char s"

section \<open>Comparison\<close>

text \<open>A read behind the end of a buffer is \<open>None\<close>.\<close>

fun cstricmpspn :: "int \<Rightarrow> bool \<Rightarrow> u8 list \<Rightarrow> u8 list \<Rightarrow> nat \<Rightarrow> int option" where
  "cstricmpspn stop cs s1 s2 0 = Some 0"
| "cstricmpspn stop cs (a # s1) (b # s2) (Suc n) =
     (let c1 = (if cs then a else TFW_LC a); c2 = (if cs then b else TFW_LC b) in
      if c1 \<noteq> c2 then Some (if c1 < c2 then -1 else 1)
      else if uint c1 = stop then Some INT_MAX
      else cstricmpspn stop cs s1 s2 n)"
| "cstricmpspn stop cs _ _ (Suc n) = None"

definition TFW_STR_CHUNK :: "TfwStr \<Rightarrow> nat \<Rightarrow> u8 list option" where
  "TFW_STR_CHUNK s i = (if i < length s then Some (s ! i) else None)"

text \<open>
  The loop that \<^verbatim>\<open>__tfw_strcmp()\<close> and \<^verbatim>\<open>__tfw_strcmpspn()\<close> have in common: \<open>n\<close> bytes are compared
  by pieces that lie in one chunk of each string.  The result is a difference, or the indexes and
  offsets behind the compared bytes.  The length of a piece is an \<^verbatim>\<open>int\<close>: a negative one reads beyond
  the chunks, and one that became zero is compared for ever.
\<close>

definition next_chunk :: "nat \<Rightarrow> nat \<Rightarrow> nat \<Rightarrow> nat \<Rightarrow> nat \<times> nat" where
  "next_chunk i off len cn = (if cn = len - off then (Suc i, 0) else (i, off + cn))"

lemma next_chunk_less:
  assumes "i1 < k1" "i2 < k2" "n \<noteq> 0" "cn \<noteq> 0 \<or> min (l1 - off1) (l2 - off2) = 0"
    "next_chunk i1 off1 l1 cn = (j1, o1)" "next_chunk i2 off2 l2 cn = (j2, o2)"
  shows "(k1 - j1) + (k2 - j2) + (n - cn) < (k1 - i1) + (k2 - i2) + n"
proof -
  have j: "i1 \<le> j1" "i2 \<le> j2" "cn = l1 - off1 \<Longrightarrow> j1 = Suc i1" "cn = l2 - off2 \<Longrightarrow> j2 = Suc i2"
    using assms(5,6) by (auto simp: next_chunk_def split: if_splits)
  show ?thesis
  proof (cases "cn = 0")
    case True
    then have "l1 - off1 = 0 \<or> l2 - off2 = 0" using assms(4) by (auto simp: min_def split: if_splits)
    then have "j1 = Suc i1 \<or> j2 = Suc i2" using True j(3,4) by auto
    then show ?thesis using j(1,2) assms(1,2) True by linarith
  next
    case False
    then show ?thesis using j(1,2) assms(1-3) by linarith
  qed
qed

function strcmp_loop ::
    "(u8 list \<Rightarrow> u8 list \<Rightarrow> nat \<Rightarrow> int option) \<Rightarrow> TfwStr \<Rightarrow> TfwStr \<Rightarrow> nat \<times> nat \<Rightarrow> nat \<times> nat \<Rightarrow> nat \<Rightarrow>
     (int + (nat \<times> nat) \<times> (nat \<times> nat)) option" where
  "strcmp_loop cmp s1 s2 (i1, off1) (i2, off2) n =
     (if n = 0 then Some (Inr ((i1, off1), (i2, off2)))
      else if length s1 \<le> i1 \<or> length s2 \<le> i2 then None
      else
        let c1 = s1 ! i1; c2 = s2 ! i2; piece = min (length c1 - off1) (length c2 - off2);
            cn = nat (c_int (int piece)) in
        if c_int (int piece) < 0 \<or> cn = 0 \<and> piece \<noteq> 0 then None
        else
          case cmp (drop off1 c1) (drop off2 c2) cn of
            None \<Rightarrow> None
          | Some r \<Rightarrow>
              if r \<noteq> 0 then Some (Inl r)
              else strcmp_loop cmp s1 s2 (next_chunk i1 off1 (length c1) cn)
                     (next_chunk i2 off2 (length c2) cn) (n - cn))"
  by pat_completeness auto

termination
proof (relation "measure (\<lambda>(cmp, s1, s2, (i1, off1), (i2, off2), n). (length s1 - i1) + (length s2 - i2) + n)", goal_cases)
  case (2 cmp s1 s2 i1 off1 i2 off2 n c1 c2 piece cn r)
  obtain j1 o1 j2 o2 where "next_chunk i1 off1 (length c1) cn = (j1, o1)" "next_chunk i2 off2 (length c2) cn = (j2, o2)"
    by (meson surj_pair)
  then show ?case using 2 next_chunk_less [of i1 "length s1" i2 "length s2" n cn "length c1" off1 "length c2" off2]
    by (simp only: in_measure prod.case not_le de_Morgan_disj de_Morgan_conj not_not simp_thms)
qed simp

declare strcmp_loop.simps [simp del]

definition tfw_strcmp ::
    "(u8 list \<Rightarrow> u8 list \<Rightarrow> nat \<Rightarrow> int option) \<Rightarrow> TfwStr \<Rightarrow> TfwStr \<Rightarrow> int option" where
  "tfw_strcmp cmp s1 s2 =
     (let l1 = length (concat s1); l2 = length (concat s2) in
      if l1 = 0 \<or> l2 = 0 then Some (c_int (int l1 - int l2))
      else
        map_option (\<lambda>r. case r of Inl d \<Rightarrow> d | Inr _ \<Rightarrow> c_int (int l1 - int l2))
          (strcmp_loop cmp s1 s2 (0, 0) (0, 0) (min l1 l2)))"

text \<open>The next byte of a string whose comparison stopped at a chunk and an offset.\<close>

definition at_stop :: "TfwStr \<Rightarrow> nat \<times> nat \<Rightarrow> int \<Rightarrow> bool" where
  "at_stop s p stop =
     (case TFW_STR_CHUNK s (fst p) of
        None \<Rightarrow> False
      | Some c \<Rightarrow> length c > snd p \<and> uint (c ! snd p) = stop)"

definition tfw_strcmpspn :: "TfwStr \<Rightarrow> TfwStr \<Rightarrow> int \<Rightarrow> bool \<Rightarrow> int option" where
  "tfw_strcmpspn s1 s2 stop cs =
     (let l1 = length (concat s1); l2 = length (concat s2) in
      if stop = 0 then None
      else if l1 = 0 \<or> l2 = 0 then Some (c_int (int l1 - int l2))
      else
        map_option
          (\<lambda>r. case r of
             Inl d \<Rightarrow> if d = INT_MAX then 0 else d
           | Inr (p1, p2) \<Rightarrow>
               if l1 = l2 \<or> at_stop s1 p1 stop \<or> at_stop s2 p2 stop then 0 else c_int (int l1 - int l2))
          (strcmp_loop (cstricmpspn stop cs) s1 s2 (0, 0) (0, 0) (min l1 l2)))"

abbreviation (input) tfw_stricmpspn :: "TfwStr \<Rightarrow> TfwStr \<Rightarrow> int \<Rightarrow> int option" where
  "tfw_stricmpspn s1 s2 stop \<equiv> tfw_strcmpspn s1 s2 stop False"

text \<open>
  \<open>cmp\<close> is \<^verbatim>\<open>memcmp_fast()\<close> or \<^verbatim>\<open>tfw_cstricmp()\<close>, chosen by the flag \<^verbatim>\<open>TFW_STR_EQ_CASEI\<close>; called with a
  negative length they read beyond the chunk.
\<close>

fun tfw_str_eq_cstr ::
    "(u8 list \<Rightarrow> u8 list \<Rightarrow> nat \<Rightarrow> int option) \<Rightarrow> bool \<Rightarrow> TfwStr \<Rightarrow> u8 list \<Rightarrow> bool option" where
  "tfw_str_eq_cstr cmp prefx [] cstr = Some (cstr = [])"
| "tfw_str_eq_cstr cmp prefx (c # cs) cstr =
     (let clen = int (length cstr); len = min clen (c_int (int (length c))) in
      if len < 0 then None
      else
        case cmp cstr c (nat len) of
          None \<Rightarrow> None
        | Some r \<Rightarrow>
            if r \<noteq> 0 then Some False
            else if c_int (int (length c)) > clen then Some prefx
            else tfw_str_eq_cstr cmp prefx cs (drop (nat len) cstr))"

fun eq_cstr_skip ::
    "(u8 list \<Rightarrow> u8 list \<Rightarrow> nat \<Rightarrow> int option) \<Rightarrow> bool \<Rightarrow> TfwStr \<Rightarrow> nat \<Rightarrow> u8 list \<Rightarrow> bool option" where
  "eq_cstr_skip cmp prefx [] offset cstr = Some False"
| "eq_cstr_skip cmp prefx (c # cs) offset cstr =
     (if offset \<ge> length c then eq_cstr_skip cmp prefx cs (offset - length c) cstr
      else tfw_str_eq_cstr cmp prefx (drop offset c # cs) cstr)"

definition tfw_str_eq_cstr_off ::
    "(u8 list \<Rightarrow> u8 list \<Rightarrow> nat \<Rightarrow> int option) \<Rightarrow> bool \<Rightarrow> TfwStr \<Rightarrow> int \<Rightarrow> u8 list \<Rightarrow> bool option" where
  "tfw_str_eq_cstr_off cmp prefx str offset cstr =
     (if cstr = [] then None
      else if offset < 0 then Some False
      else if offset = 0 then tfw_str_eq_cstr cmp prefx str cstr
      else if nat offset + length cstr > length (concat str) then Some False
      else eq_cstr_skip cmp prefx str (nat offset) cstr)"

section \<open>Copying\<close>

text \<open>
  \<^verbatim>\<open>tfw_str_to_cstr()\<close>: the bytes written to the buffer, the final zero included, and the length
  returned.  \<^verbatim>\<open>strncpy()\<close> writes zeros behind a zero byte.
\<close>

definition strncpy :: "u8 list \<Rightarrow> nat \<Rightarrow> u8 list" where
  "strncpy src n =
     (let s = takeWhile (\<lambda>c. c \<noteq> 0) (take n src) in s @ replicate (n - length s) 0)"

fun to_cstr_loop :: "TfwStr \<Rightarrow> int \<Rightarrow> u8 list option" where
  "to_cstr_loop [] sz = Some []"
| "to_cstr_loop (c # cs) sz =
     (let len = min sz (c_int (int (length c))) in
      if len < 0 then None
      else if sz - len = 0 then Some (strncpy c (nat len))
      else map_option (\<lambda>out. strncpy c (nat len) @ out) (to_cstr_loop cs (sz - len)))"

definition tfw_str_to_cstr :: "TfwStr \<Rightarrow> int \<Rightarrow> (u8 list \<times> nat) option" where
  "tfw_str_to_cstr str buf_size =
     (if buf_size \<le> 0 then None
      else map_option (\<lambda>out. (out @ [0], length out)) (to_cstr_loop str (buf_size - 1)))"

section \<open>Numbers\<close>

definition dig_num_dec :: "u64 \<Rightarrow> nat" where
  "dig_num_dec a =
     (if a < 10 then 1 else if a < 100 then 2 else if a < 1000 then 3 else if a < 10000 then 4
      else if a < 100000 then 5 else if a < 1000000 then 6 else if a < 10000000 then 7
      else if a < 100000000 then 8 else if a < 1000000000 then 9 else if a < 10000000000 then 10
      else if a < 100000000000 then 11 else if a < 1000000000000 then 12
      else if a < 10000000000000 then 13 else if a < 100000000000000 then 14
      else if a < 1000000000000000 then 15 else if a < 10000000000000000 then 16
      else if a < 100000000000000000 then 17 else if a < 1000000000000000000 then 18
      else if a < 10000000000000000000 then 19 else 20)"

definition dig_num_hex :: "u64 \<Rightarrow> nat" where
  "dig_num_hex a = (if a = 0 then 1 else (floorlog 2 (unat a) - 1) div 4 + 1)"

text \<open>The loop writes the digits from the right; \<open>b\<close> is the base.\<close>

function ulto_loop :: "u64 \<Rightarrow> u64 \<Rightarrow> u8 list \<Rightarrow> u8 list" where
  "ulto_loop b a ds =
     (if b < 2 then []
      else
        let ds = bytes ''0123456789abcdef'' ! unat (a mod b) # ds in
        if a div b = 0 then ds else ulto_loop b (a div b) ds)"
  by pat_completeness auto

termination
proof (relation "measure (\<lambda>(b, a, ds). unat a)", goal_cases)
  case (2 b a ds x)
  then have "2 \<le> unat b" "unat a \<noteq> 0"
    by (auto simp: word_le_nat_alt word_less_nat_alt not_less unat_eq_0)
  then show ?case by (simp add: unat_div)
qed simp

declare ulto_loop.simps [simp del]

text \<open>
  The buffer up to the end of the number; a byte that was not written is \<open>None\<close>.  Writing in front
  of the buffer is no result.
\<close>

definition ulto :: "u64 \<Rightarrow> nat \<Rightarrow> u64 \<Rightarrow> u32 \<Rightarrow> (nat \<times> u8 option list) option" where
  "ulto b n a len =
     (if n > unat len then Some (0, [])
      else
        let ds = ulto_loop b a [] in
        if length ds > n then None else Some (n, replicate (n - length ds) None @ map Some ds))"

definition tfw_ultoa :: "u64 \<Rightarrow> u32 \<Rightarrow> (nat \<times> u8 option list) option" where
  "tfw_ultoa a len = ulto 10 (dig_num_dec a) a len"

definition tfw_ultohex :: "u64 \<Rightarrow> u32 \<Rightarrow> (nat \<times> u8 option list) option" where
  "tfw_ultohex a len = ulto 16 (dig_num_hex a) a len"

end
