(* ===== verification/Hpack_Huffman.thy ===== *)
theory Hpack_Huffman
  imports Hpack_Tables Tfw_Str
begin

unbundle bit_operations_syntax

text \<open>
  The Huffman coder of HPACK, \<^verbatim>\<open>src/fw/hpack.c\<close>.

  The decoder takes its input in fragments.  Its state is the part of \<^verbatim>\<open>TfwHPack\<close> that survives
  between fragments; the decoded string of \<^verbatim>\<open>req->pit.hdr\<close> is the list \<open>hp_hdr\<close>.  Memory for
  this string may run out: \<^verbatim>\<open>tfw_hpack_huffman_write()\<close> returns the code \<open>wr\<close> gives for the
  string decoded so far.  The encoder writes to a buffer of fixed size through a pointer; \<open>None\<close>
  is an access outside of a table or a buffer.  As in the kernel, \<^verbatim>\<open>char\<close> is unsigned.
\<close>

section \<open>Decoder\<close>

abbreviation (input) HT_NBITS :: int where "HT_NBITS \<equiv> 7"
abbreviation (input) HT_MBITS :: int where "HT_MBITS \<equiv> 3"
abbreviation (input) HT_NMASK :: u32 where "HT_NMASK \<equiv> 127"
abbreviation (input) HT_MMASK :: u32 where "HT_MMASK \<equiv> 7"
abbreviation (input) HT_SMALL :: u16 where "HT_SMALL \<equiv> 640"
abbreviation (input) HT_EOS_HIGH :: u32 where "HT_EOS_HIGH \<equiv> 0xFF"

record TfwHPack =
  hp_length :: u64
  hp_curr :: int
  hp_hctx :: u16
  hp_offset :: u16
  hp_hdr :: "u8 list"

definition tfw_huffman_init :: "TfwHPack \<Rightarrow> TfwHPack" where
  "tfw_huffman_init hp = hp\<lparr>hp_curr := - HT_NBITS\<rparr>"

definition ht_entry :: "u16 \<Rightarrow> u32 \<Rightarrow> HTState option" where
  "ht_entry offset i =
     (let n = unat offset + unat i in if n < length ht_decode then Some (ht_decode ! n) else None)"

definition tfw_hpack_huffman_write :: "(u8 list \<Rightarrow> rc) \<Rightarrow> u8 \<Rightarrow> TfwHPack \<Rightarrow> rc \<times> TfwHPack" where
  "tfw_hpack_huffman_write wr s hp =
     (let r = wr (hp_hdr hp) in
      (r, if r = T_OK then hp\<lparr>hp_hdr := hp_hdr hp @ [s]\<rparr> else hp))"

text \<open>The last bits are a prefix of the end of string symbol, i.e. ones.\<close>

definition eos_padding :: "u16 \<Rightarrow> u32 \<Rightarrow> int \<Rightarrow> bool" where
  "eos_padding offset i cur \<longleftrightarrow>
     offset = 0 \<and> i XOR drop_bit 1 HT_EOS_HIGH < push_bit (nat (- cur)) 1"

function huffman_decode_tail ::
    "(u8 list \<Rightarrow> rc) \<Rightarrow> u16 \<Rightarrow> TfwHPack \<Rightarrow> (rc \<times> TfwHPack) option" where
  "huffman_decode_tail wr offset hp =
     (if hp_curr hp = - HT_NBITS then Some (if offset = 0 then T_OK else T_COMPRESSION, hp)
      else if hp_curr hp > 0 then None
      else
        let i = push_bit (nat (- hp_curr hp)) (ucast (hp_hctx hp)) AND HT_NMASK in
        (case ht_entry offset i of
           None \<Rightarrow> None
         | Some (shift, off) \<Rightarrow>
             if shift > 0 \<and> shift \<le> hp_curr hp + HT_NBITS then
               (case tfw_hpack_huffman_write wr (word_of_int off) hp of
                  (r, hp') \<Rightarrow>
                    if r \<noteq> T_OK then Some (r, hp')
                    else huffman_decode_tail wr 0 (hp'\<lparr>hp_curr := hp_curr hp - shift\<rparr>))
             else if shift \<noteq> 0 \<and> eos_padding offset i (hp_curr hp) then Some (T_OK, hp)
             else Some (T_COMPRESSION, hp)))"
  by pat_completeness auto

termination
  by (relation "measure (\<lambda>(wr, offset, hp). nat (hp_curr hp + HT_NBITS))")
    (auto simp: tfw_hpack_huffman_write_def Let_def split: if_splits)

declare huffman_decode_tail.simps [simp del]

definition huffman_decode_tail_s ::
    "(u8 list \<Rightarrow> rc) \<Rightarrow> u16 \<Rightarrow> TfwHPack \<Rightarrow> (rc \<times> TfwHPack) option" where
  "huffman_decode_tail_s wr offset hp =
     (if hp_curr hp = - HT_MBITS then Some (T_COMPRESSION, hp)
      else if hp_curr hp > 0 then None
      else
        let i = push_bit (nat (- hp_curr hp)) (ucast (hp_hctx hp)) AND HT_MMASK in
        (case ht_entry offset i of
           None \<Rightarrow> None
         | Some (shift, off) \<Rightarrow>
             if shift > 0 \<and> shift \<le> hp_curr hp + HT_NBITS then
               (case tfw_hpack_huffman_write wr (word_of_int off) hp of
                  (r, hp') \<Rightarrow>
                    if r \<noteq> T_OK then Some (r, hp')
                    else huffman_decode_tail wr 0 (hp'\<lparr>hp_curr := hp_curr hp - shift\<rparr>))
             else Some (T_COMPRESSION, hp)))"

fun SET_NEXT :: "TfwHPack \<Rightarrow> u8 list \<Rightarrow> TfwHPack \<times> u8 list" where
  "SET_NEXT hp [] = (hp, [])"
| "SET_NEXT hp (b # src) =
     (hp\<lparr>hp_curr := hp_curr hp + 8, hp_hctx := push_bit 8 (hp_hctx hp) OR ucast b,
         hp_length := hp_length hp - 1\<rparr>, src)"

text \<open>
  The two loops of \<^verbatim>\<open>tfw_huffman_decode()\<close>: with \<open>small\<close> at the label \<^verbatim>\<open>ht_small\<close>, otherwise at the
  top of the inner loop.
\<close>

partial_function (option) huffman_decode_loop ::
    "(u8 list \<Rightarrow> rc) \<Rightarrow> bool \<Rightarrow> u16 \<Rightarrow> TfwHPack \<Rightarrow> u8 list \<Rightarrow> (rc \<times> TfwHPack) option" where
  [code]: "huffman_decode_loop wr small offset hp src =
     (let short = (if small then hp_curr hp < 0 else hp_curr hp \<le> 0) in
      if short \<and> src = [] then
        (if hp_length hp \<noteq> 0 then Some (T_POSTPONE, hp\<lparr>hp_offset := offset\<rparr>)
         else if small then huffman_decode_tail_s wr offset hp
         else huffman_decode_tail wr offset hp)
      else
        let (hp, src) = (if short then SET_NEXT hp src else (hp, src)) in
        if hp_curr hp < 0 then None
        else
          (case ht_entry offset (drop_bit (nat (hp_curr hp)) (ucast (hp_hctx hp))
                                 AND (if small then HT_MMASK else HT_NMASK)) of
             None \<Rightarrow> None
           | Some (shift, off) \<Rightarrow>
               if shift > 0 then
                 (case tfw_hpack_huffman_write wr (word_of_int off) hp of
                    (r, hp') \<Rightarrow>
                      if r \<noteq> T_OK then Some (r, hp')
                      else huffman_decode_loop wr False 0 (hp'\<lparr>hp_curr := hp_curr hp - shift\<rparr>) src)
               else if small \<or> shift = 0 then Some (T_COMPRESSION, hp)
               else
                 let hp = hp\<lparr>hp_curr := hp_curr hp + shift\<rparr> in
                 if off \<ge> uint HT_SMALL then
                   huffman_decode_loop wr True (word_of_int off)
                     (hp\<lparr>hp_curr := hp_curr hp + (HT_NBITS - HT_MBITS)\<rparr>) src
                 else if off = 0 then Some (T_COMPRESSION, hp)
                 else huffman_decode_loop wr False (word_of_int off) hp src))"

definition tfw_huffman_decode ::
    "(u8 list \<Rightarrow> rc) \<Rightarrow> TfwHPack \<Rightarrow> u8 list \<Rightarrow> (rc \<times> TfwHPack) option" where
  "tfw_huffman_decode wr hp src =
     (if src = [] then Some (T_OK, hp)
      else
        case SET_NEXT hp src of
          (hp, src) \<Rightarrow>
            huffman_decode_loop wr (hp_offset hp \<ge> HT_SMALL) (hp_offset hp) (hp\<lparr>hp_offset := 0\<rparr>) src)"

section \<open>Encoder\<close>

definition tfw_huffman_encode_string_len :: "TfwStr \<Rightarrow> u64" where
  "tfw_huffman_encode_string_len str =
     drop_bit 3 (fold (\<lambda>s n. n + ucast (ht_length ! unat s)) (concat str) 0 + 7)"

definition JOIN_BITS :: "u64 \<Rightarrow> nat \<Rightarrow> u64 \<Rightarrow> u64" where
  "JOIN_BITS a len b = push_bit len a OR b"

text \<open>The eight bytes of a word in the order in which \<^verbatim>\<open>cpu_to_be64()\<close> stores them.\<close>

definition be64_bytes :: "u64 \<Rightarrow> u8 list" where
  "be64_bytes w = map (\<lambda>k. ucast (drop_bit (8 * k) w)) [7, 6, 5, 4, 3, 2, 1, 0]"

record huff_dst =
  hd_off :: nat
  hd_last_word :: u64
  hd_out :: "u8 list"
  hd_len :: nat

text \<open>
  A store of several bytes.  When fewer bytes are left, \<^verbatim>\<open>write_bytes\<close> moves its pointer by eight
  for each byte: it stops at once when nothing is left, and leaves the buffer otherwise.
\<close>

definition store_bytes :: "u8 list \<Rightarrow> huff_dst \<Rightarrow> (rc \<times> huff_dst) option" where
  "store_bytes bs d =
     (if hd_len d - length (hd_out d) \<ge> length bs then Some (T_OK, d\<lparr>hd_out := hd_out d @ bs\<rparr>)
      else if hd_len d = length (hd_out d) then Some (EINVAL, d)
      else None)"

definition huffman_encode_symbol :: "u8 \<Rightarrow> huff_dst \<Rightarrow> (rc \<times> huff_dst) option" where
  "huffman_encode_symbol s h =
     (let d = 64 - hd_off h;
          e = ucast (ht_encode ! unat s) :: u64;
          l = unat (ht_length ! unat s);
          off = hd_off h + l in
      if l \<le> d then Some (T_OK, h\<lparr>hd_off := off, hd_last_word := JOIN_BITS (hd_last_word h) l e\<rparr>)
      else do {
        (r, h) \<leftarrow> store_bytes
          (be64_bytes (JOIN_BITS (hd_last_word h) d (drop_bit (off - 64) e))) h;
        Some (r, h\<lparr>hd_off := off - 64, hd_last_word := e\<rparr>)
      })"

fun huffman_encode_symbols :: "u8 list \<Rightarrow> huff_dst \<Rightarrow> (rc \<times> huff_dst) option" where
  "huffman_encode_symbols [] h = Some (T_OK, h)"
| "huffman_encode_symbols (s # ss) h = do {
     (r, h) \<leftarrow> huffman_encode_symbol s h;
     (if r \<noteq> T_OK then Some (r, h) else huffman_encode_symbols ss h)
   }"

text \<open>Store \<open>n\<close> bytes of the rest when at least \<open>n\<close> bytes are due.\<close>

definition store_part :: "nat \<Rightarrow> u8 list \<times> huff_dst \<Rightarrow> (rc \<times> u8 list \<times> huff_dst) option" where
  "store_part n = (\<lambda>(bs, h).
     (if hd_off h > 8 * n - 1 then
        map_option (\<lambda>(r, h). (r, drop n bs, h\<lparr>hd_off := hd_off h - 8 * n\<rparr>)) (store_bytes (take n bs) h)
      else Some (T_OK, bs, h)))"

definition huffman_encode_tail :: "huff_dst \<Rightarrow> (rc \<times> huff_dst) option" where
  "huffman_encode_tail h =
     (let tail = hd_off h mod 8;
          h = (if tail \<noteq> 0 then
                 h\<lparr>hd_off := hd_off h + (8 - tail),
                   hd_last_word := JOIN_BITS (hd_last_word h) (8 - tail) (drop_bit tail (ucast HT_EOS_HIGH))\<rparr>
               else h);
          bs = be64_bytes (push_bit (64 - hd_off h) (hd_last_word h)) in
      if hd_off h = 64 then store_bytes bs h
      else do {
        (r, bs, h) \<leftarrow> store_part 4 (bs, h);
        if r \<noteq> T_OK then Some (r, h)
        else do {
          (r, bs, h) \<leftarrow> store_part 2 (bs, h);
          if r \<noteq> T_OK then Some (r, h)
          else if hd_off h \<noteq> 0 then store_bytes (take 1 bs) h
          else Some (T_OK, h)
        }
      })"

definition tfw_huffman_encode_copy :: "TfwStr \<Rightarrow> nat \<Rightarrow> (rc \<times> u8 list) option" where
  "tfw_huffman_encode_copy src dst_len = do {
     (r, h) \<leftarrow> huffman_encode_symbols (concat src)
       \<lparr>hd_off = 0, hd_last_word = 0, hd_out = [], hd_len = dst_len\<rparr>;
     (if r \<noteq> T_OK then Some (r, hd_out h)
      else if hd_off h = 0 then Some (T_OK, hd_out h)
      else map_option (\<lambda>(r, h). (r, hd_out h)) (huffman_encode_tail h))
   }"

text \<open>\<open>alloc\<close> says whether the pool has memory; the result is the encoded string or an error.\<close>

definition tfw_huffman_encode_string :: "bool \<Rightarrow> TfwStr \<Rightarrow> (rc + u8 list) option" where
  "tfw_huffman_encode_string alloc str =
     (let enc_len = tfw_huffman_encode_string_len str in
      if enc_len = 0 then Some (Inl EINVAL)
      else if \<not> alloc then Some (Inl ENOMEM)
      else map_option (\<lambda>(r, out). if r \<noteq> T_OK then Inl r else Inr out)
             (tfw_huffman_encode_copy str (unat enc_len)))"

end
