(* ===== verification/Hpack_Code.thy ===== *)
theory Hpack_Code
  imports Hpack_Huffman "HOL-Library.Sublist"
begin

unbundle bit_operations_syntax

text \<open>
  The code of RFC 7541 appendix B as the tables of \<^verbatim>\<open>src/fw/hpack_tbl.h\<close> hold it: bit strings,
  the code word of each symbol, that no code word is a prefix of another or consists of ones
  only, and that the table of the decoder agrees with the table of the encoder.
\<close>

section \<open>Bit strings\<close>

text \<open>The \<open>n\<close> low bits of a number, the highest one first.\<close>

definition nbits :: "nat \<Rightarrow> int \<Rightarrow> bool list" where
  "nbits n v = map (bit v) (rev [0..<n])"

lemma length_nbits [simp]: "length (nbits n v) = n"
  by (simp add: nbits_def)

lemma nbits_0 [simp]: "nbits 0 v = []"
  by (simp add: nbits_def)

lemma nth_nbits: "k < n \<Longrightarrow> nbits n v ! k = bit v (n - Suc k)"
  by (simp add: nbits_def rev_nth)

lemma nbits_split: "nbits (n + m) v = nbits n (drop_bit m v) @ nbits m v"
  by (rule nth_equalityI) (auto simp: nth_nbits nth_append bit_drop_bit_eq Suc_diff_Suc algebra_simps
      intro!: arg_cong [of _ _ "bit v"])

lemma nbits_concat:
  assumes "0 \<le> b" "b < 2 ^ m"
  shows "nbits (n + m) (a * 2 ^ m + b) = nbits n a @ nbits m b"
proof -
  have "drop_bit m (a * 2 ^ m + b) = a" using assms by (simp add: drop_bit_eq_div)
  moreover have "nbits m (a * 2 ^ m + b) = nbits m b"
  proof (rule nth_equalityI)
    fix k assume "k < length (nbits m (a * 2 ^ m + b))"
    moreover have "take_bit m (a * 2 ^ m + b) = take_bit m b" by (simp add: take_bit_eq_mod)
    ultimately show "nbits m (a * 2 ^ m + b) ! k = nbits m b ! k"
      by (simp add: nth_nbits) (metis bit_take_bit_iff diff_Suc_less gr0I not_less0 zero_less_diff)
  qed simp
  ultimately show ?thesis by (simp add: nbits_split)
qed

lemma nbits_take: "k \<le> n \<Longrightarrow> take k (nbits n v) = nbits k (drop_bit (n - k) v)"
  using nbits_split [of k "n - k" v] by simp

lemma nbits_drop: "k \<le> n \<Longrightarrow> drop k (nbits n v) = nbits (n - k) v"
  using nbits_split [of k "n - k" v] by simp

lemma nbits_inj:
  assumes "nbits n a = nbits n b" "0 \<le> a" "a < 2 ^ n" "0 \<le> b" "b < 2 ^ n"
  shows "a = b"
proof -
  have "take_bit n a = take_bit n b"
  proof (rule bit_eqI)
    fix k
    have "bit a k = bit b k" if "k < n"
      using arg_cong [OF assms(1), of "\<lambda>xs. xs ! (n - Suc k)"] that by (simp add: nth_nbits)
    then show "bit (take_bit n a) k = bit (take_bit n b) k" by (auto simp: bit_take_bit_iff)
  qed
  then show ?thesis using assms by (simp add: take_bit_int_eq_self)
qed

lemma nbits_ones: "nbits n (2 ^ n - 1) = replicate n True"
  by (rule nth_equalityI) (auto simp: nth_nbits simp flip: mask_eq_exp_minus_1 simp: bit_mask_iff)

section \<open>Code words\<close>

definition code_of :: "u8 \<Rightarrow> int \<times> int" where
  "code_of s = (uint (ht_length ! unat s), uint (ht_encode ! unat s))"

definition huff_code :: "u8 \<Rightarrow> bool list" where
  "huff_code s = nbits (unat (ht_length ! unat s)) (uint (ht_encode ! unat s))"

lemma huff_code_of: "code_of s = (l, v) \<Longrightarrow> huff_code s = nbits (nat l) v"
  by (auto simp: code_of_def huff_code_def)

lemma table_lengths: "length ht_length = 256" "length ht_encode = 256"
  by (simp_all add: ht_length_def ht_encode_def)

fun codes_from :: "int \<Rightarrow> (int \<times> int) list \<Rightarrow> bool" where
  "codes_from i [] = True"
| "codes_from i (c # cs) = (code_of (word_of_int i) = c \<and> codes_from (i + 1) cs)"

lemma codes_from_nth: "codes_from i cs \<longleftrightarrow> (\<forall>k < length cs. code_of (word_of_int (i + int k)) = cs ! k)"
proof (induction cs arbitrary: i)
  case (Cons c cs)
  have "(\<forall>k < length (c # cs). code_of (word_of_int (i + int k)) = (c # cs) ! k)
     \<longleftrightarrow> code_of (word_of_int i) = c \<and> (\<forall>k < length cs. code_of (word_of_int (i + 1 + int k)) = cs ! k)"
    by (auto simp: less_Suc_eq_0_disj add.assoc)
  with Cons show ?case by simp
qed simp

lemma code_of_all: "codes_from 0 (zip (map uint ht_length) (map uint ht_encode))"
  by (simp add: codes_from_nth code_of_def table_lengths unsigned_of_nat take_bit_nat_eq_self)

text \<open>The code words of all symbols, as rewrite rules.\<close>

lemmas code_of_table = code_of_all [unfolded ht_length_def ht_encode_def, simplified]

section \<open>No code word is a prefix of another\<close>

text \<open>
  The symbols in the order of their code words.  A code word stands for the interval of 30-bit
  numbers that begin with it; the intervals do not overlap, and none reaches the number made
  of ones.
\<close>

definition huff_order :: "u8 list" where
  "huff_order =
   [48, 49, 50, 97, 99, 101, 105, 111, 115, 116, 32, 37, 45, 46, 47, 51, 52, 53, 54, 55, 56, 57, 61, 65, 95,
   98, 100, 102, 103, 104, 108, 109, 110, 112, 114, 117, 58, 66, 67, 68, 69, 70, 71, 72, 73, 74, 75, 76, 77,
   78, 79, 80, 81, 82, 83, 84, 85, 86, 87, 89, 106, 107, 113, 118, 119, 120, 121, 122, 38, 42, 44, 59, 88,
   90, 33, 34, 40, 41, 63, 39, 43, 124, 35, 62, 0, 36, 64, 91, 93, 126, 94, 125, 60, 96, 123, 92, 195, 208,
   128, 130, 131, 162, 184, 194, 224, 226, 153, 161, 167, 172, 176, 177, 179, 209, 216, 217, 227, 229, 230,
   129, 132, 133, 134, 136, 146, 154, 156, 160, 163, 164, 169, 170, 173, 178, 181, 185, 186, 187, 189, 190,
   196, 198, 228, 232, 233, 1, 135, 137, 138, 139, 140, 141, 143, 147, 149, 150, 151, 152, 155, 157, 158,
   165, 166, 168, 174, 175, 180, 182, 183, 188, 191, 197, 231, 239, 9, 142, 144, 145, 148, 159, 171, 206,
   215, 225, 236, 237, 199, 207, 234, 235, 192, 193, 200, 201, 202, 205, 210, 213, 218, 219, 238, 240, 242,
   243, 255, 203, 204, 211, 212, 214, 221, 222, 223, 241, 244, 245, 246, 247, 248, 250, 251, 252, 253, 254,
   2, 3, 4, 5, 6, 7, 8, 11, 12, 14, 15, 16, 17, 18, 19, 20, 21, 23, 24, 25, 26, 27, 28, 29, 30, 31, 127, 220,
   249, 10, 13, 22]"

fun intervals_ok :: "int \<Rightarrow> (int \<times> int) list \<Rightarrow> bool" where
  "intervals_ok low [] = (low < 2 ^ 30)"
| "intervals_ok low ((l, v) # cs) =
     (0 < l \<and> l \<le> 30 \<and> 0 \<le> v \<and> low \<le> v * 2 ^ nat (30 - l) \<and> intervals_ok ((v + 1) * 2 ^ nat (30 - l)) cs)"

lemma huff_intervals: "intervals_ok 0 (map code_of huff_order)"
  by (simp add: huff_order_def code_of_table)

definition ivl_lo :: "int \<times> int \<Rightarrow> int" where "ivl_lo c = snd c * 2 ^ nat (30 - fst c)"
definition ivl_hi :: "int \<times> int \<Rightarrow> int" where "ivl_hi c = (snd c + 1) * 2 ^ nat (30 - fst c)"

lemma intervals_bounds:
  "intervals_ok low cs \<Longrightarrow> low < 2 ^ 30 \<and> (\<forall>c \<in> set cs. 0 < fst c \<and> fst c \<le> 30 \<and> 0 \<le> snd c \<and> low \<le> ivl_lo c \<and> ivl_hi c < 2 ^ 30)"
proof (induction low cs rule: intervals_ok.induct)
  case (2 low l v cs)
  let ?a = "v * 2 ^ nat (30 - l)" and ?b = "(v + 1) * 2 ^ nat (30 - l)"
  have lt: "?a < ?b" by simp
  have le: "low \<le> ?a" "0 < l" "l \<le> 30" "0 \<le> v" using "2.prems" by simp_all
  have IH: "?b < 2 ^ 30" "\<forall>c \<in> set cs. 0 < fst c \<and> fst c \<le> 30 \<and> 0 \<le> snd c \<and> ?b \<le> ivl_lo c \<and> ivl_hi c < 2 ^ 30"
    using 2 by simp_all
  have "low < 2 ^ 30" using lt le(1) IH(1) by linarith
  moreover have "low \<le> ivl_lo c" if "?b \<le> ivl_lo c" for c
    using that lt le(1) by linarith
  ultimately show ?case using le IH by (simp add: ivl_lo_def ivl_hi_def)
qed simp

lemma intervals_disjoint:
  "intervals_ok low cs \<Longrightarrow> i < j \<Longrightarrow> j < length cs \<Longrightarrow> ivl_hi (cs ! i) \<le> ivl_lo (cs ! j)"
proof (induction low cs arbitrary: i j rule: intervals_ok.induct)
  case (2 low l v cs)
  then obtain j' where j: "j = Suc j'" "j' < length cs" by (cases j) auto
  show ?case
  proof (cases i)
    case 0
    have "cs ! j' \<in> set cs" using j by simp
    with 0 j intervals_bounds [of _ cs] "2.prems"(1) show ?thesis by (auto simp: ivl_hi_def)
  next
    case (Suc i')
    with 2 j show ?thesis by simp
  qed
qed simp

lemma huff_order_length: "length huff_order = 256" by (simp add: huff_order_def)

lemma huff_order_nth:
  assumes "i < j" "j < 256"
  shows "ivl_hi (code_of (huff_order ! i)) \<le> ivl_lo (code_of (huff_order ! j))"
  using intervals_disjoint [OF huff_intervals, of i j] assms by (simp add: huff_order_length)

lemma huff_order_UNIV: "set huff_order = UNIV"
proof (rule card_subset_eq)
  have "distinct huff_order"
    unfolding distinct_conv_nth huff_order_length
  proof (intro allI impI)
    fix i j :: nat assume ij: "i < 256" "j < 256" "i \<noteq> j"
    have lt: "ivl_lo c < ivl_hi c" for c by (simp add: ivl_lo_def ivl_hi_def)
    from ij huff_order_nth [of i j] huff_order_nth [of j i] lt show "huff_order ! i \<noteq> huff_order ! j"
      by (metis linorder_neqE_nat not_less)
  qed
  then show "card (set huff_order) = card (UNIV :: u8 set)"
    by (simp add: distinct_card huff_order_length card_word)
qed simp_all

lemma code_bounds:
  assumes "code_of s = (l, v)"
  shows "0 < l" "l \<le> 30" "0 \<le> v" "v + 1 < 2 ^ nat l"
proof -
  have "(l, v) \<in> set (map code_of huff_order)" using assms huff_order_UNIV by (metis UNIV_I image_eqI list.set_map)
  with bspec [OF conjunct2 [OF intervals_bounds [OF huff_intervals]], of "(l, v)"]
  have b: "0 < l" "l \<le> 30" "0 \<le> v" "(v + 1) * 2 ^ nat (30 - l) < 2 ^ 30"
    by (simp_all add: ivl_hi_def)
  have "(2 :: int) ^ 30 = 2 ^ nat l * 2 ^ nat (30 - l)"
    using b by (simp flip: power_add add: nat_add_distrib [symmetric])
  with b(4) have "(v + 1) * 2 ^ nat (30 - l) < 2 ^ nat l * 2 ^ nat (30 - l)" by simp
  then show "v + 1 < 2 ^ nat l" by (simp only: mult_less_cancel_right_pos zero_less_power zero_less_numeral)
  show "0 < l" "l \<le> 30" "0 \<le> v" using b by simp_all
qed

lemma code_distinct:
  assumes "a \<noteq> b"
  shows "ivl_hi (code_of a) \<le> ivl_lo (code_of b) \<or> ivl_hi (code_of b) \<le> ivl_lo (code_of a)"
proof -
  obtain i j where "i < 256" "huff_order ! i = a" "j < 256" "huff_order ! j = b"
    using huff_order_UNIV unfolding set_eq_iff in_set_conv_nth huff_order_length by blast
  with assms huff_order_nth [of i j] huff_order_nth [of j i] show ?thesis by (metis linorder_neqE_nat)
qed

lemma huff_code_ne: "huff_code s \<noteq> []" "length (huff_code s) \<le> 30"
proof -
  obtain l v where c: "code_of s = (l, v)" by force
  show "huff_code s \<noteq> []" "length (huff_code s) \<le> 30"
    using code_bounds(1,2) [OF c] by (auto simp: huff_code_of [OF c] simp flip: length_0_conv)
qed

lemma huff_code_not_ones: "huff_code s \<noteq> replicate n True"
proof
  assume eq: "huff_code s = replicate n True"
  obtain l v where c: "code_of s = (l, v)" by force
  have n: "n = nat l" using arg_cong [OF eq, of length] huff_code_of [OF c] by simp
  have "v = 2 ^ nat l - 1"
    by (rule nbits_inj [of "nat l"]) (use eq n huff_code_of [OF c] nbits_ones code_bounds [OF c] in auto)
  with code_bounds(4) [OF c] show False by simp
qed

lemma huff_code_prefix_free:
  assumes "prefix (huff_code a) (huff_code b)"
  shows "a = b"
proof (rule ccontr)
  assume ne: "a \<noteq> b"
  obtain la va lb vb where c: "code_of a = (la, va)" "code_of b = (lb, vb)" by force
  note ba = code_bounds [OF c(1)] and bb = code_bounds [OF c(2)]
  define m where "m = nat lb - nat la"
  have le: "nat la \<le> nat lb" using prefix_length_le [OF assms] by (simp add: huff_code_of [OF c(1)] huff_code_of [OF c(2)])
  have "nbits (nat la) va = nbits (nat la) (drop_bit m vb)"
  proof -
    obtain zs where "nbits (nat lb) vb = nbits (nat la) va @ zs"
      using assms by (auto simp: huff_code_of [OF c(1)] huff_code_of [OF c(2)] prefix_def)
    then have "take (nat la) (nbits (nat lb) vb) = nbits (nat la) va" by simp
    then show ?thesis using le by (simp add: nbits_take m_def)
  qed
  moreover have "drop_bit m vb < 2 ^ nat la"
  proof -
    have "vb < 2 ^ nat la * 2 ^ m" using bb(4) le by (simp add: m_def flip: power_add)
    moreover have "vb div 2 ^ m * 2 ^ m \<le> vb" by (simp flip: minus_mod_eq_div_mult)
    ultimately have "vb div 2 ^ m * 2 ^ m < 2 ^ nat la * 2 ^ m" by linarith
    then show ?thesis by (simp add: drop_bit_eq_div)
  qed
  ultimately have va: "va = vb div 2 ^ m"
    using ba bb by (intro nbits_inj [of "nat la"]) (simp_all add: drop_bit_eq_div pos_imp_zdiv_nonneg_iff)
  have p: "(2 :: int) ^ nat (30 - la) = 2 ^ m * 2 ^ nat (30 - lb)"
    using ba bb le by (simp flip: power_add add: m_def)
  have "va * 2 ^ m \<le> vb" "vb < (va + 1) * 2 ^ m"
    using va by (auto simp: minus_mod_eq_div_mult [symmetric] ring_distribs) 
  then have "va * 2 ^ m * 2 ^ nat (30 - lb) \<le> vb * 2 ^ nat (30 - lb)"
    "vb * 2 ^ nat (30 - lb) < (va + 1) * 2 ^ m * 2 ^ nat (30 - lb)"
    "vb * 2 ^ nat (30 - lb) < (vb + 1) * (2 ^ nat (30 - lb) :: int)"
    by simp_all
  then have "ivl_lo (code_of a) \<le> ivl_lo (code_of b)" "ivl_lo (code_of b) < ivl_hi (code_of a)"
    "ivl_lo (code_of b) < ivl_hi (code_of b)"
    by (simp_all add: c ivl_lo_def ivl_hi_def p mult.assoc)
  with code_distinct [OF ne] show False by simp
qed

section \<open>The table of the decoder\<close>

text \<open>For each part of the table: its offset, and the number and value of the bits that lead to it.\<close>

definition ht_prefix :: "(int \<times> int \<times> int) list" where
  "ht_prefix =
   [(0, 0, 0), (128, 7, 127), (256, 14, 16383), (384, 21, 2097150), (512, 21, 2097151), (640, 7, 124),
   (648, 7, 125), (656, 7, 126), (664, 14, 16382), (672, 21, 2097129), (680, 21, 2097130),
   (688, 21, 2097131), (696, 21, 2097132), (704, 21, 2097133), (712, 21, 2097134), (720, 21, 2097135),
   (728, 21, 2097136), (736, 21, 2097137), (744, 21, 2097138), (752, 21, 2097139), (760, 21, 2097140),
   (768, 21, 2097141), (776, 21, 2097142), (784, 21, 2097143), (792, 21, 2097144), (800, 21, 2097145),
   (808, 21, 2097146), (816, 21, 2097147), (824, 21, 2097148), (832, 21, 2097149), (840, 28, 268435455)]"

abbreviation (input) ht_width :: "int \<Rightarrow> nat" where
  "ht_width t \<equiv> if t < 640 then 7 else 3"

text \<open>
  An entry of a part with \<open>w\<close> bits: a symbol whose code word goes on with the bits that are
  taken, the next part, or the end of string symbol of 30 ones.
\<close>

definition entry_ok :: "nat \<Rightarrow> int \<Rightarrow> int \<Rightarrow> int \<Rightarrow> HTState \<Rightarrow> bool" where
  "entry_ok w n v i e = (case e of (sh, off) \<Rightarrow>
     if sh > 0 then
       let k = sh - int (7 - w) in
       0 < k \<and> k \<le> int w \<and> code_of (word_of_int (off mod 256)) = (n + k, v * 2 ^ nat k + i div 2 ^ nat (int w - k))
     else if w = 7 then sh = -7 \<and> off > 0 \<and> (off, n + 7, v * 128 + i) \<in> set ht_prefix
     else sh = -6 \<and> n = 28 \<and> v = 2 ^ 28 - 1 \<and> i div 2 = 3)"

fun entries_ok :: "nat \<Rightarrow> int \<Rightarrow> int \<Rightarrow> int \<Rightarrow> HTState list \<Rightarrow> bool" where
  "entries_ok w n v i [] = True"
| "entries_ok w n v i (e # es) = (entry_ok w n v i e \<and> entries_ok w n v (i + 1) es)"

fun tables_ok :: "int \<Rightarrow> (int \<times> int \<times> int) list \<Rightarrow> HTState list \<Rightarrow> bool" where
  "tables_ok t [] es = (es = [])"
| "tables_ok t ((t', n, v) # ps) es =
     (t' = t \<and> 0 \<le> n \<and> 2 ^ ht_width t \<le> length es \<and> fst (hd es) > 0
      \<and> entries_ok (ht_width t) n v 0 (take (2 ^ ht_width t) es)
      \<and> tables_ok (t + 2 ^ ht_width t) ps (drop (2 ^ ht_width t) es))"

lemma ht_tables_ok: "tables_ok 0 ht_prefix ht_decode"
  by (simp add: ht_decode_def ht_table_0_def ht_table_128_def ht_table_256_def ht_table_384_def ht_table_512_def
      ht_small_640_def ht_small_744_def entry_ok_def code_of_table ht_prefix_def Let_def)

lemma entries_ok_nth: "entries_ok w n v i es \<Longrightarrow> k < length es \<Longrightarrow> entry_ok w n v (i + int k) (es ! k)"
proof (induction es arbitrary: i k)
  case (Cons e es)
  then show ?case by (cases k) (auto simp: add.assoc dest!: Cons.IH)
qed simp

lemma tables_ok_lookup:
  assumes "tables_ok t0 ps es" "(t, n, v) \<in> set ps"
  shows "t0 \<le> t \<and> 0 \<le> n \<and> nat (t - t0) + 2 ^ ht_width t \<le> length es \<and> fst (es ! nat (t - t0)) > 0
    \<and> (\<forall>i < 2 ^ ht_width t. entry_ok (ht_width t) n v (int i) (es ! (nat (t - t0) + i)))"
  using assms
proof (induction t0 ps es rule: tables_ok.induct)
  case (2 t0 t' n' v' ps es)
  show ?case
  proof (cases "(t, n, v) = (t', n', v')")
    case True
    moreover have "es \<noteq> []" using "2.prems"(1) by auto
    ultimately show ?thesis
      using "2.prems"(1) entries_ok_nth [of "ht_width t0" n v 0 "take (2 ^ ht_width t0) es"]
      by (auto simp: hd_conv_nth)
  next
    case False
    with 2 have IH: "t0 + 2 ^ ht_width t0 \<le> t" "0 \<le> n"
      "nat (t - (t0 + 2 ^ ht_width t0)) + 2 ^ ht_width t \<le> length (drop (2 ^ ht_width t0) es)"
      "fst (drop (2 ^ ht_width t0) es ! nat (t - (t0 + 2 ^ ht_width t0))) > 0"
      "\<forall>i < 2 ^ ht_width t. entry_ok (ht_width t) n v (int i)
         (drop (2 ^ ht_width t0) es ! (nat (t - (t0 + 2 ^ ht_width t0)) + i))"
      by auto
    define d where "d = nat (t - (t0 + 2 ^ ht_width t0))"
    have d: "nat (t - t0) = 2 ^ ht_width t0 + d"
      using IH(1) by (simp add: d_def nat_diff_distrib split: if_splits)
    have "2 ^ ht_width t0 \<le> length es" using "2.prems"(1) by simp
    with IH d_def show ?thesis unfolding d by (simp add: add.assoc split: if_splits)
  qed
qed simp

definition ht_part :: "u16 \<Rightarrow> bool list \<Rightarrow> bool" where
  "ht_part offset pre \<longleftrightarrow> (\<exists>n v. (uint offset, n, v) \<in> set ht_prefix \<and> pre = nbits (nat n) v)"

lemma ht_part_0: "ht_part 0 []"
  by (auto simp: ht_part_def ht_prefix_def)

abbreviation (input) part_width :: "u16 \<Rightarrow> nat" where
  "part_width offset \<equiv> if offset < 640 then 7 else 3"

lemma part_width: "ht_width (uint offset) = part_width offset"
  by (simp add: word_less_def)

lemma div_2_power_less:
  assumes "(a :: int) < 2 ^ n" "m \<le> n"
  shows "a div 2 ^ (n - m) < 2 ^ m"
proof -
  have "a div 2 ^ (n - m) * 2 ^ (n - m) \<le> a" by (simp flip: minus_mod_eq_div_mult)
  also have "a < 2 ^ m * 2 ^ (n - m)" using assms by (simp flip: power_add)
  finally show ?thesis by simp
qed

lemma word_of_int_mod_256: "(word_of_int (i mod 256) :: u8) = word_of_int i"
  by (intro word_uint_eqI) (simp add: unsigned_of_int take_bit_eq_mod)

text \<open>What an entry means for the bits read so far and the bits looked up.\<close>

lemma ht_entry_cases:
  assumes p: "ht_part offset pre" and i: "uint i < 2 ^ part_width offset"
  defines "w \<equiv> part_width offset" and "b \<equiv> nbits (part_width offset) (uint i)"
  obtains (symbol) sh off k where "ht_entry offset i = Some (sh, off)" "0 < k" "k \<le> w" "sh = int k + int (7 - w)"
      "huff_code (word_of_int off) = pre @ take k b"
  | (part) sh off where "w = 7" "ht_entry offset i = Some (-7, off)" "0 < off" "off < 2 ^ 16" "ht_part (word_of_int off) (pre @ b)"
  | (eos) off where "w = 3" "ht_entry offset i = Some (-6, off)" "pre @ take 2 b = replicate 30 True"
proof -
  obtain n v where nv: "(uint offset, n, v) \<in> set ht_prefix" "pre = nbits (nat n) v"
    using p by (auto simp: ht_part_def)
  have L: "0 \<le> n" "unat offset + 2 ^ w \<le> length ht_decode"
    "\<forall>k < 2 ^ w. entry_ok w n v (int k) (ht_decode ! (unat offset + k))"
    using tables_ok_lookup [OF ht_tables_ok nv(1)] unfolding part_width w_def by simp_all
  have iu: "uint i < 2 ^ w" using i by (simp add: w_def)
  then have "int (unat i) < int (2 ^ w)" by simp
  then have iw: "unat i < 2 ^ w" by (simp only: of_nat_less_iff)
  obtain sh off where e: "ht_decode ! (unat offset + unat i) = (sh, off)" by force
  have ent: "ht_entry offset i = Some (sh, off)" using L(2) iw e by (simp add: ht_entry_def Let_def)
  have ok: "entry_ok w n v (uint i) (sh, off)" using L(3) iw e by (metis uint_nat)
  have w: "w = 7 \<or> w = 3" by (simp add: w_def)
  show thesis
  proof (cases "sh > 0")
    case True
    define k where "k = nat (sh - int (7 - w))"
    have k: "0 < k" "k \<le> w" "sh = int k + int (7 - w)"
      and c: "code_of (word_of_int (off mod 256)) = (n + int k, v * 2 ^ k + uint i div 2 ^ (w - k))"
      using ok True w by (auto simp: entry_ok_def Let_def k_def nat_diff_distrib)
    have "uint i div 2 ^ (w - k) < 2 ^ k"
      using iu k(2) by (intro div_2_power_less) simp_all
    then have "huff_code (word_of_int off) = nbits (nat n) v @ nbits k (uint i div 2 ^ (w - k))"
      using huff_code_of [OF c] nbits_concat [of "uint i div 2 ^ (w - k)" k "nat n" v] L(1)
      by (simp add: nat_add_distrib pos_imp_zdiv_nonneg_iff word_of_int_mod_256)
    moreover have "take k b = nbits k (uint i div 2 ^ (w - k))"
      using k(2) unfolding b_def w_def [symmetric] by (simp add: nbits_take drop_bit_eq_div)
    ultimately show ?thesis using symbol [OF ent k] nv(2) by simp
  next
    case False
    show ?thesis
    proof (cases "w = 7")
      case True
      with False ok have o: "sh = -7" "off > 0" "(off, n + 7, v * 128 + uint i) \<in> set ht_prefix"
        by (auto simp: entry_ok_def)
      then have "off < 2 ^ 16" by (auto simp: ht_prefix_def)
      then have u: "uint (word_of_int off :: u16) = off"
        using o(2) by (simp add: unsigned_of_int take_bit_int_eq_self)
      have "uint i < 2 ^ 7" using i True unfolding w_def by (simp split: if_splits)
      then have "nbits (nat (n + 7)) (v * 128 + uint i) = pre @ b"
        using nbits_concat [of "uint i" 7 "nat n" v] L(1) nv(2) True unfolding b_def w_def [symmetric]
        by (simp add: nat_add_distrib)
      then have "ht_part (word_of_int off) (pre @ b)" using o(3) u unfolding ht_part_def by metis
      with ent o(1,2) True \<open>off < 2 ^ 16\<close> show ?thesis by (intro part) auto
    next
      case w3: False
      with False ok w have o: "sh = -6" "n = 28" "v = 2 ^ 28 - 1" "uint i div 2 = 3"
        by (auto simp: entry_ok_def)
      have "take 2 b = nbits 2 (2 ^ 2 - 1)"
        using w3 w o(4) unfolding b_def w_def [symmetric] by (simp add: nbits_take drop_bit_eq_div)
      then have "pre @ take 2 b = replicate 28 True @ replicate 2 True"
        unfolding nv(2) o(2,3) by (simp only: nbits_ones nat_numeral)
      also have "\<dots> = replicate 30 True" by (simp flip: replicate_add)
      finally show ?thesis using ent o(1) w w3 by (intro eos) auto
    qed
  qed
qed

lemma ht_part_node:
  assumes "ht_part offset pre"
  obtains s rest where "rest \<noteq> []" "huff_code s = pre @ rest"
proof (rule ht_entry_cases [OF assms, of 0])
  obtain n v where nv: "(uint offset, n, v) \<in> set ht_prefix" using assms by (auto simp: ht_part_def)
  then have pos: "fst (ht_decode ! unat offset) > 0" "unat offset < length ht_decode"
    using tables_ok_lookup [OF ht_tables_ok nv] by (auto split: if_splits)
  then have e: "ht_entry offset 0 = Some (ht_decode ! unat offset)" by (simp add: ht_entry_def)
  {
    fix sh off k assume "0 < k" "k \<le> part_width offset"
      "huff_code (word_of_int off) = pre @ take k (nbits (part_width offset) (uint 0))"
    then show thesis by (intro that [of "take k (nbits (part_width offset) (uint 0))" "word_of_int off"]) (auto simp flip: length_0_conv)
  }
  { fix off assume "ht_entry offset 0 = Some (-7, off)"
    with e have "ht_decode ! unat offset = (-7, off)" by simp
    with pos(1) show thesis by simp }
  { fix off assume "ht_entry offset 0 = Some (-6, off)"
    with e have "ht_decode ! unat offset = (-6, off)" by simp
    with pos(1) show thesis by simp }
qed simp

end
