(* ===== verification/Hpack_Decode.thy ===== *)
theory Hpack_Decode
  imports Hpack_Code
begin

unbundle bit_operations_syntax

text \<open>
  The Huffman decoder of \<^verbatim>\<open>src/fw/hpack.c\<close> against the code it is meant to decode.  The bits of the
  input are compared with \<open>huff_encodes\<close>; the bits at hand are those of \<^verbatim>\<open>hctx\<close> that are not yet
  taken.  \<open>tail_correct\<close> and \<open>tail_s_correct\<close> treat the end of the input, \<open>loop_correct\<close> the loop
  and \<open>fragments_correct\<close> a string that comes in any number of fragments.
\<close>

section \<open>Encoded strings\<close>

text \<open>
  The bits of an encoded string: the code words of its symbols and up to seven ones, which are
  the beginning of the end of string symbol (RFC 7541 section 5.2).
\<close>

definition huff_encodes :: "u8 list \<Rightarrow> bool list \<Rightarrow> bool" where
  "huff_encodes ss xs \<longleftrightarrow> (\<exists>k \<le> 7. xs = concat (map huff_code ss) @ replicate k True)"

lemma append_eq_prefix: "a @ b = c @ d \<Longrightarrow> prefix a c \<or> prefix c a"
  by (metis prefix_def prefix_same_cases)

lemma code_not_in_ones: "\<not> prefix (huff_code s) (replicate n True)"
proof
  assume "prefix (huff_code s) (replicate n True)"
  then obtain zs where "replicate n True = huff_code s @ zs" by (auto simp: prefix_def)
  then have "huff_code s = replicate (min (length (huff_code s)) n) True"
    by (metis append_eq_conv_conj take_replicate)
  with huff_code_not_ones show False by metis
qed

lemma encodes_code:
  "huff_encodes ss (huff_code s @ xs) \<longleftrightarrow> (\<exists>ss'. ss = s # ss' \<and> huff_encodes ss' xs)"
proof
  assume "huff_encodes ss (huff_code s @ xs)"
  then obtain k where k: "k \<le> 7" "huff_code s @ xs = concat (map huff_code ss) @ replicate k True"
    by (auto simp: huff_encodes_def)
  show "\<exists>ss'. ss = s # ss' \<and> huff_encodes ss' xs"
  proof (cases ss)
    case Nil
    with k(2) have "prefix (huff_code s) (replicate k True)"
      by (metis append_Nil concat.simps(1) list.simps(8) prefixI)
    with code_not_in_ones show ?thesis by blast
  next
    case (Cons s' ss')
    with k(2) append_eq_prefix have "prefix (huff_code s) (huff_code s') \<or> prefix (huff_code s') (huff_code s)"
      by (metis append.assoc concat.simps(2) list.simps(9))
    then have "s' = s" using huff_code_prefix_free by blast
    with k Cons show ?thesis by (auto simp: huff_encodes_def)
  qed
next
  assume "\<exists>ss'. ss = s # ss' \<and> huff_encodes ss' xs"
  then show "huff_encodes ss (huff_code s @ xs)" by (auto simp: huff_encodes_def)
qed

lemma encodes_unique: "huff_encodes ss xs \<Longrightarrow> huff_encodes ss' xs \<Longrightarrow> ss' = ss"
proof (induction ss arbitrary: ss' xs)
  case Nil
  then obtain k where xs: "xs = replicate k True" by (auto simp: huff_encodes_def)
  show ?case
  proof (cases ss')
    case (Cons s ss2)
    with Nil.prems(2) xs have "prefix (huff_code s) (replicate k True)" by (auto simp: huff_encodes_def prefix_def)
    with code_not_in_ones show ?thesis by blast
  qed simp
next
  case (Cons s ss)
  then obtain ys where "xs = huff_code s @ ys" "huff_encodes ss ys" by (auto simp: huff_encodes_def)
  with Cons show ?case by (auto simp: encodes_code)
qed

text \<open>Bits that are part of a code word, or of the end of string symbol, and end no code word.\<close>

definition huff_node :: "bool list \<Rightarrow> bool" where
  "huff_node xs \<longleftrightarrow> (\<exists>s. strict_prefix xs (huff_code s)) \<or> prefix xs (replicate 30 True)"

lemma node_encodes:
  assumes "huff_node xs"
  shows "huff_encodes ss xs \<longleftrightarrow> ss = [] \<and> xs = replicate (length xs) True \<and> length xs \<le> 7"
proof
  assume enc: "huff_encodes ss xs"
  then obtain k where k: "k \<le> 7" "xs = concat (map huff_code ss) @ replicate k True"
    by (auto simp: huff_encodes_def)
  have "ss = []"
  proof (rule ccontr)
    assume "ss \<noteq> []"
    then obtain s ss' where ss: "ss = s # ss'" by (cases ss) auto
    with k(2) have pre: "prefix (huff_code s) xs" by (simp add: prefix_def)
    from assms show False unfolding huff_node_def
    proof
      assume "\<exists>s. strict_prefix xs (huff_code s)"
      then obtain s' where "strict_prefix xs (huff_code s')" by blast
      with pre huff_code_prefix_free [of s s'] show False
        by (metis prefix_order.antisym prefix_order.trans strict_prefix_def)
    next
      assume "prefix xs (replicate 30 True)"
      with pre code_not_in_ones show False using prefix_order.trans by blast
    qed
  qed
  with k show "ss = [] \<and> xs = replicate (length xs) True \<and> length xs \<le> 7" by simp
next
  assume "ss = [] \<and> xs = replicate (length xs) True \<and> length xs \<le> 7"
  then show "huff_encodes ss xs" unfolding huff_encodes_def by (metis append_Nil concat.simps(1) list.simps(8))
qed

lemma part_node: "ht_part offset pre \<Longrightarrow> huff_node pre"
  by (erule ht_part_node) (auto simp: huff_node_def strict_prefix_def prefix_def)

lemma node_prefix: "huff_node (xs @ ys) \<Longrightarrow> huff_node xs"
  unfolding huff_node_def by (metis append_prefixD prefix_order.antisym prefixI strict_prefix_def)

section \<open>The bits at hand\<close>

definition byte_bits :: "u8 \<Rightarrow> bool list" where
  "byte_bits b = nbits 8 (uint b)"

abbreviation (input) str_bits :: "u8 list \<Rightarrow> bool list" where
  "str_bits bs \<equiv> concat (map byte_bits bs)"

text \<open>The bits of \<^verbatim>\<open>hctx\<close> not yet taken, when \<open>w\<close> bits are looked up at a time.\<close>

definition avail :: "nat \<Rightarrow> TfwHPack \<Rightarrow> bool list" where
  "avail w hp = nbits (nat (hp_curr hp + int w)) (uint (hp_hctx hp))"

lemma avail_drop:
  assumes "hp_curr hp + int w = int n" "j \<le> n" "hp_curr hp' + int w' = int n - int j" "hp_hctx hp' = hp_hctx hp"
  shows "avail w' hp' = drop j (avail w hp)"
proof -
  have "nat (int n - int j) = n - j" using assms(2) by arith
  with assms show ?thesis by (simp add: avail_def nbits_drop)
qed

lemma nbits_zero: "nbits n 0 = replicate n False"
  by (rule nth_equalityI) (simp_all add: nth_nbits)

lemma nbits_take_bit: "n \<le> m \<Longrightarrow> nbits n (take_bit m v) = nbits n v"
  by (rule nth_equalityI) (auto simp: nth_nbits bit_take_bit_iff)

lemma u16_take_bit: "take_bit 32 (uint (h :: u16)) = uint h"
  using unsigned_less [of h, where 'a = int] by (simp add: take_bit_int_eq_self)

lemma ucast_hctx: "uint (ucast (h :: u16) :: u32) = uint h"
  by (simp add: unsigned_ucast_eq u16_take_bit)

lemma lookup_bits:
  fixes h :: u16
  assumes "w \<le> 7" "i = drop_bit k (ucast h :: u32) AND (2 ^ w - 1)"
  shows "uint i < 2 ^ w" "nbits w (uint i) = take w (nbits (k + w) (uint h))"
proof -
  have u: "uint i = take_bit w (drop_bit k (uint h))"
    unfolding assms(2) by (simp add: ucast_hctx u16_take_bit unsigned_take_bit_eq unsigned_drop_bit_eq flip: mask_eq_exp_minus_1 take_bit_eq_mask)
  then show "uint i < 2 ^ w" by simp
  show "nbits w (uint i) = take w (nbits (k + w) (uint h))"
    using nbits_split [of w k "uint h"] by (simp add: u nbits_take_bit add.commute)
qed

lemma tail_bits:
  fixes h :: u16
  assumes "w \<le> 7" "k \<le> w" "i = push_bit k (ucast h :: u32) AND (2 ^ w - 1)"
  shows "uint i < 2 ^ w" "nbits w (uint i) = nbits (w - k) (uint h) @ replicate k False"
proof -
  have i: "i = take_bit w (push_bit k (ucast h))"
    unfolding assms(3) by (simp add: take_bit_eq_mask mask_eq_exp_minus_1)
  then show "uint i < 2 ^ w" by (simp add: unsigned_take_bit_eq)
  have b: "bit (uint i) j \<longleftrightarrow> j < w \<and> k \<le> j \<and> bit (uint h) (j - k)" for j
    using assms(1) bit_imp_le_length [of h "j - k"]
    by (auto simp: i bit_take_bit_iff bit_push_bit_iff bit_unsigned_iff bit_uint_iff)
  show "nbits w (uint i) = nbits (w - k) (uint h) @ replicate k False"
    using assms(2) by (intro nth_equalityI) (auto simp: nth_nbits nth_append b diff_diff_left ac_simps)
qed

lemma next_bits:
  fixes h :: u16 and b :: u8
  assumes "n \<le> 8"
  shows "nbits (n + 8) (uint (push_bit 8 h OR ucast b)) = nbits n (uint h) @ byte_bits b"
proof -
  have b: "bit (uint (push_bit 8 h OR ucast b)) j \<longleftrightarrow> (if j < 8 then bit (uint b) j else j < 16 \<and> bit (uint h) (j - 8))" for j
    using bit_imp_le_length [of b j]
    by (auto simp: bit_uint_iff bit_or_iff bit_push_bit_iff bit_unsigned_iff)
  show ?thesis
    using assms by (intro nth_equalityI) (auto simp: byte_bits_def nth_nbits nth_append b intro!: arg_cong2 [of _ _ _ _ bit])
qed

section \<open>What the decoder returns\<close>

text \<open>The decoder accepts exactly the encoded strings and appends what they encode.\<close>

definition decoded :: "TfwHPack \<Rightarrow> bool list \<Rightarrow> (rc \<times> TfwHPack) option \<Rightarrow> bool" where
  "decoded hp xs out \<longleftrightarrow>
     (\<exists>ss hp'. huff_encodes ss xs \<and> out = Some (T_OK, hp') \<and> hp_hdr hp' = hp_hdr hp @ ss \<and> hp_offset hp' = hp_offset hp)
     \<or> (\<nexists>ss. huff_encodes ss xs) \<and> (\<exists>hp'. out = Some (T_COMPRESSION, hp'))"

lemma decoded_symbol:
  assumes "decoded hp' xs out" "hp_hdr hp' = hp_hdr hp @ [s]" "hp_offset hp' = hp_offset hp"
  shows "decoded hp (huff_code s @ xs) out"
  using assms unfolding decoded_def encodes_code by auto

lemma decoded_padding:
  assumes "huff_node xs" "xs = replicate (length xs) True" "length xs \<le> 7"
  shows "decoded hp xs (Some (T_OK, hp))"
  using assms node_encodes [OF assms(1), of "[]"] by (auto simp: decoded_def)

lemma decoded_fail:
  assumes "huff_node xs" "\<not> (xs = replicate (length xs) True \<and> length xs \<le> 7)"
  shows "decoded hp xs (Some (T_COMPRESSION, hp'))"
  using assms node_encodes [OF assms(1)] by (auto simp: decoded_def)

abbreviation (input) wr_ok :: "(u8 list \<Rightarrow> rc) \<Rightarrow> bool" where
  "wr_ok wr \<equiv> \<forall>x. wr x = T_OK"

lemma write_ok: "wr_ok wr \<Longrightarrow> tfw_hpack_huffman_write wr s hp = (T_OK, hp\<lparr>hp_hdr := hp_hdr hp @ [s]\<rparr>)"
  by (simp add: tfw_hpack_huffman_write_def)

section \<open>The last bits\<close>

lemma xor_127: "0 \<le> n \<Longrightarrow> n < 128 \<Longrightarrow> n XOR 127 = 127 - (n :: int)"
proof -
  have "list_all (\<lambda>n. n XOR 127 = 127 - (n :: int)) [0..127]" by code_simp
  moreover assume "0 \<le> n" "n < 128"
  ultimately show ?thesis by (auto simp: list_all_iff)
qed

lemma padding_ones:
  fixes i :: u32
  assumes i: "uint i < 2 ^ 7" and k: "k \<le> 7" and xs: "nbits 7 (uint i) = xs @ replicate k False"
  shows "i XOR drop_bit 1 HT_EOS_HIGH < push_bit k 1 \<longleftrightarrow> xs = replicate (length xs) True"
proof -
  define X where "X = uint i div 2 ^ k"
  have len: "length xs = 7 - k" using arg_cong [OF xs, of length] k by simp
  have xX: "xs = nbits (7 - k) X"
    using nbits_split [of "7 - k" k "uint i"] xs k len by (simp add: X_def drop_bit_eq_div)
  have "nbits k (uint i) = nbits k 0"
    using nbits_split [of "7 - k" k "uint i"] xs k len by (simp add: nbits_zero)
  then have "take_bit k (uint i) = 0"
    using nbits_inj [of k "take_bit k (uint i)" 0] by (simp add: nbits_take_bit)
  then have iX: "uint i = X * 2 ^ k" by (simp add: X_def take_bit_eq_mod minus_mod_eq_div_mult [symmetric])
  have Xb: "0 \<le> X" "X < 2 ^ (7 - k)"
    using i k div_2_power_less [of "uint i" 7 "7 - k"] by (simp_all add: X_def pos_imp_zdiv_nonneg_iff)
  have p: "(2 :: int) ^ (7 - k) * 2 ^ k = 128" using k by (simp flip: power_add)
  have "uint (i XOR drop_bit 1 HT_EOS_HIGH) = 127 - uint i"
    using i xor_127 [of "uint i"] by (simp add: unsigned_xor_eq)
  moreover have "uint (push_bit k 1 :: u32) = 2 ^ k"
  proof -
    have "k \<in> {0, 1, 2, 3, 4, 5, 6, 7}" using k by auto
    then show ?thesis by (elim insertE emptyE) simp_all
  qed
  ultimately have "i XOR drop_bit 1 HT_EOS_HIGH < push_bit k 1 \<longleftrightarrow> 2 ^ (7 - k) * 2 ^ k \<le> (X + 1) * 2 ^ k"
    unfolding word_less_def p iX by (simp add: ring_distribs) linarith
  also have "\<dots> \<longleftrightarrow> X = 2 ^ (7 - k) - 1" using Xb by auto
  also have "\<dots> \<longleftrightarrow> xs = replicate (length xs) True"
    unfolding len xX nbits_ones [symmetric] using Xb nbits_inj [of "7 - k" X "2 ^ (7 - k) - 1"] by auto
  finally show ?thesis .
qed

lemma part_0_pre: "ht_part 0 pre \<Longrightarrow> pre = []"
  by (auto simp: ht_part_def ht_prefix_def)

lemma tail_step:
  assumes wr: "wr_ok wr" and k: "k < 7" "hp_curr hp = - int k"
    and i: "i = push_bit k (ucast (hp_hctx hp) :: u32) AND HT_NMASK"
  shows "huffman_decode_tail wr offset hp = (case ht_entry offset i of
           None \<Rightarrow> None
         | Some (shift, off) \<Rightarrow>
             if shift > 0 \<and> shift \<le> hp_curr hp + HT_NBITS then
               huffman_decode_tail wr 0 (hp\<lparr>hp_hdr := hp_hdr hp @ [word_of_int off], hp_curr := hp_curr hp - shift\<rparr>)
             else if shift \<noteq> 0 \<and> eos_padding offset i (hp_curr hp) then Some (T_OK, hp)
             else Some (T_COMPRESSION, hp))"
proof -
  have "nat (- hp_curr hp) = k" "hp_curr hp \<noteq> -7" "\<not> 0 < hp_curr hp" using k by simp_all
  then show ?thesis
    by (subst huffman_decode_tail.simps)
      (auto simp: i [symmetric] write_ok [OF wr] Let_def split: option.split)
qed

text \<open>Bits that end no code word are either padding or an error.\<close>

lemma tail_stop:
  assumes part: "ht_part offset pre" and i: "uint i < 2 ^ 7" "nbits 7 (uint i) = avail 7 hp @ replicate k False"
    and k: "k \<le> 7" "hp_curr hp = - int k" and len: "offset \<noteq> 0 \<Longrightarrow> 8 \<le> length (pre @ avail 7 hp)"
    and node: "huff_node (pre @ avail 7 hp)"
  shows "decoded hp (pre @ avail 7 hp)
    (if eos_padding offset i (hp_curr hp) then Some (T_OK, hp) else Some (T_COMPRESSION, hp))"
proof -
  have "nat (- hp_curr hp) = k" using k by simp
  then have pad: "eos_padding offset i (hp_curr hp) \<longleftrightarrow> offset = 0 \<and> avail 7 hp = replicate (length (avail 7 hp)) True"
    unfolding eos_padding_def using padding_ones [OF i(1) k(1) i(2)] by simp
  have pre0: "pre = []" if "offset = 0" using part that by (simp add: part_0_pre)
  show ?thesis
  proof (cases "offset = 0 \<and> avail 7 hp = replicate (length (avail 7 hp)) True")
    case True
    have "length (avail 7 hp) \<le> 7" using k by (simp add: avail_def)
    with True pad pre0 node decoded_padding [of "avail 7 hp" hp] show ?thesis by simp
  next
    case False
    then have "\<not> (pre @ avail 7 hp = replicate (length (pre @ avail 7 hp)) True \<and> length (pre @ avail 7 hp) \<le> 7)"
      using len pre0 by (cases "offset = 0") auto
    then have "decoded hp (pre @ avail 7 hp) (Some (T_COMPRESSION, hp))" by (rule decoded_fail [OF node])
    with False pad show ?thesis by auto
  qed
qed

lemma tail_end:
  assumes "ht_part offset pre" "hp_curr hp = -7" "offset \<noteq> 0 \<Longrightarrow> 8 \<le> length pre"
  shows "decoded hp pre (huffman_decode_tail wr offset hp)"
proof -
  have eq: "huffman_decode_tail wr offset hp = Some (if offset = 0 then T_OK else T_COMPRESSION, hp)"
    using assms(2) by (subst huffman_decode_tail.simps) simp
  note node = part_node [OF assms(1)]
  show ?thesis
  proof (cases "offset = 0")
    case True
    with assms(1) have "pre = []" by (simp add: part_0_pre)
    with True eq node decoded_padding [of "[]" hp] show ?thesis by simp
  qed (use decoded_fail [OF node] assms(3) eq in simp)
qed

lemma tail_correct:
  assumes wr: "wr_ok wr"
  shows "ht_part offset pre \<Longrightarrow> offset < 640 \<Longrightarrow> -7 \<le> hp_curr hp \<Longrightarrow> hp_curr hp \<le> 0 \<Longrightarrow>
    (offset \<noteq> 0 \<Longrightarrow> 8 \<le> length (pre @ avail 7 hp)) \<Longrightarrow>
    decoded hp (pre @ avail 7 hp) (huffman_decode_tail wr offset hp)"
proof (induction "nat (hp_curr hp + 7)" arbitrary: hp offset pre rule: less_induct)
  case less
  obtain k where k: "k \<le> 7" "hp_curr hp = - int k"
    using less.prems(3,4) by (intro that [of "nat (- hp_curr hp)"]) auto
  define i where "i = push_bit k (ucast (hp_hctx hp) :: u32) AND HT_NMASK"
  have i: "uint i < 2 ^ 7" "nbits 7 (uint i) = avail 7 hp @ replicate k False"
    using tail_bits [of 7 k i "hp_hctx hp"] k by (simp_all add: i_def avail_def nat_diff_distrib)
  have pw: "part_width offset = 7" using less.prems(2) by simp
  have lenA: "length (avail 7 hp) = 7 - k" using k by (simp add: avail_def)
  show ?case
  proof (cases "k = 7")
    case True
    with less.prems lenA k(2) show ?thesis using tail_end [of offset pre hp wr] by simp
  next
    case False
    then have "k < 7" using k by simp
    note eq = tail_step [OF wr this k(2) i_def]
    note stop = tail_stop [OF less.prems(1) i k less.prems(5)]
    show ?thesis
    proof (rule ht_entry_cases [OF less.prems(1), of i]; unfold pw)
      fix sh off j assume e: "ht_entry offset i = Some (sh, off)" "0 < j" "j \<le> 7"
        "sh = int j + int (7 - 7)" "huff_code (word_of_int off) = pre @ take j (nbits 7 (uint i))"
      let ?h = "hp\<lparr>hp_hdr := hp_hdr hp @ [word_of_int off], hp_curr := hp_curr hp - sh\<rparr>"
      show ?thesis
      proof (cases "j \<le> 7 - k")
        case True
        have "avail 7 ?h = drop j (avail 7 hp)"
          by (rule avail_drop [of _ _ "7 - k"]) (use True k e(4) in auto)
        then have "pre @ avail 7 hp = huff_code (word_of_int off) @ [] @ avail 7 ?h"
          using e(5) i(2) True lenA by simp
        moreover have "decoded ?h ([] @ avail 7 ?h) (huffman_decode_tail wr 0 ?h)"
          by (rule less.hyps) (use e(2,4) True k ht_part_0 in auto)
        ultimately show ?thesis
          using decoded_symbol [of ?h _ _ hp "word_of_int off"] e(1,2,4) True k by (simp add: eq)
      next
        case False
        then have "strict_prefix (pre @ avail 7 hp) (huff_code (word_of_int off))"
          using e(3,5) i(2) lenA k by (auto simp: strict_prefix_def)
        then have "huff_node (pre @ avail 7 hp)" by (auto simp: huff_node_def)
        moreover have "\<not> sh \<le> hp_curr hp + 7" using False k e(4) by simp
        ultimately show ?thesis using stop e(1,2,4) by (simp add: eq)
      qed
    next
      fix off assume e: "ht_entry offset i = Some (- 7, off)" "ht_part (word_of_int off) (pre @ nbits 7 (uint i))"
      have "huff_node (pre @ avail 7 hp)"
        using node_prefix [of "pre @ avail 7 hp" "replicate k False"] part_node [OF e(2)] i(2) by simp
      with stop e(1) show ?thesis by (simp add: eq)
    qed (use i(1) in simp_all)
  qed
qed

lemma tail_s_correct:
  assumes wr: "wr_ok wr" and part: "ht_part offset pre" "640 \<le> offset" and c: "-3 \<le> hp_curr hp" "hp_curr hp < 0"
    and len: "8 \<le> length (pre @ avail 3 hp)"
  shows "decoded hp (pre @ avail 3 hp) (huffman_decode_tail_s wr offset hp)"
proof -
  define k where "k = nat (- hp_curr hp)"
  have k: "k \<le> 3" "0 < k" "hp_curr hp = - int k" "nat (- hp_curr hp) = k" using c by (auto simp: k_def)
  define i where "i = push_bit k (ucast (hp_hctx hp) :: u32) AND HT_MMASK"
  have lenA: "length (avail 3 hp) = 3 - k" using k by (simp add: avail_def)
  have i: "uint i < 2 ^ 3" "nbits 3 (uint i) = avail 3 hp @ replicate k False"
    using tail_bits [of 3 k i "hp_hctx hp"] k by (simp_all add: i_def avail_def nat_diff_distrib)
  have pw: "part_width offset = 3" using part(2) by simp
  have fail: "decoded hp (pre @ avail 3 hp) (Some (T_COMPRESSION, hp))" if "huff_node (pre @ avail 3 hp)"
    using decoded_fail [OF that] len by simp
  show ?thesis
  proof (cases "k = 3")
    case True
    with fail part_node [OF part(1)] lenA k(3) show ?thesis by (simp add: huffman_decode_tail_s_def)
  next
    case False
    then have c': "hp_curr hp \<noteq> -3" "\<not> 0 < hp_curr hp" using k by simp_all
    show ?thesis
    proof (rule ht_entry_cases [OF part(1), of i])
      show "uint i < 2 ^ part_width offset" using i(1) unfolding pw .
    next
      fix sh off j assume e: "ht_entry offset i = Some (sh, off)" "0 < j" "j \<le> part_width offset"
        "sh = int j + int (7 - part_width offset)"
        "huff_code (word_of_int off) = pre @ take j (nbits (part_width offset) (uint i))"
      have sh: "sh = int j + 4" "j \<le> 3" "huff_code (word_of_int off) = pre @ take j (avail 3 hp @ replicate k False)"
        using e(3,4,5) i(2) unfolding pw by simp_all
      let ?h = "hp\<lparr>hp_hdr := hp_hdr hp @ [word_of_int off], hp_curr := hp_curr hp - sh\<rparr>"
      show ?thesis
      proof (cases "j \<le> 3 - k")
        case True
        have "avail 7 ?h = drop j (avail 3 hp)"
          by (rule avail_drop [of _ _ "3 - k"]) (use True k sh(1) in auto)
        then have eq: "pre @ avail 3 hp = huff_code (word_of_int off) @ [] @ avail 7 ?h"
          using sh(3) True lenA by simp
        have "decoded ?h ([] @ avail 7 ?h) (huffman_decode_tail wr 0 ?h)"
          by (rule tail_correct [OF wr]) (use k True sh ht_part_0 in auto)
        then have "decoded hp (pre @ avail 3 hp) (huffman_decode_tail wr 0 ?h)"
          unfolding eq by (rule decoded_symbol) simp_all
        moreover have "0 < sh" "sh \<le> hp_curr hp + 7" using True k sh(1) by auto
        ultimately show ?thesis
          using e(1) c' k(4) by (simp add: huffman_decode_tail_s_def i_def [symmetric] write_ok [OF wr])
      next
        case False
        have "strict_prefix (pre @ avail 3 hp) (huff_code (word_of_int off))"
          using sh(2,3) False lenA k by (auto simp: strict_prefix_def)
        then have "huff_node (pre @ avail 3 hp)" by (auto simp: huff_node_def)
        moreover have "\<not> sh \<le> hp_curr hp + 7" using False k sh(1) by auto
        ultimately show ?thesis
          using fail e(1) c' k(4) by (simp add: huffman_decode_tail_s_def i_def [symmetric])
      qed
    next
      fix off assume "part_width offset = 7"
      then show ?thesis unfolding pw by simp
    next
      fix off assume e: "ht_entry offset i = Some (- 6, off)" "pre @ take 2 (nbits (part_width offset) (uint i)) = replicate 30 True"
      have "pre @ avail 3 hp @ take (k - 1) (replicate k False) = replicate 30 True"
        using e(2) i(2) lenA k unfolding pw by simp
      then have "prefix (pre @ avail 3 hp) (replicate 30 True)" by (metis append.assoc prefixI)
      then have "huff_node (pre @ avail 3 hp)" by (simp add: huff_node_def)
      with fail show ?thesis using e(1) c' k(4) by (simp add: huffman_decode_tail_s_def i_def [symmetric])
    qed
  qed
qed

section \<open>The loop\<close>

lemma eos_fails: "\<not> huff_encodes ss (replicate 30 True @ xs)"
proof
  assume "huff_encodes ss (replicate 30 True @ xs)"
  then obtain k where k: "k \<le> 7" "replicate 30 True @ xs = concat (map huff_code ss) @ replicate k True"
    by (auto simp: huff_encodes_def)
  show False
  proof (cases ss)
    case Nil
    then have "30 + length xs = k" using arg_cong [OF k(2), of length] by simp
    with k(1) show False by simp
  next
    case (Cons s ss')
    with k(2) have eq: "replicate 30 True @ xs = huff_code s @ concat (map huff_code ss') @ replicate k True" by simp
    then have "prefix (huff_code s) (replicate 30 True @ xs)" by (simp add: prefix_def)
    with huff_code_ne(2) [of s] have "prefix (huff_code s) (replicate 30 True)"
      by (metis length_replicate prefixI prefix_length_prefix)
    with code_not_in_ones show False by blast
  qed
qed

text \<open>
  What the loop returns when \<open>rest\<close> bytes of the string are still to come: an error, when no
  continuation makes the bits \<open>xs\<close> an encoded string, or a state that holds the bits not yet decoded.
\<close>

definition failed :: "bool list \<Rightarrow> (rc \<times> TfwHPack) option \<Rightarrow> bool" where
  "failed xs out \<longleftrightarrow> (\<exists>hp'. out = Some (T_COMPRESSION, hp')) \<and> (\<forall>ss ys. \<not> huff_encodes ss (xs @ ys))"

definition holds_bits :: "TfwHPack \<Rightarrow> bool list \<Rightarrow> nat \<Rightarrow> bool" where
  "holds_bits hp xs rest \<longleftrightarrow>
     (\<exists>pre. ht_part (hp_offset hp) pre \<and> xs = pre @ avail (part_width (hp_offset hp)) hp)
     \<and> - int (part_width (hp_offset hp)) \<le> hp_curr hp \<and> hp_curr hp \<le> 0 \<and> hp_length hp = of_nat rest"

definition postponed :: "TfwHPack \<Rightarrow> bool list \<Rightarrow> nat \<Rightarrow> (rc \<times> TfwHPack) option \<Rightarrow> bool" where
  "postponed hp xs rest out \<longleftrightarrow>
     (\<exists>hp' ss ys. out = Some (T_POSTPONE, hp') \<and> hp_hdr hp' = hp_hdr hp @ ss
       \<and> xs = concat (map huff_code ss) @ ys \<and> holds_bits hp' ys rest)"

definition dec_out :: "TfwHPack \<Rightarrow> bool list \<Rightarrow> nat \<Rightarrow> (rc \<times> TfwHPack) option \<Rightarrow> bool" where
  "dec_out hp xs rest out \<longleftrightarrow>
     (if rest = 0 then decoded hp xs out else postponed hp xs rest out \<or> failed xs out)"

lemma eos_failed: "xs = replicate 30 True @ ys \<Longrightarrow> failed xs (Some (T_COMPRESSION, hp'))"
  by (simp add: failed_def eos_fails)

lemma failed_out: "failed xs out \<Longrightarrow> dec_out hp xs rest out"
  unfolding failed_def dec_out_def decoded_def by (metis append_Nil2)

lemma failed_symbol: "failed xs out \<Longrightarrow> failed (huff_code s @ xs) out"
  by (auto simp: failed_def encodes_code)

lemma postponed_symbol:
  assumes "postponed hp' xs rest out" "hp_hdr hp' = hp_hdr hp @ [s]"
  shows "postponed hp (huff_code s @ xs) rest out"
proof -
  obtain hp2 ss ys where "out = Some (T_POSTPONE, hp2)" "hp_hdr hp2 = hp_hdr hp' @ ss"
    "xs = concat (map huff_code ss) @ ys" "holds_bits hp2 ys rest"
    using assms(1) by (auto simp: postponed_def)
  with assms(2) have "out = Some (T_POSTPONE, hp2) \<and> hp_hdr hp2 = hp_hdr hp @ (s # ss)
    \<and> huff_code s @ xs = concat (map huff_code (s # ss)) @ ys \<and> holds_bits hp2 ys rest" by simp
  then show ?thesis unfolding postponed_def by blast
qed

lemma out_symbol:
  assumes "dec_out hp' xs rest out" "hp_hdr hp' = hp_hdr hp @ [s]" "hp_offset hp' = hp_offset hp"
  shows "dec_out hp (huff_code s @ xs) rest out"
  using assms decoded_symbol failed_symbol postponed_symbol unfolding dec_out_def by (metis (full_types))

lemma out_same:
  assumes "hp_hdr hp' = hp_hdr hp" "hp_offset hp' = hp_offset hp"
  shows "dec_out hp' xs rest out \<longleftrightarrow> dec_out hp xs rest out"
  unfolding dec_out_def decoded_def postponed_def assms ..

text \<open>The state of the loop: \<open>pre\<close> led to the table at \<open>offset\<close>.\<close>

definition dec_inv :: "u16 \<Rightarrow> bool list \<Rightarrow> TfwHPack \<Rightarrow> u8 list \<Rightarrow> nat \<Rightarrow> bool" where
  "dec_inv offset pre hp src rest \<longleftrightarrow>
     ht_part offset pre \<and> - int (part_width offset) \<le> hp_curr hp \<and> hp_curr hp + int (part_width offset) \<le> 16
     \<and> hp_length hp = of_nat (length src + rest) \<and> length src + rest < 2 ^ 64
     \<and> (offset \<noteq> 0 \<longrightarrow> 8 \<le> length (pre @ avail (part_width offset) hp @ str_bits src))"

definition dec_lookup :: "(u8 list \<Rightarrow> rc) \<Rightarrow> u16 \<Rightarrow> nat \<Rightarrow> TfwHPack \<Rightarrow> u8 list \<Rightarrow> (rc \<times> TfwHPack) option" where
  "dec_lookup wr offset n hp src =
     (case ht_entry offset (drop_bit n (ucast (hp_hctx hp)) AND (2 ^ part_width offset - 1)) of
        None \<Rightarrow> None
      | Some (shift, off) \<Rightarrow>
          if shift > 0 then
            huffman_decode_loop wr False 0 (hp\<lparr>hp_hdr := hp_hdr hp @ [word_of_int off], hp_curr := int n - shift\<rparr>) src
          else if 640 \<le> offset \<or> shift = 0 then Some (T_COMPRESSION, hp)
          else if off \<ge> 640 then
            huffman_decode_loop wr True (word_of_int off) (hp\<lparr>hp_curr := int n + shift + 4\<rparr>) src
          else if off = 0 then Some (T_COMPRESSION, hp\<lparr>hp_curr := int n + shift\<rparr>)
          else huffman_decode_loop wr False (word_of_int off) (hp\<lparr>hp_curr := int n + shift\<rparr>) src)"

lemma loop_lookup:
  assumes wr: "wr_ok wr" and short: "short = (if 640 \<le> offset then hp_curr hp < 0 else hp_curr hp \<le> 0)"
    and cont: "\<not> (short \<and> src = [])" and n: "(hp1, src1) = (if short then SET_NEXT hp src else (hp, src))" "hp_curr hp1 = int n"
  shows "huffman_decode_loop wr (640 \<le> offset) offset hp src = dec_lookup wr offset n hp1 src1"
proof -
  have "\<not> hp_curr hp1 < 0" using n(2) by simp
  then show ?thesis unfolding dec_lookup_def
    using cont
    apply (subst huffman_decode_loop.simps)
    apply (simp only: Let_def short [symmetric] n(1) [symmetric] prod.case if_False n(2) nat_int)
    apply (auto simp: write_ok [OF wr] split: option.split)
    done
qed
lemma byte_bits_length [simp]: "length (byte_bits b) = 8"
  by (simp add: byte_bits_def)

lemma str_bits_length [simp]: "length (str_bits bs) = 8 * length bs"
  by (induction bs) simp_all

lemma set_next:
  assumes "hp_curr hp + int w = int m" "m \<le> 8"
  shows "avail w (fst (SET_NEXT hp (b # src))) = avail w hp @ byte_bits b"
proof -
  have "nat (hp_curr hp + 8 + int w) = m + 8" "nat (hp_curr hp + int w) = m" using assms by auto
  with next_bits [OF assms(2), of "hp_hctx hp" b] show ?thesis by (simp add: avail_def)
qed

text \<open>After the fetch of a byte at least \<open>w\<close> bits are at hand.\<close>

lemma loop_fetch:
  assumes wr: "wr_ok wr" and inv: "dec_inv offset pre hp src rest"
    and cont: "\<not> ((if 640 \<le> offset then hp_curr hp < 0 else hp_curr hp \<le> 0) \<and> src = [])"
  obtains hp1 src1 n where "dec_inv offset pre hp1 src1 rest" "hp_curr hp1 = int n" "offset < 640 \<Longrightarrow> 0 < n"
    "avail (part_width offset) hp1 @ str_bits src1 = avail (part_width offset) hp @ str_bits src"
    "hp_hdr hp1 = hp_hdr hp" "hp_offset hp1 = hp_offset hp"
    "huffman_decode_loop wr (640 \<le> offset) offset hp src = dec_lookup wr offset n hp1 src1"
proof -
  define short where "short = (if 640 \<le> offset then hp_curr hp < 0 else hp_curr hp \<le> 0)"
  note look = loop_lookup [OF wr short_def cont [folded short_def]]
  show thesis
  proof (cases "short")
    case False
    then have c: "hp_curr hp = int (nat (hp_curr hp))" by (auto simp: short_def split: if_splits)
    show ?thesis by (rule that [OF inv c]) (use look [OF _ c] False in \<open>auto simp: short_def simp flip: linorder_not_le\<close>)
  next
    case True
    with cont obtain b src' where src: "src = b # src'" by (cases src) (auto simp: short_def)
    let ?h = "fst (SET_NEXT hp (b # src'))" and ?w = "part_width offset"
    obtain m where m: "hp_curr hp + int ?w = int m" "m \<le> 8"
      using inv True by (intro that [of "nat (hp_curr hp + int ?w)"]) (auto simp: dec_inv_def short_def split: if_splits)
    have av: "avail ?w ?h @ str_bits src' = avail ?w hp @ str_bits src" using set_next [OF m, of b src'] src by simp
    have c: "hp_curr ?h = int (nat (hp_curr hp + 8))" using m by (auto split: if_splits)
    have "dec_inv offset pre ?h src' rest"
      using inv m unfolding dec_inv_def av by (auto simp: src)
    moreover have "offset < 640 \<Longrightarrow> 0 < nat (hp_curr hp + 8)" using m by simp
    ultimately show ?thesis using that [OF _ c _ av] look [OF _ c, of src'] True by (simp add: src)
  qed
qed

lemma of_nat_u64_0: "n < 2 ^ 64 \<Longrightarrow> (of_nat n :: u64) = 0 \<longleftrightarrow> n = 0"
  using unsigned_of_nat [of n, where 'a = nat and 'b = 64] take_bit_nat_eq_self [of n 64] by auto

lemma loop_stop:
  assumes wr: "wr_ok wr" and inv: "dec_inv offset pre hp [] rest"
    and short: "if 640 \<le> offset then hp_curr hp < 0 else hp_curr hp \<le> 0"
  shows "dec_out hp (pre @ avail (part_width offset) hp) rest (huffman_decode_loop wr (640 \<le> offset) offset hp [])"
proof -
  let ?A = "avail (part_width offset) hp"
  have len: "hp_length hp = 0 \<longleftrightarrow> rest = 0" using inv of_nat_u64_0 [of rest] by (simp add: dec_inv_def)
  have step: "huffman_decode_loop wr (640 \<le> offset) offset hp [] =
     (if rest \<noteq> 0 then Some (T_POSTPONE, hp\<lparr>hp_offset := offset\<rparr>)
      else if 640 \<le> offset then huffman_decode_tail_s wr offset hp
      else huffman_decode_tail wr offset hp)"
    using short len by (subst huffman_decode_loop.simps) simp
  have av: "avail w (hp\<lparr>hp_offset := offset\<rparr>) = avail w hp" for w by (simp add: avail_def)
  show ?thesis
  proof (cases "rest = 0")
    case True
    show ?thesis
    proof (cases "640 \<le> offset")
      case small: True
      have "offset \<noteq> 0" "\<not> offset < 640" using small by auto
      with True small short inv tail_s_correct [OF wr, of offset pre hp] show ?thesis
        unfolding step by (simp add: dec_out_def dec_inv_def)
    next
      case False
      then have "offset < 640" by simp
      with True False short inv tail_correct [OF wr, of offset pre hp] show ?thesis
        unfolding step by (simp add: dec_out_def dec_inv_def)
    qed
  next
    case False
    have "holds_bits (hp\<lparr>hp_offset := offset\<rparr>) (pre @ ?A) rest"
      using inv short by (auto simp: holds_bits_def dec_inv_def av split: if_splits)
    then have "postponed hp (pre @ ?A) rest (Some (T_POSTPONE, hp\<lparr>hp_offset := offset\<rparr>))"
      unfolding postponed_def by fastforce
    with False show ?thesis by (simp add: step dec_out_def)
  qed
qed

lemma dec_inv_0: "dec_inv 0 [] hp src rest \<longleftrightarrow>
    -7 \<le> hp_curr hp \<and> hp_curr hp \<le> 9 \<and> hp_length hp = of_nat (length src + rest) \<and> length src + rest < 2 ^ 64"
  using ht_part_0 by (auto simp: dec_inv_def)

lemma lookup_symbol:
  assumes inv: "dec_inv offset pre hp src rest" "hp_curr hp = int n" and w: "w = part_width offset"
    and i: "i = drop_bit n (ucast (hp_hctx hp)) AND (2 ^ w - 1)" "nbits w (uint i) = take w (avail w hp)"
    and e: "ht_entry offset i = Some (sh, off)" "0 < j" "j \<le> w" "sh = int j + int (7 - w)"
      "huff_code (word_of_int off) = pre @ take j (nbits w (uint i))"
  obtains h where "dec_inv 0 [] h src rest" "length (avail 7 h) < length (avail w hp)"
    "dec_lookup wr offset n hp src = huffman_decode_loop wr False 0 h src"
    "hp_hdr h = hp_hdr hp @ [word_of_int off]" "hp_offset h = hp_offset hp"
    "pre @ avail w hp = huff_code (word_of_int off) @ avail 7 h"
proof -
  let ?h = "hp\<lparr>hp_hdr := hp_hdr hp @ [word_of_int off], hp_curr := int n - sh\<rparr>"
  have w37: "w = 7 \<or> w = 3" using w by auto
  have cn: "hp_curr hp + int w = int (n + w)" using inv(2) by simp
  have av: "avail 7 ?h = drop j (avail w hp)"
    by (rule avail_drop [OF cn]) (use e w37 in auto)
  have "length (avail w hp) = n + w" unfolding avail_def cn nat_int by simp
  with av e(2,3) have lt: "length (avail 7 ?h) < length (avail w hp)" by simp
  have inv': "dec_inv 0 [] ?h src rest"
    using inv e(2,3,4) w37 ht_part_0 unfolding dec_inv_0 dec_inv_def w [symmetric] by auto
  have eq: "dec_lookup wr offset n hp src = huffman_decode_loop wr False 0 ?h src"
    using e(1,2,4) unfolding dec_lookup_def i(1) [symmetric] w [symmetric] by simp
  show thesis by (rule that [OF inv' lt eq]) (use av e(3,5) i(2) in \<open>simp_all add: min_def\<close>)
qed

lemma lookup_part:
  assumes inv: "dec_inv offset pre hp src rest" "hp_curr hp = int n" "0 < n" and w: "offset < 640"
    and i: "i = drop_bit n (ucast (hp_hctx hp)) AND (2 ^ 7 - 1)" "nbits 7 (uint i) = take 7 (avail 7 hp)"
    and e: "ht_entry offset i = Some (- 7, off)" "0 < off" "off < 2 ^ 16" "ht_part (word_of_int off) (pre @ nbits 7 (uint i))"
  defines "o' \<equiv> word_of_int off" and "pre' \<equiv> pre @ nbits 7 (uint i)"
  obtains h where "dec_inv o' pre' h src rest" "length (avail (part_width o') h) < length (avail 7 hp)"
    "dec_lookup wr offset n hp src = huffman_decode_loop wr (640 \<le> o') o' h src"
    "hp_hdr h = hp_hdr hp" "hp_offset h = hp_offset hp"
    "pre @ avail 7 hp = pre' @ avail (part_width o') h"
proof -
  let ?w = "part_width o'" and ?h = "hp\<lparr>hp_curr := int n - int (part_width o')\<rparr>"
  have small: "o' < 640 \<longleftrightarrow> off < 640" "640 \<le> o' \<longleftrightarrow> 640 \<le> off"
    using e(2,3) by (simp_all add: o'_def word_less_def word_le_def unsigned_of_int take_bit_int_eq_self)
  have cn: "hp_curr hp + int 7 = int (n + 7)" using inv(2) by simp
  have av: "avail ?w ?h = drop 7 (avail 7 hp)"
    by (rule avail_drop [OF cn]) auto
  have len: "length (avail 7 hp) = n + 7" unfolding avail_def cn nat_int by simp
  have bits: "pre @ avail 7 hp = pre' @ avail ?w ?h" unfolding av using i(2) by (simp add: pre'_def)
  have lt: "length (avail ?w ?h) < length (avail 7 hp)" unfolding av using len by simp
  have "8 \<le> length (pre' @ avail ?w ?h @ str_bits src)"
    using arg_cong [OF bits, of length] len inv(3) by simp
  then have inv': "dec_inv o' pre' ?h src rest"
    using inv e(4) unfolding dec_inv_def o'_def pre'_def by auto
  have eq: "dec_lookup wr offset n hp src = huffman_decode_loop wr (640 \<le> o') o' ?h src"
    using e(1,2) w small i(1) unfolding dec_lookup_def by (auto simp: o'_def)
  show thesis by (rule that [OF inv' lt eq _ _ bits]) simp_all
qed

lemma lookup_eos:
  assumes w: "640 \<le> offset" and i: "i = drop_bit n (ucast (hp_hctx hp)) AND (2 ^ 3 - 1)" "nbits 3 (uint i) = take 3 (avail 3 hp)"
    and e: "ht_entry offset i = Some (- 6, off)" "pre @ take 2 (nbits 3 (uint i)) = replicate 30 True"
  shows "failed (pre @ avail 3 hp @ ys) (dec_lookup wr offset n hp src)"
proof -
  have "pre @ avail 3 hp @ ys = (pre @ take 2 (avail 3 hp)) @ drop 2 (avail 3 hp) @ ys" by simp
  also have "pre @ take 2 (avail 3 hp) = replicate 30 True" using e(2) i(2) by (simp add: min_def)
  finally have "failed (pre @ avail 3 hp @ ys) (Some (T_COMPRESSION, hp))" by (rule eos_failed)
  moreover have "dec_lookup wr offset n hp src = Some (T_COMPRESSION, hp)"
    using e(1) w i(1) unfolding dec_lookup_def by auto
  ultimately show ?thesis by simp
qed

lemma loop_correct:
  assumes wr: "wr_ok wr"
  shows "dec_inv offset pre hp src rest \<Longrightarrow>
    dec_out hp (pre @ avail (part_width offset) hp @ str_bits src) rest
      (huffman_decode_loop wr (640 \<le> offset) offset hp src)"
proof (induction "length (avail (part_width offset) hp @ str_bits src)" arbitrary: offset pre hp src rule: less_induct)
  case less
  define w where "w = part_width offset"
  have w: "w = 7 \<or> w = 3" "offset < 640 \<longleftrightarrow> w = 7" by (auto simp: w_def)
  show ?case
  proof (cases "(if 640 \<le> offset then hp_curr hp < 0 else hp_curr hp \<le> 0) \<and> src = []")
    case True
    with loop_stop [OF wr, of offset pre hp rest] less.prems show ?thesis by simp
  next
    case False
    obtain hp1 src1 n where f: "dec_inv offset pre hp1 src1 rest" "hp_curr hp1 = int n" "offset < 640 \<Longrightarrow> 0 < n"
      "avail w hp1 @ str_bits src1 = avail w hp @ str_bits src"
      "hp_hdr hp1 = hp_hdr hp" "hp_offset hp1 = hp_offset hp"
      "huffman_decode_loop wr (640 \<le> offset) offset hp src = dec_lookup wr offset n hp1 src1"
      using loop_fetch [OF wr less.prems False] unfolding w_def by blast
    define i where "i = drop_bit n (ucast (hp_hctx hp1) :: u32) AND (2 ^ w - 1)"
    have "avail w hp1 = nbits (n + w) (uint (hp_hctx hp1))" using f(2) by (simp add: avail_def nat_add_distrib)
    then have i: "uint i < 2 ^ w" "nbits w (uint i) = take w (avail w hp1)"
      using lookup_bits [of w i n "hp_hctx hp1"] w by (auto simp: i_def)
    have shorter: "length (ys @ str_bits src1) < length (avail w hp @ str_bits src)" if "length ys < length (avail w hp1)" for ys
      unfolding f(4) [symmetric] using that by simp
    have "dec_out hp1 (pre @ avail w hp1 @ str_bits src1) rest (dec_lookup wr offset n hp1 src1)"
    proof (rule ht_entry_cases [of offset pre i]; (unfold w_def [symmetric])?)
      show "ht_part offset pre" using f(1) by (simp add: dec_inv_def)
      show "uint i < 2 ^ w" by (rule i(1))
    next
      fix sh off j assume e: "ht_entry offset i = Some (sh, off)" "0 < j" "j \<le> w"
        "sh = int j + int (7 - w)" "huff_code (word_of_int off) = pre @ take j (nbits w (uint i))"
      obtain h where h: "dec_inv 0 [] h src1 rest" "length (avail 7 h) < length (avail w hp1)"
        "dec_lookup wr offset n hp1 src1 = huffman_decode_loop wr False 0 h src1"
        "hp_hdr h = hp_hdr hp1 @ [word_of_int off]" "hp_offset h = hp_offset hp1"
        "pre @ avail w hp1 = huff_code (word_of_int off) @ avail 7 h"
        using lookup_symbol [OF f(1,2) w_def i_def i(2) e] by blast
      from less.hyps [of 0 h src1 "[]"] h(1) shorter [OF h(2)]
      have "dec_out h (avail 7 h @ str_bits src1) rest (huffman_decode_loop wr False 0 h src1)" by (simp add: w_def)
      from out_symbol [OF this h(4,5)] show ?thesis unfolding append_assoc [symmetric] h(3,6) .
    next
      fix off assume e: "w = 7" "ht_entry offset i = Some (- 7, off)" "0 < off" "off < 2 ^ 16"
        "ht_part (word_of_int off) (pre @ nbits w (uint i))"
      let ?o = "word_of_int off :: u16" and ?p = "pre @ nbits w (uint i)"
      have small: "offset < 640" using w(2) e(1) by simp
      obtain h where h: "dec_inv ?o ?p h src1 rest" "length (avail (part_width ?o) h) < length (avail w hp1)"
        "dec_lookup wr offset n hp1 src1 = huffman_decode_loop wr (640 \<le> ?o) ?o h src1"
        "hp_hdr h = hp_hdr hp1" "hp_offset h = hp_offset hp1" "pre @ avail w hp1 = ?p @ avail (part_width ?o) h"
        unfolding e(1)
        by (rule lookup_part [where wr = wr, OF f(1,2) f(3) [OF small] small
              i_def [unfolded e(1)] i(2) [unfolded e(1)] e(2-4) e(5) [unfolded e(1)]]) blast
      from less.hyps [of ?o h src1 ?p] h(1) shorter [OF h(2)]
      have "dec_out h (?p @ avail (part_width ?o) h @ str_bits src1) rest (huffman_decode_loop wr (640 \<le> ?o) ?o h src1)"
        by (simp add: w_def)
      then show ?thesis unfolding append_assoc [symmetric] h(3,6) using out_same [OF h(4,5)] by blast
    next
      fix off assume e: "w = 3" "ht_entry offset i = Some (- 6, off)" "pre @ take 2 (nbits w (uint i)) = replicate 30 True"
      then have "640 \<le> offset" using w(2) by auto
      from lookup_eos [OF this i_def [unfolded e(1)] i(2) [unfolded e(1)] e(2) e(3) [unfolded e(1)]] failed_out e(1)
      show ?thesis by simp
    qed
    then show ?thesis unfolding f(4) f(7) w_def [symmetric] using out_same f(5,6) by blast
  qed
qed

text \<open>The fragments of a string, one call each.\<close>

fun huffman_decode_fragments :: "(u8 list \<Rightarrow> rc) \<Rightarrow> TfwHPack \<Rightarrow> u8 list list \<Rightarrow> (rc \<times> TfwHPack) option" where
  "huffman_decode_fragments wr hp [] = Some (T_OK, hp)"
| "huffman_decode_fragments wr hp [f] = tfw_huffman_decode wr hp f"
| "huffman_decode_fragments wr hp (f # fs) =
     (case tfw_huffman_decode wr hp f of
        None \<Rightarrow> None
      | Some (r, hp) \<Rightarrow> if r = T_POSTPONE then huffman_decode_fragments wr hp fs else Some (r, hp))"

lemma decode_holds:
  assumes wr: "wr_ok wr" and src: "src \<noteq> []" and hold: "holds_bits hp xs (length src + rest)"
    and len: "length src + rest < 2 ^ 64"
  shows "dec_out (hp\<lparr>hp_offset := 0\<rparr>) (xs @ str_bits src) rest (tfw_huffman_decode wr hp src)"
proof -
  obtain b src' where s: "src = b # src'" using src by (cases src) auto
  let ?w = "part_width (hp_offset hp)" and ?h = "(fst (SET_NEXT hp (b # src')))\<lparr>hp_offset := 0\<rparr>"
  obtain pre where pre: "ht_part (hp_offset hp) pre" "xs = pre @ avail ?w hp" using hold by (auto simp: holds_bits_def)
  obtain m where m: "hp_curr hp + int ?w = int m" "m \<le> 8"
    using hold by (intro that [of "nat (hp_curr hp + int ?w)"]) (auto simp: holds_bits_def split: if_splits)
  have "avail ?w ?h = avail ?w (fst (SET_NEXT hp (b # src')))" by (simp add: avail_def)
  then have av: "avail ?w ?h = avail ?w hp @ byte_bits b" using set_next [OF m] by simp
  have "dec_inv (hp_offset hp) pre ?h src' rest"
    using pre(1) hold len m unfolding dec_inv_def av by (auto simp: s holds_bits_def)
  from loop_correct [OF wr this] have "dec_out ?h (xs @ str_bits src) rest (tfw_huffman_decode wr hp src)"
    unfolding av by (simp add: pre(2) s tfw_huffman_decode_def)
  then show ?thesis using out_same [of ?h "hp\<lparr>hp_offset := 0\<rparr>"] by simp
qed

lemma decoded_symbols:
  "decoded hp' xs out \<Longrightarrow> hp_hdr hp' = hp_hdr hp @ ss \<Longrightarrow> hp_offset hp' = hp_offset hp \<Longrightarrow>
    decoded hp (concat (map huff_code ss) @ xs) out"
proof (induction ss arbitrary: hp)
  case Nil
  then show ?case by (simp add: decoded_def)
next
  case (Cons s ss)
  let ?h = "hp\<lparr>hp_hdr := hp_hdr hp @ [s]\<rparr>"
  have "decoded ?h (concat (map huff_code ss) @ xs) out" by (rule Cons.IH) (use Cons.prems in simp_all)
  then have "decoded hp (huff_code s @ concat (map huff_code ss) @ xs) out" by (rule decoded_symbol) simp_all
  then show ?case by simp
qed

lemma fragments_correct:
  shows "wr_ok wr \<Longrightarrow> fs \<noteq> [] \<Longrightarrow> [] \<notin> set fs \<Longrightarrow> holds_bits hp xs (length (concat fs)) \<Longrightarrow> length (concat fs) < 2 ^ 64 \<Longrightarrow>
    decoded (hp\<lparr>hp_offset := 0\<rparr>) (xs @ str_bits (concat fs)) (huffman_decode_fragments wr hp fs)"
proof (induction wr hp fs arbitrary: xs rule: huffman_decode_fragments.induct)
  case (2 wr hp f)
  then have "dec_out (hp\<lparr>hp_offset := 0\<rparr>) (xs @ str_bits f) 0 (tfw_huffman_decode wr hp f)"
    by (intro decode_holds) auto
  then show ?case by (simp add: dec_out_def)
next
  case (3 wr hp f g fs)
  let ?rest = "length (concat (g # fs))" and ?h = "hp\<lparr>hp_offset := 0\<rparr>"
  have rest: "?rest \<noteq> 0" using "3.prems"(3) by (cases g) auto
  have "dec_out ?h (xs @ str_bits f) ?rest (tfw_huffman_decode wr hp f)"
    by (rule decode_holds) (use "3.prems" in auto)
  then consider "postponed ?h (xs @ str_bits f) ?rest (tfw_huffman_decode wr hp f)"
    | "failed (xs @ str_bits f) (tfw_huffman_decode wr hp f)" using rest unfolding dec_out_def by metis
  then show ?case
  proof cases
    case 1
    then obtain hp' ss ys where p: "tfw_huffman_decode wr hp f = Some (T_POSTPONE, hp')" "hp_hdr hp' = hp_hdr hp @ ss"
      "xs @ str_bits f = concat (map huff_code ss) @ ys" "holds_bits hp' ys ?rest" by (auto simp: postponed_def)
    have "decoded (hp'\<lparr>hp_offset := 0\<rparr>) (ys @ str_bits (concat (g # fs))) (huffman_decode_fragments wr hp' (g # fs))"
      by (rule "3.IH" [OF p(1) refl]) (use "3.prems" p(4) in auto)
    from decoded_symbols [OF this, of ?h ss] p(2)
    have "decoded ?h ((xs @ str_bits f) @ str_bits (concat (g # fs))) (huffman_decode_fragments wr hp' (g # fs))"
      unfolding p(3) by simp
    then show ?thesis using p(1) by simp
  next
    case 2
    then show ?thesis by (auto simp: failed_def decoded_def)
  qed
qed simp

end
