(* ===== verification/Hpack_Encode.thy ===== *)
theory Hpack_Encode
  imports Hpack_Decode
begin

unbundle bit_operations_syntax

text \<open>
  The Huffman encoder of \<^verbatim>\<open>src/fw/hpack.c\<close>.  The bits written so far and those kept in the last word
  are the code words of the symbols taken; the length computed in advance is exact, so that no
  store leaves the buffer.
\<close>

section \<open>Encoder\<close>

lemma JOIN_BITS_nbits:
  assumes "n + l \<le> 64" "uint e < 2 ^ l"
  shows "nbits (n + l) (uint (JOIN_BITS a l e)) = nbits n (uint a) @ nbits l (uint e)"
proof -
  have e: "\<not> bit (uint e) j" if "l \<le> j" for j
    using assms(2) that by (metis bit_take_bit_iff leD take_bit_int_eq_self uint_nonnegative)
  have b: "bit (uint (JOIN_BITS a l e)) j \<longleftrightarrow> (if j < l then bit (uint e) j else bit (uint a) (j - l))" if "j < n + l" for j
    using assms(1) e [of j] that
    by (auto simp: JOIN_BITS_def bit_uint_iff bit_or_iff bit_push_bit_iff)
  show ?thesis
    by (intro nth_equalityI) (auto simp: nth_nbits nth_append b intro!: arg_cong2 [of _ _ _ _ bit])
qed

lemma be64_bits: "str_bits (be64_bytes w) = nbits 64 (uint w)"
proof -
  have b: "byte_bits (ucast (drop_bit k w)) = nbits 8 (drop_bit k (uint w))" for k
    unfolding byte_bits_def by (intro nth_equalityI) (auto simp: nth_nbits bit_uint_iff bit_unsigned_iff bit_drop_bit_eq dest: bit_imp_le_length)
  then have "str_bits (be64_bytes w) = concat (map (\<lambda>k. nbits 8 (drop_bit (8 * k) (uint w))) [7, 6, 5, 4, 3, 2, 1, 0])"
    using b [of 0] by (simp add: be64_bytes_def b)
  also have "\<dots> = nbits 64 (uint w)"
    using nbits_split [of 8 56 "uint w"] nbits_split [of 8 48 "uint w"] nbits_split [of 8 40 "uint w"]
      nbits_split [of 8 32 "uint w"] nbits_split [of 8 24 "uint w"] nbits_split [of 8 16 "uint w"]
      nbits_split [of 8 8 "uint w"] by simp
  finally show ?thesis .
qed

lemma be64_length [simp]: "length (be64_bytes w) = 8"
  by (simp add: be64_bytes_def)

definition enc_bits :: "huff_dst \<Rightarrow> bool list" where
  "enc_bits h = str_bits (hd_out h) @ nbits (hd_off h) (uint (hd_last_word h))"

lemma code_word:
  assumes "e = ucast (ht_encode ! unat s)" "l = unat (ht_length ! unat s)"
  shows "0 < l" "l \<le> 30" "uint (e :: u64) < 2 ^ l" "huff_code s = nbits l (uint e)"
proof -
  obtain c v where cv: "code_of s = (c, v)" by force
  moreover have "take_bit 64 (uint (ht_encode ! unat s)) = uint (ht_encode ! unat s)"
    using unsigned_less [of "ht_encode ! unat s", where 'a = int] by (simp add: take_bit_int_eq_self)
  ultimately have c: "c = int l" "v = uint e" by (auto simp: code_of_def assms unsigned_ucast_eq)
  with code_bounds [OF cv] show "0 < l" "l \<le> 30" "uint e < 2 ^ l" by auto
  show "huff_code s = nbits l (uint e)" using huff_code_of [OF cv] c by simp
qed
text \<open>The bits written, and those in the last word, are the code words of the symbols taken.\<close>

lemma store_ok:
  assumes "length (hd_out h) + length bs \<le> hd_len h"
  shows "store_bytes bs h = Some (T_OK, h\<lparr>hd_out := hd_out h @ bs\<rparr>)"
  using assms by (simp add: store_bytes_def)

lemma encode_symbol:
  assumes off: "hd_off h \<le> 64" and room: "length (enc_bits h @ huff_code s) \<le> 8 * hd_len h"
  obtains h' where "huffman_encode_symbol s h = Some (T_OK, h')" "enc_bits h' = enc_bits h @ huff_code s"
    "0 < hd_off h'" "hd_off h' \<le> 64" "hd_len h' = hd_len h"
proof -
  define e where "e = (ucast (ht_encode ! unat s) :: u64)"
  define l where "l = unat (ht_length ! unat s)"
  note c = code_word [OF e_def l_def]
  define d where "d = 64 - hd_off h"
  show thesis
  proof (cases "l \<le> d")
    case True
    let ?h = "h\<lparr>hd_off := hd_off h + l, hd_last_word := JOIN_BITS (hd_last_word h) l e\<rparr>"
    have "huffman_encode_symbol s h = Some (T_OK, ?h)"
      using True by (simp add: huffman_encode_symbol_def Let_def e_def l_def d_def)
    moreover have "enc_bits ?h = enc_bits h @ huff_code s"
      using JOIN_BITS_nbits [of "hd_off h" l e] c True off by (simp add: enc_bits_def d_def)
    ultimately show ?thesis by (rule that) (use c True off d_def in auto)
  next
    case False
    let ?o = "hd_off h + l - 64" and ?h = "h\<lparr>hd_out := hd_out h @ be64_bytes (JOIN_BITS (hd_last_word h) d (drop_bit (hd_off h + l - 64) e)),
      hd_off := hd_off h + l - 64, hd_last_word := e\<rparr>"
    have o: "d + ?o = l" "hd_off h + d = 64" using False off by (auto simp: d_def)
    have "?o = l - d" "d \<le> l" using False off by (auto simp: d_def)
    then have "drop_bit ?o (uint e) < 2 ^ d"
      using c(3) div_2_power_less [of "uint e" l d] by (simp add: drop_bit_eq_div)
    moreover have "uint (drop_bit ?o e) = drop_bit ?o (uint e)"
      using unsigned_less [of e, where 'a = int] by (simp add: unsigned_drop_bit_eq take_bit_int_eq_self)
    ultimately have "nbits 64 (uint (JOIN_BITS (hd_last_word h) d (drop_bit ?o e))) =
        nbits (hd_off h) (uint (hd_last_word h)) @ nbits d (drop_bit ?o (uint e))"
      using JOIN_BITS_nbits [of "hd_off h" d "drop_bit ?o e" "hd_last_word h"] o(2) by simp
    then have bits: "enc_bits ?h = enc_bits h @ huff_code s"
      using nbits_split [of d ?o "uint e", unfolded o(1)] c(4) by (simp add: enc_bits_def be64_bits)
    have "huffman_encode_symbol s h = Some (T_OK, ?h)"
      using False store_ok room c(4) off by (simp add: huffman_encode_symbol_def Let_def e_def l_def d_def enc_bits_def)
    from that [OF this bits] show ?thesis using c False off by (simp add: d_def)
  qed
qed
lemma encode_symbols:
  "hd_off h \<le> 64 \<Longrightarrow> length (enc_bits h @ concat (map huff_code ss)) \<le> 8 * hd_len h \<Longrightarrow>
   \<exists>h'. huffman_encode_symbols ss h = Some (T_OK, h') \<and> enc_bits h' = enc_bits h @ concat (map huff_code ss)
     \<and> hd_off h' \<le> 64 \<and> hd_len h' = hd_len h \<and> (0 < hd_off h' \<longleftrightarrow> ss \<noteq> [] \<or> 0 < hd_off h)"
proof (induction ss arbitrary: h)
  case (Cons s ss)
  obtain h1 where h1: "huffman_encode_symbol s h = Some (T_OK, h1)" "enc_bits h1 = enc_bits h @ huff_code s"
    "0 < hd_off h1" "hd_off h1 \<le> 64" "hd_len h1 = hd_len h"
    using encode_symbol [of h s] Cons.prems by auto
  with Cons.IH [of h1] Cons.prems show ?case by simp
qed simp

lemma str_bits_take: "take (8 * n) (str_bits bs) = str_bits (take n bs)"
proof (induction bs arbitrary: n)
  case (Cons b bs)
  then show ?case by (cases n) simp_all
qed simp

lemma store_part_ok:
  assumes "8 * n - 1 < hd_off h" "length (hd_out h) + n \<le> hd_len h" "n \<le> length bs"
  shows "store_part n (bs, h) = Some (T_OK, drop n bs, h\<lparr>hd_out := hd_out h @ take n bs, hd_off := hd_off h - 8 * n\<rparr>)"
  using assms by (simp add: store_part_def store_ok)

text \<open>The last word is written in parts of four, two and one byte.\<close>

lemma store_parts:
  assumes off: "hd_off h = 8 * n" "0 < n" "n < 8" and room: "length (hd_out h) + n \<le> hd_len h" and bs: "length bs = 8"
  shows "\<exists>h'. do {
        (r, bs, h) \<leftarrow> store_part 4 (bs, h);
        if r \<noteq> T_OK then Some (r, h)
        else do {
          (r, bs, h) \<leftarrow> store_part 2 (bs, h);
          if r \<noteq> T_OK then Some (r, h)
          else if hd_off h \<noteq> 0 then store_bytes (take 1 bs) h
          else Some (T_OK, h)
        }
      } = Some (T_OK, h') \<and> hd_out h' = hd_out h @ take n bs"
proof -
  obtain a b c d e f g i where bs: "bs = [a, b, c, d, e, f, g, i]"
    using bs by (auto simp: length_Suc_conv numeral_eq_Suc)
  consider "n = 1" | "n = 2" | "n = 3" | "n = 4" | "n = 5" | "n = 6" | "n = 7" using off by linarith
  then show ?thesis
    by cases (use off(1) room bs in \<open>simp_all add: store_part_def store_ok\<close>)
qed
definition pad_ones :: "nat \<Rightarrow> bool list" where
  "pad_ones n = replicate ((8 - n mod 8) mod 8) True"

lemma encode_pad:
  assumes off: "0 < hd_off h" "hd_off h \<le> 64"
  defines "tail \<equiv> hd_off h mod 8"
  defines "h' \<equiv> if tail \<noteq> 0 then h\<lparr>hd_off := hd_off h + (8 - tail),
      hd_last_word := JOIN_BITS (hd_last_word h) (8 - tail) (drop_bit tail (ucast HT_EOS_HIGH))\<rparr> else h"
  obtains n where "hd_off h' = 8 * n" "0 < n" "n \<le> 8" "hd_out h' = hd_out h" "hd_len h' = hd_len h"
    "enc_bits h' = enc_bits h @ pad_ones (hd_off h)"
proof -
  let ?n = "(hd_off h + 7) div 8"
  have off': "hd_off h' = 8 * ?n"
  proof (cases "tail = 0")
    case False
    define q where "q = hd_off h div 8"
    have q: "hd_off h = 8 * q + tail" "tail < 8" by (simp_all add: tail_def q_def)
    with False have "(hd_off h + 7) div 8 = q + 1" by (intro div_nat_eqI) simp_all
    with q False show ?thesis by (simp add: h'_def)
  qed (auto simp: h'_def tail_def)
  have bits: "enc_bits h' = enc_bits h @ pad_ones (hd_off h)"
  proof (cases "tail = 0")
    case True
    then show ?thesis by (simp add: h'_def pad_ones_def tail_def)
  next
    case False
    have "tail \<in> {1, 2, 3, 4, 5, 6, 7}" using False by (auto simp: tail_def)
    then have ones: "uint (drop_bit tail 255 :: u64) = 2 ^ (8 - tail) - 1"
      by (elim insertE emptyE) simp_all
    have le: "hd_off h + (8 - tail) \<le> 64"
    proof -
      have "hd_off h = 8 * (hd_off h div 8) + tail" by (simp add: tail_def)
      moreover have "hd_off h div 8 \<le> 8" "tail < 8" using off(2) by (simp_all add: tail_def)
      moreover have "hd_off h div 8 \<noteq> 8" using off(2) False calculation(1) by linarith
      ultimately show ?thesis by linarith
    qed
    have "(8 - tail) mod 8 = 8 - tail" using False by simp
    then have "pad_ones (hd_off h) = nbits (8 - tail) (2 ^ (8 - tail) - 1)"
      by (simp add: pad_ones_def nbits_ones flip: tail_def)
    with JOIN_BITS_nbits [OF le, of "drop_bit tail 255" "hd_last_word h"] False show ?thesis
      by (simp add: enc_bits_def h'_def ones)
  qed
  have "0 < ?n" "?n \<le> 8" using off by linarith+
  from that [OF off' this _ _ bits] show thesis by (simp add: h'_def)
qed

lemma encode_tail:
  assumes off: "0 < hd_off h" "hd_off h \<le> 64" and room: "length (enc_bits h) \<le> 8 * hd_len h"
  obtains h' where "huffman_encode_tail h = Some (T_OK, h')" "str_bits (hd_out h') = enc_bits h @ pad_ones (hd_off h)"
proof -
  define p where "p = (let tail = hd_off h mod 8 in if tail \<noteq> 0 then h\<lparr>hd_off := hd_off h + (8 - tail),
      hd_last_word := JOIN_BITS (hd_last_word h) (8 - tail) (drop_bit tail (ucast HT_EOS_HIGH))\<rparr> else h)"
  obtain n where n: "hd_off p = 8 * n" "0 < n" "n \<le> 8" "hd_out p = hd_out h" "hd_len p = hd_len h"
    "enc_bits p = enc_bits h @ pad_ones (hd_off h)"
    using encode_pad [OF off] unfolding p_def Let_def by metis
  define bs where "bs = be64_bytes (push_bit (64 - hd_off p) (hd_last_word p))"
  have "8 * length (hd_out p) + hd_off h \<le> 8 * hd_len p" using room n(4,5) by (simp add: enc_bits_def)
  moreover have "8 * n < hd_off h + 8" using arg_cong [OF n(6), of length] n(1,4) by (simp add: enc_bits_def pad_ones_def)
  ultimately have room': "length (hd_out p) + n \<le> hd_len p" by linarith
  have "str_bits (take n bs) = nbits (8 * n) (uint (hd_last_word p))"
  proof -
    have "bit (uint (push_bit (64 - 8 * n) (hd_last_word p))) j \<longleftrightarrow> bit (uint (hd_last_word p)) (j - (64 - 8 * n))"
      if "64 - 8 * n \<le> j" "j < 64" for j using that by (auto simp: bit_uint_iff bit_push_bit_iff)
    then have "take (8 * n) (nbits 64 (uint (push_bit (64 - 8 * n) (hd_last_word p)))) = nbits (8 * n) (uint (hd_last_word p))"
      using n(3) by (intro nth_equalityI) (auto simp: nth_nbits)
    then show ?thesis by (simp add: bs_def be64_bits n(1) flip: str_bits_take)
  qed
  then have out: "str_bits (hd_out p @ take n bs) = enc_bits p" by (simp add: enc_bits_def n(1))
  have eq: "huffman_encode_tail h = (if hd_off p = 64 then store_bytes bs p else do {
        (r, bs, h) \<leftarrow> store_part 4 (bs, p);
        if r \<noteq> T_OK then Some (r, h)
        else do {
          (r, bs, h) \<leftarrow> store_part 2 (bs, h);
          if r \<noteq> T_OK then Some (r, h)
          else if hd_off h \<noteq> 0 then store_bytes (take 1 bs) h
          else Some (T_OK, h)
        }
      })" unfolding huffman_encode_tail_def p_def bs_def Let_def by simp
  show thesis
  proof (cases "n = 8")
    case True
    with out n(1) room' show ?thesis using that n(6) eq by (simp add: store_ok bs_def)
  next
    case False
    with store_parts [OF n(1,2) _ room', of bs] n(3) obtain h' where "huffman_encode_tail h = Some (T_OK, h')"
      "hd_out h' = hd_out p @ take n bs" by (auto simp: eq n(1) bs_def)
    with that out n(6) show ?thesis by simp
  qed
qed

section \<open>Whole strings\<close>

lemma codes_length: "length (concat (map huff_code ss)) \<le> 30 * length ss"
proof (induction ss)
  case (Cons s ss)
  then show ?case using huff_code_ne(2) [of s] by simp
qed simp

lemma string_len_fold:
  "fold (\<lambda>s n. n + ucast (ht_length ! unat s)) ss (of_nat a) = (of_nat (a + length (concat (map huff_code ss))) :: u64)"
proof (induction ss arbitrary: a)
  case (Cons s ss)
  have "(ucast (ht_length ! unat s) :: u64) = of_nat (length (huff_code s))"
    by (simp add: huff_code_def)
  with Cons [of "a + length (huff_code s)"] show ?case by (simp add: add.assoc)
qed simp

lemma string_len:
  assumes "length (concat str) < 2 ^ 58"
  shows "unat (tfw_huffman_encode_string_len str) = (length (concat (map huff_code (concat str))) + 7) div 8"
proof -
  let ?n = "length (concat (map huff_code (concat str)))"
  have lt: "?n + 7 < 2 ^ 64" using codes_length [of "concat str"] assms by simp
  then have n: "unat (of_nat (?n + 7) :: u64) = ?n + 7"
    by (subst unsigned_of_nat) (simp add: take_bit_nat_eq_self)
  have "tfw_huffman_encode_string_len str = drop_bit 3 (of_nat (?n + 7))"
    using string_len_fold [of "concat str" 0] by (simp add: tfw_huffman_encode_string_len_def)
  then have "unat (tfw_huffman_encode_string_len str) = drop_bit 3 (unat (of_nat (?n + 7) :: u64))"
    using n lt by (simp add: unsigned_drop_bit_eq take_bit_nat_eq_self)
  then show ?thesis unfolding n by (simp add: drop_bit_eq_div)
qed

lemma encode_string:
  assumes ne: "concat str \<noteq> []" and len: "length (concat str) < 2 ^ 58"
  obtains out where "tfw_huffman_encode_string True str = Some (Inr out)"
    "huff_encodes (concat str) (str_bits out)" "length out = unat (tfw_huffman_encode_string_len str)"
proof -
  let ?c = "concat (map huff_code (concat str))" and ?l = "unat (tfw_huffman_encode_string_len str)"
  let ?h = "\<lparr>hd_off = 0, hd_last_word = 0, hd_out = [], hd_len = ?l\<rparr>"
  have l: "?l = (length ?c + 7) div 8" by (rule string_len [OF len])
  have nz: "0 < length ?c" using ne huff_code_ne by (cases "concat str") auto
  have room: "length ?c \<le> 8 * ?l" unfolding l by linarith
  obtain h1 where h1: "huffman_encode_symbols (concat str) ?h = Some (T_OK, h1)" "enc_bits h1 = ?c"
    "hd_off h1 \<le> 64" "hd_len h1 = ?l" "0 < hd_off h1"
    using encode_symbols [of ?h "concat str"] room ne by (auto simp: enc_bits_def)
  obtain h2 where h2: "huffman_encode_tail h1 = Some (T_OK, h2)" "str_bits (hd_out h2) = ?c @ pad_ones (hd_off h1)"
    using encode_tail [of h1] h1 room by auto
  have "0 < ?l" unfolding l using nz by linarith
  then have "tfw_huffman_encode_string_len str \<noteq> 0" by auto
  then have "tfw_huffman_encode_string True str = Some (Inr (hd_out h2))"
    using h1 h2(1) by (simp add: tfw_huffman_encode_string_def tfw_huffman_encode_copy_def Let_def)
  moreover have "huff_encodes (concat str) (str_bits (hd_out h2))"
    unfolding huff_encodes_def h2(2) pad_ones_def by (intro exI [of _ "(8 - hd_off h1 mod 8) mod 8"]) simp
  moreover have "length (hd_out h2) = ?l"
  proof -
    have "8 * length (hd_out h2) = length ?c + (8 - hd_off h1 mod 8) mod 8"
      using arg_cong [OF h2(2), of length] by (simp add: pad_ones_def)
    moreover have "(8 - hd_off h1 mod 8) mod 8 < 8" by simp
    ultimately show ?thesis unfolding l by linarith
  qed
  ultimately show thesis by (rule that)
qed

end
