(* ===== verification/Hpack_Spec.thy ===== *)
theory Hpack_Spec
  imports Hpack_Encode
begin

text \<open>
  The properties of the Huffman coder of HPACK.
\<close>

text \<open>
  (C4) The decoder accepts a string, in whatever fragments it comes, exactly when the string is
  the code words of some symbols followed by up to seven ones; it then appends these symbols to
  the header, and fails with \<open>T_COMPRESSION\<close> in all other cases.  It never reads outside of its
  tables and always returns.
\<close>

theorem huffman_decode_correct:
  assumes "hp_offset hp = 0" "hp_length hp = of_nat (length (concat fs))" "length (concat fs) < 2 ^ 64"
    and "fs \<noteq> []" "[] \<notin> set fs"
  shows "case huffman_decode_fragments (\<lambda>_. T_OK) (tfw_huffman_init hp) fs of
      None \<Rightarrow> False
    | Some (r, hp') \<Rightarrow>
        (if r = T_OK then \<exists>ss. hp_hdr hp' = hp_hdr hp @ ss \<and> huff_encodes ss (str_bits (concat fs))
         else r = T_COMPRESSION \<and> (\<forall>ss. \<not> huff_encodes ss (str_bits (concat fs))))"
proof -
  have "holds_bits (tfw_huffman_init hp) [] (length (concat fs))"
    using assms(1,2) ht_part_0 by (simp add: holds_bits_def tfw_huffman_init_def avail_def)
  from fragments_correct [OF _ assms(4,5) this assms(3), of "\<lambda>_. T_OK"] show ?thesis
    by (auto simp: decoded_def tfw_huffman_init_def)
qed

definition hpack_new :: "nat \<Rightarrow> TfwHPack" where
  "hpack_new n = \<lparr>hp_length = of_nat n, hp_curr = 0, hp_hctx = 0, hp_offset = 0, hp_hdr = []\<rparr>"

theorem huffman_decode_correct_witness:
  "hp_length (hpack_new 2) = of_nat (length (concat [[0x1C], [0x64 :: u8]])) \<and>
   (case huffman_decode_fragments (\<lambda>_. T_OK) (tfw_huffman_init (hpack_new 2)) [[0x1C], [0x64]] of
      None \<Rightarrow> False
    | Some (r, hp') \<Rightarrow>
        (if r = T_OK then \<exists>ss. hp_hdr hp' = hp_hdr (hpack_new 2) @ ss
             \<and> huff_encodes ss (str_bits (concat [[0x1C], [0x64]]))
         else r = T_COMPRESSION \<and> (\<forall>ss. \<not> huff_encodes ss (str_bits (concat [[0x1C], [0x64]])))))"
  by (intro conjI huffman_decode_correct) (simp_all add: hpack_new_def)

text \<open>
  (C5) What the encoder writes, the decoder reads: a string that is not empty is encoded without
  an error, into exactly the number of bytes computed in advance, and the encoded string,
  cut into any fragments, is decoded to the string that was encoded.
\<close>

theorem huffman_roundtrip:
  assumes "concat str \<noteq> []" "length (concat str) < 2 ^ 58"
  shows "\<exists>out. tfw_huffman_encode_string True str = Some (Inr out)
    \<and> length out = unat (tfw_huffman_encode_string_len str)
    \<and> (\<forall>fs hp. concat fs = out \<and> [] \<notin> set fs \<and> hp_offset hp = 0 \<and> hp_length hp = of_nat (length out) \<longrightarrow>
        (\<exists>hp'. huffman_decode_fragments (\<lambda>_. T_OK) (tfw_huffman_init hp) fs = Some (T_OK, hp')
          \<and> hp_hdr hp' = hp_hdr hp @ concat str))"
proof -
  obtain out where out: "tfw_huffman_encode_string True str = Some (Inr out)"
    "huff_encodes (concat str) (str_bits out)" "length out = unat (tfw_huffman_encode_string_len str)"
    by (rule encode_string [OF assms])
  have nz: "0 < length out"
    using out(2) assms(1) huff_code_ne by (cases "concat str") (auto simp: huff_encodes_def)
  have "\<exists>hp'. huffman_decode_fragments (\<lambda>_. T_OK) (tfw_huffman_init hp) fs = Some (T_OK, hp')
      \<and> hp_hdr hp' = hp_hdr hp @ concat str"
    if fs: "concat fs = out" "[] \<notin> set fs" "hp_offset hp = 0" "hp_length hp = of_nat (length out)" for fs hp
  proof -
    have "length out < 2 ^ 64" using out(3) unsigned_less [of "tfw_huffman_encode_string_len str", where 'a = nat] by simp
    moreover have "holds_bits (tfw_huffman_init hp) [] (length out)"
      using fs(3,4) ht_part_0 by (simp add: holds_bits_def tfw_huffman_init_def avail_def)
    moreover have "fs \<noteq> []" using nz fs(1) by auto
    ultimately have "decoded ((tfw_huffman_init hp)\<lparr>hp_offset := 0\<rparr>) ([] @ str_bits (concat fs))
        (huffman_decode_fragments (\<lambda>_. T_OK) (tfw_huffman_init hp) fs)"
      by (intro fragments_correct) (simp_all add: fs(1,2))
    then obtain ss hp' where "huffman_decode_fragments (\<lambda>_. T_OK) (tfw_huffman_init hp) fs = Some (T_OK, hp')"
      "huff_encodes ss (str_bits out)" "hp_hdr hp' = hp_hdr (tfw_huffman_init hp) @ ss"
      using out(2) fs(1) unfolding decoded_def by auto
    with encodes_unique [OF out(2)] show ?thesis by (auto simp: tfw_huffman_init_def)
  qed
  with out(1,3) show ?thesis by blast
qed

theorem huffman_roundtrip_witness:
  "\<exists>out. tfw_huffman_encode_string True [[119, 119], [119]] = Some (Inr out)
    \<and> length out = unat (tfw_huffman_encode_string_len [[119, 119], [119]])
    \<and> (\<forall>fs hp. concat fs = out \<and> [] \<notin> set fs \<and> hp_offset hp = 0 \<and> hp_length hp = of_nat (length out) \<longrightarrow>
        (\<exists>hp'. huffman_decode_fragments (\<lambda>_. T_OK) (tfw_huffman_init hp) fs = Some (T_OK, hp')
          \<and> hp_hdr hp' = hp_hdr hp @ [119, 119, 119]))"
  using huffman_roundtrip [of "[[119, 119], [119]]"] by simp

end
