(* ===== verification/Hpack_Int_Spec.thy ===== *)
theory Hpack_Int_Spec
  imports Hpack_Int
begin

unbundle bit_operations_syntax

text \<open>
  The properties of the integers of HPACK.
\<close>

text \<open>The prefixes and flag bits that the callers of \<^verbatim>\<open>write_int()\<close> use.\<close>

definition hpack_prefixes :: "(u16 \<times> u16) list" where
  "hpack_prefixes = [(0x7F, 0x80), (0x7F, 0), (0x3F, 0x40), (0x1F, 0x20), (0xF, 0)]"

lemma prefix_bits:
  assumes "(mx, msk) \<in> set hpack_prefixes"
  obtains k where "k < 8" "mx = mask k" "\<And>n. bit msk n \<Longrightarrow> k \<le> n"
proof -
  have e: "bit (2 ^ j :: u16) n \<Longrightarrow> n = j" for j n by (simp add: bit_exp_iff)
  have "\<exists>k < 8. mx = mask k \<and> (msk = 0 \<or> msk = 2 ^ k)"
    using assms by (auto simp: hpack_prefixes_def mask_eq_exp_minus_1 intro: exI [of _ 7] exI [of _ 6] exI [of _ 5] exI [of _ 4])
  then show thesis using e that by fastforce
qed

lemma first_byte:
  assumes "(mx, msk) \<in> set hpack_prefixes"
  shows "ucast (mx OR msk) AND ucast mx = (ucast mx :: u8)"
    and "v < ucast mx \<Longrightarrow> ucast (v OR ucast msk) AND ucast mx = (ucast (v :: u64) :: u8)"
proof -
  obtain k where k: "k < 8" "mx = mask k" "\<And>n. bit msk n \<Longrightarrow> k \<le> n" by (rule prefix_bits [OF assms]) blast
  show "ucast (mx OR msk) AND ucast mx = (ucast mx :: u8)"
    unfolding k(2) by (rule bit_word_eqI) (auto simp: bit_simps)
  assume "v < ucast mx"
  then have "unat v < unat (ucast (mask k :: u16) :: u64)" by (simp add: k(2) word_less_nat_alt)
  also have "k \<in> {0, 1, 2, 3, 4, 5, 6, 7}" using k(1) by auto
  then have "unat (ucast (mask k :: u16) :: u64) \<le> 2 ^ k"
    by (elim insertE emptyE) (simp_all add: mask_eq_exp_minus_1)
  finally have "unat (take_bit k v) = unat v" by (simp add: unsigned_take_bit_eq take_bit_nat_eq_self)
  then have "take_bit k v = v" by (rule unsigned_word_eqI)
  then have v: "bit v n \<Longrightarrow> n < k" for n by (metis bit_take_bit_iff)
  show "ucast (v OR ucast msk) AND ucast mx = (ucast v :: u8)"
    unfolding k(2) by (rule bit_word_eqI) (auto simp: bit_simps dest: v k(3))
qed



text \<open>
  (C31) \<^verbatim>\<open>write_int()\<close> stays within the buffer of \<^verbatim>\<open>TfwHPackInt\<close> exactly for integers less than
  16384 above the prefix.  The comment on the size of the buffer promises room for 64-bit integers,
  but the size is computed from the number of bytes instead of the number of bits.
\<close>

theorem write_int_fits:
  "write_int v mx msk \<noteq> None \<longleftrightarrow> unat v < unat mx + 2 ^ 14"
proof -
  have u: "unat (ucast mx :: u64) = unat mx"
    using unsigned_less [of mx, where 'a = nat] by (simp add: unsigned_ucast_eq take_bit_nat_eq_self)
  show ?thesis
  proof (cases "v < ucast mx")
    case True
    then show ?thesis by (simp add: write_int_def write_int_bytes_def word_less_nat_alt u)
  next
    case False
    then have "unat mx \<le> unat v" "unat (v - ucast mx) = unat v - unat mx"
      using u by (simp_all add: not_less unat_sub word_le_nat_alt)
    with False write_int_loop_length [of "v - ucast mx"] show ?thesis
      by (auto simp: write_int_def write_int_bytes_def)
  qed
qed

text \<open>
  The decoder of integers takes an integer modulo 2^32 instead of refusing it: the encoding of
  2^32 + 31 is read as 31.  With one more byte it shifts a 32-bit operand by 35 bits.
\<close>

theorem hpack_int_wraps:
  "GET_FLEXIBLE (31 :: u32) [0x80, 0x80, 0x80, 0x80, 0x10] = Some (Flex_Done 31 [])
   \<and> write_int_bytes (2 ^ 32 + 31) 0x1F 0x20 = [0x3F, 0x80, 0x80, 0x80, 0x80, 0x10]
   \<and> GET_FLEXIBLE (31 :: u32) [0x80, 0x80, 0x80, 0x80, 0x80, 0] = None"
  by (simp add: GET_FLEXIBLE_def write_int_bytes_def write_int_loop.simps)

end
