(* ===== verification/Tfw_Str_Flat.thy ===== *)
theory Tfw_Str_Flat
  imports Tfw_Str
begin

unbundle bit_operations_syntax

text \<open>
  The operations on chunked strings do not depend on how a string is cut into chunks: each agrees
  with an operation on the bytes of the string.
\<close>

section \<open>Positions in a string\<close>

definition str_rest :: "TfwStr \<Rightarrow> nat \<times> nat \<Rightarrow> u8 list" where
  "str_rest s p = drop (snd p) (concat (drop (fst p) s))"

text \<open>A position that is not at the end of a chunk.\<close>

definition str_pos :: "TfwStr \<Rightarrow> nat \<times> nat \<Rightarrow> bool" where
  "str_pos s p \<longleftrightarrow> (if fst p < length s then snd p < length (s ! fst p) else p = (length s, 0))"

lemma str_rest_end [simp]: "str_rest s (length s, 0) = []"
  by (simp add: str_rest_def)

lemma str_rest_start [simp]: "str_rest s (0, 0) = concat s"
  by (simp add: str_rest_def)

lemma str_rest_split:
  assumes "i < length s" "off < length (s ! i)"
  shows "str_rest s (i, off) = drop off (s ! i) @ concat (drop (Suc i) s)"
  using assms by (simp add: str_rest_def Cons_nth_drop_Suc [symmetric])

lemma str_pos_start: "[] \<notin> set s \<Longrightarrow> str_pos s (0, 0)"
  by (cases s) (auto simp: str_pos_def)

lemma next_chunk_pos:
  assumes "[] \<notin> set s" "str_pos s (i, off)" "i < length s" "cn \<le> length (s ! i) - off"
  shows "str_pos s (next_chunk i off (length (s ! i)) cn)"
    and "str_rest s (next_chunk i off (length (s ! i)) cn) = drop cn (str_rest s (i, off))"
proof -
  have off: "off < length (s ! i)" using assms(2,3) by (simp add: str_pos_def)
  show "str_pos s (next_chunk i off (length (s ! i)) cn)"
  proof (cases "cn = length (s ! i) - off")
    case True
    have "length (s ! Suc i) > 0" if "Suc i < length s" using assms(1) that by (metis length_greater_0_conv nth_mem)
    moreover have "Suc i = length s" if "\<not> Suc i < length s" using that assms(3) by simp
    ultimately show ?thesis using True by (auto simp: next_chunk_def str_pos_def)
  next
    case False
    then show ?thesis using assms(3,4) off by (auto simp: next_chunk_def str_pos_def)
  qed
  show "str_rest s (next_chunk i off (length (s ! i)) cn) = drop cn (str_rest s (i, off))"
    using assms(3,4) off
    by (auto simp: next_chunk_def str_rest_split add.commute) (simp add: str_rest_def)
qed

section \<open>Comparison by pieces\<close>

lemma c_int_id: "- (2 ^ 31) \<le> x \<Longrightarrow> x < 2 ^ 31 \<Longrightarrow> c_int x = x"
  by (simp add: c_int_def)

lemma c_int_0 [simp]: "c_int 0 = 0"
  by (simp add: c_int_def)

lemma c_int_length [simp]: "n \<le> nat INT_MAX \<Longrightarrow> c_int (int n) = int n"
  by (rule c_int_id) simp_all

lemma chunk_lengths:
  assumes "length (concat s) \<le> n"
  shows "list_all (\<lambda>c. length c \<le> n) s"
  using assms by (induction s) auto

text \<open>What the loop asks of the comparison of buffers.\<close>

locale piecewise_cmp =
  fixes cmp :: "u8 list \<Rightarrow> u8 list \<Rightarrow> nat \<Rightarrow> int option"
  assumes cmp_total: "n \<le> length xs \<Longrightarrow> n \<le> length ys \<Longrightarrow> \<exists>r. cmp xs ys n = Some r"
    and cmp_split: "\<lbrakk>k \<le> n; n \<le> length xs; n \<le> length ys; cmp xs ys k = Some r\<rbrakk> \<Longrightarrow>
      cmp xs ys n = (if r \<noteq> 0 then Some r else cmp (drop k xs) (drop k ys) (n - k))"
    and cmp_cut: "n \<le> length xs \<Longrightarrow> n \<le> length ys \<Longrightarrow> cmp (xs @ us) (ys @ vs) n = cmp xs ys n"
    and cmp_zero: "cmp xs ys 0 = Some 0"
begin

lemma loop_flat:
  assumes "[] \<notin> set s1" "[] \<notin> set s2" "list_all (\<lambda>c. length c \<le> nat INT_MAX) s1"
  shows "\<lbrakk>str_pos s1 p1; str_pos s2 p2; n = min (length (str_rest s1 p1)) (length (str_rest s2 p2));
      cmp (str_rest s1 p1) (str_rest s2 p2) n = Some r\<rbrakk> \<Longrightarrow>
    if r \<noteq> 0 then strcmp_loop cmp s1 s2 p1 p2 n = Some (Inl r)
    else \<exists>q1 q2. strcmp_loop cmp s1 s2 p1 p2 n = Some (Inr (q1, q2))
      \<and> str_pos s1 q1 \<and> str_rest s1 q1 = drop n (str_rest s1 p1)
      \<and> str_pos s2 q2 \<and> str_rest s2 q2 = drop n (str_rest s2 p2)"
proof (induction "(length s1 - fst p1) + (length s2 - fst p2)" arbitrary: p1 p2 n r rule: less_induct)
  case less
  obtain i1 off1 i2 off2 where p: "p1 = (i1, off1)" "p2 = (i2, off2)" by (meson surj_pair)
  show ?case
  proof (cases "n = 0")
    case True
    then show ?thesis using less.prems by (auto simp: p strcmp_loop.simps cmp_zero)
  next
    case False
    have i: "i1 < length s1" "i2 < length s2" using False less.prems by (auto simp: p str_pos_def split: if_splits)
    then have off: "off1 < length (s1 ! i1)" "off2 < length (s2 ! i2)"
      using less.prems(1,2) by (auto simp: p str_pos_def)
    define cn where "cn = min (length (s1 ! i1) - off1) (length (s2 ! i2) - off2)"
    have le: "cn \<le> length (s1 ! i1) - off1" "cn \<le> length (s2 ! i2) - off2" "cn \<le> n"
      using less.prems(3) i off by (auto simp: cn_def p str_rest_split)
    have "length (s1 ! i1) \<le> nat INT_MAX" using assms(3) i(1) by (simp add: list_all_length)
    then have small: "c_int (int cn) = int cn" using le(1) by (intro c_int_length) linarith
    let ?q1 = "next_chunk i1 off1 (length (s1 ! i1)) cn" and ?q2 = "next_chunk i2 off2 (length (s2 ! i2)) cn"
    note q1 = next_chunk_pos [OF assms(1) less.prems(1) [unfolded p] i(1) le(1)]
      and q2 = next_chunk_pos [OF assms(2) less.prems(2) [unfolded p] i(2) le(2)]
    have cut: "cmp (drop off1 (s1 ! i1)) (drop off2 (s2 ! i2)) cn = cmp (str_rest s1 p1) (str_rest s2 p2) cn"
      using le i off by (simp add: p str_rest_split cmp_cut)
    obtain r' where r': "cmp (str_rest s1 p1) (str_rest s2 p2) cn = Some r'"
      using cmp_total [of cn "str_rest s1 p1" "str_rest s2 p2"] le less.prems(3) by auto
    have n: "cmp (str_rest s1 p1) (str_rest s2 p2) n =
        (if r' \<noteq> 0 then Some r' else cmp (str_rest s1 ?q1) (str_rest s2 ?q2) (n - cn))"
      using cmp_split [OF le(3) _ _ r'] less.prems(3) q1(2) q2(2) by (simp add: p)
    have loop: "strcmp_loop cmp s1 s2 p1 p2 n =
        (if r' \<noteq> 0 then Some (Inl r') else strcmp_loop cmp s1 s2 ?q1 ?q2 (n - cn))"
      unfolding p strcmp_loop.simps Let_def cn_def [symmetric] small
      using False i cut r' by (simp add: p) linarith
    show ?thesis
    proof (cases "r' = 0")
      case True
      have dec: "(length s1 - fst ?q1) + (length s2 - fst ?q2) < (length s1 - fst p1) + (length s2 - fst p2)"
        using i by (auto simp: p next_chunk_def cn_def min_def)
      have "n - cn = min (length (str_rest s1 ?q1)) (length (str_rest s2 ?q2))"
        using less.prems(3) q1(2) q2(2) by (simp add: p)
      note IH = less.hyps [OF dec q1(1) q2(1) this]
      have "cmp (str_rest s1 ?q1) (str_rest s2 ?q2) (n - cn) = Some r" using n True less.prems(4) by simp
      from IH [OF this] show ?thesis using loop True q1(2) q2(2) le(3) by (simp add: p split: if_splits)
    next
      case False
      then show ?thesis using loop n less.prems(4) by simp
    qed
  qed
qed

text \<open>The comparison of all bytes of two strings.\<close>

lemma loop_start:
  assumes "[] \<notin> set s1" "[] \<notin> set s2" "list_all (\<lambda>c. length c \<le> nat INT_MAX) s1"
    and n: "n = min (length (concat s1)) (length (concat s2))"
  shows "\<exists>r. cmp (concat s1) (concat s2) n = Some r
    \<and> (if r \<noteq> 0 then strcmp_loop cmp s1 s2 (0, 0) (0, 0) n = Some (Inl r)
       else \<exists>q1 q2. strcmp_loop cmp s1 s2 (0, 0) (0, 0) n = Some (Inr (q1, q2))
         \<and> str_pos s1 q1 \<and> str_rest s1 q1 = drop n (concat s1)
         \<and> str_pos s2 q2 \<and> str_rest s2 q2 = drop n (concat s2))"
proof -
  obtain r where r: "cmp (concat s1) (concat s2) n = Some r"
    using cmp_total [of n "concat s1" "concat s2"] n by auto
  have "n = min (length (str_rest s1 (0, 0))) (length (str_rest s2 (0, 0)))"
    "cmp (str_rest s1 (0, 0)) (str_rest s2 (0, 0)) n = Some r" using n r by simp_all
  note loop = loop_flat [OF assms(1-3) str_pos_start [OF assms(1)] str_pos_start [OF assms(2)] this]
  show ?thesis using loop r unfolding str_rest_start by (intro exI [of _ r] conjI)
qed

end

lemma cstricmpspn_total: "n \<le> length xs \<Longrightarrow> n \<le> length ys \<Longrightarrow> \<exists>r. cstricmpspn stop cs xs ys n = Some r"
  by (induction stop cs xs ys n rule: cstricmpspn.induct) (auto simp: Let_def)

lemma cstricmpspn_split:
  "\<lbrakk>k \<le> n; n \<le> length xs; n \<le> length ys; cstricmpspn stop cs xs ys k = Some r\<rbrakk> \<Longrightarrow>
   cstricmpspn stop cs xs ys n = (if r \<noteq> 0 then Some r else cstricmpspn stop cs (drop k xs) (drop k ys) (n - k))"
proof (induction k arbitrary: n xs ys)
  case (Suc k)
  obtain m a us b vs where e: "n = Suc m" "xs = a # us" "ys = b # vs"
    using Suc.prems(1-3) by (cases n; cases xs; cases ys) auto
  have "k \<le> m" "m \<le> length us" "m \<le> length vs" using Suc.prems(1-3) by (simp_all add: e)
  note IH = Suc.IH [OF this]
  show ?case
  proof (cases "(if cs then a else TFW_LC a) = (if cs then b else TFW_LC b) \<and> uint (if cs then a else TFW_LC a) \<noteq> stop")
    case True
    then have "cstricmpspn stop cs us vs k = Some r" using Suc.prems(4) unfolding e by (auto simp: Let_def)
    from IH [OF this] True show ?thesis unfolding e by (auto simp: Let_def)
  next
    case False
    then show ?thesis using Suc.prems(4) unfolding e by (auto simp: Let_def split: if_splits)
  qed
qed simp

lemma cstricmpspn_cut:
  "n \<le> length xs \<Longrightarrow> n \<le> length ys \<Longrightarrow> cstricmpspn stop cs (xs @ us) (ys @ vs) n = cstricmpspn stop cs xs ys n"
  by (induction stop cs xs ys n rule: cstricmpspn.induct) (auto simp: Let_def)

interpretation spn: piecewise_cmp "cstricmpspn stop cs" for stop cs
  by unfold_locales (rule cstricmpspn_total cstricmpspn_split cstricmpspn_cut cstricmpspn.simps(1); assumption)+

text \<open>\<^verbatim>\<open>__tfw_strcmpspn()\<close> on the bytes of the strings.\<close>

definition next_is :: "int \<Rightarrow> u8 list \<Rightarrow> bool" where
  "next_is stop xs \<longleftrightarrow> xs \<noteq> [] \<and> uint (hd xs) = stop"

definition flat_cmpspn :: "int \<Rightarrow> bool \<Rightarrow> u8 list \<Rightarrow> u8 list \<Rightarrow> int option" where
  "flat_cmpspn stop cs xs ys =
     (let n = min (length xs) (length ys); d = c_int (int (length xs) - int (length ys)) in
      if n = 0 then Some d
      else
        map_option
          (\<lambda>r. if r = INT_MAX then 0
               else if r \<noteq> 0 then r
               else if next_is stop (drop n xs) \<or> next_is stop (drop n ys)
               then 0 else d)
          (cstricmpspn stop cs xs ys n))"

lemma at_stop_iff:
  assumes "str_pos s q"
  shows "at_stop s q stop \<longleftrightarrow> next_is stop (str_rest s q)"
proof (cases "fst q < length s")
  case True
  obtain i off where q: "q = (i, off)" by (meson surj_pair)
  have off: "off < length (s ! i)" using assms True by (simp add: q str_pos_def)
  then have "str_rest s q = s ! i ! off # drop (Suc off) (s ! i) @ concat (drop (Suc i) s)"
    using True by (simp add: q str_rest_split Cons_nth_drop_Suc)
  then show ?thesis using True off by (simp add: q at_stop_def TFW_STR_CHUNK_def next_is_def)
next
  case False
  then show ?thesis using assms by (auto simp: str_pos_def at_stop_def TFW_STR_CHUNK_def next_is_def)
qed

lemma strcmpspn_flat:
  assumes "[] \<notin> set s1" "[] \<notin> set s2" "list_all (\<lambda>c. length c \<le> nat INT_MAX) s1" "stop \<noteq> 0"
  shows "tfw_strcmpspn s1 s2 stop cs = flat_cmpspn stop cs (concat s1) (concat s2)"
proof -
  let ?n = "min (length (concat s1)) (length (concat s2))"
  obtain r where r: "cstricmpspn stop cs (concat s1) (concat s2) ?n = Some r"
    "if r \<noteq> 0 then strcmp_loop (cstricmpspn stop cs) s1 s2 (0, 0) (0, 0) ?n = Some (Inl r)
     else \<exists>q1 q2. strcmp_loop (cstricmpspn stop cs) s1 s2 (0, 0) (0, 0) ?n = Some (Inr (q1, q2))
       \<and> str_pos s1 q1 \<and> str_rest s1 q1 = drop ?n (concat s1)
       \<and> str_pos s2 q2 \<and> str_rest s2 q2 = drop ?n (concat s2)"
    using spn.loop_start [where stop = stop and cs = cs, OF assms(1-3) refl] by (elim exE conjE)
  have l: "(length (concat s1) = 0 \<or> length (concat s2) = 0) = (?n = 0)" by linarith
  note defs = tfw_strcmpspn_def flat_cmpspn_def Let_def l
  consider "?n = 0" | "?n \<noteq> 0" "r \<noteq> 0" | "?n \<noteq> 0" "r = 0" by blast
  then show ?thesis
  proof cases
    case 1
    then show ?thesis unfolding defs using assms(4) by (simp only: if_True if_False simp_thms)
  next
    case 2
    then have "strcmp_loop (cstricmpspn stop cs) s1 s2 (0, 0) (0, 0) ?n = Some (Inl r)" using r(2) by simp
    then show ?thesis unfolding defs r(1) using 2 assms(4)
      by (simp only: if_True if_False simp_thms option.map sum.case split: if_split)
  next
    case 3
    with r(2) obtain q1 q2 where q: "strcmp_loop (cstricmpspn stop cs) s1 s2 (0, 0) (0, 0) ?n = Some (Inr (q1, q2))"
      "str_pos s1 q1" "str_rest s1 q1 = drop ?n (concat s1)" "str_pos s2 q2" "str_rest s2 q2 = drop ?n (concat s2)"
      by auto
    have stops: "at_stop s1 q1 stop = next_is stop (drop ?n (concat s1))"
      "at_stop s2 q2 stop = next_is stop (drop ?n (concat s2))"
      using at_stop_iff [OF q(2)] at_stop_iff [OF q(4)] q(3,5) by simp_all
    show ?thesis unfolding defs r(1) q(1) using 3 assms(4)
      by (simp only: if_True if_False simp_thms option.map sum.case prod.case stops) simp
  qed
qed

end
