(* ===== verification/Tfw_Str_Spec.thy ===== *)
theory Tfw_Str_Spec
  imports Tfw_Str_Flat
begin

unbundle bit_operations_syntax

text \<open>
  Properties of chunked strings: header names are compared up to case and up to the colon, strings
  are compared with C strings whatever their chunks, and numbers are printed in full.
\<close>

section \<open>Header names\<close>

lemma tfw_lct_eq:
  "tfw_lct = map (\<lambda>i. if 0x41 \<le> i \<and> i \<le> 0x5A then of_nat (i + 0x20) else of_nat i) [0..<256]"
  by (simp add: tfw_lct_def upt_conv_Cons del: upt_Suc)

lemma TFW_LC_eq: "TFW_LC c = (if 0x41 \<le> c \<and> c \<le> 0x5A then c + 0x20 else c)"
proof -
  have "unat c < 256" using unsigned_less [of c, where 'a = nat] by simp
  then have "TFW_LC c = (if 0x41 \<le> unat c \<and> unat c \<le> 0x5A then of_nat (unat c + 0x20) else of_nat (unat c))"
    by (simp add: TFW_LC_def tfw_lct_eq)
  then show ?thesis by (simp add: word_le_nat_alt)
qed

lemma TFW_LC_colon [simp]: "TFW_LC c = 58 \<longleftrightarrow> c = 58"
proof -
  have "c + 0x20 \<noteq> 58" if "0x41 \<le> c" "c \<le> 0x5A"
  proof
    assume "c + 0x20 = 58"
    then have "c = 58 - 0x20" by (simp only: eq_diff_eq)
    with that(1) show False by simp
  qed
  then show ?thesis by (auto simp: TFW_LC_eq)
qed

definition hdr_name :: "u8 list \<Rightarrow> u8 list" where
  "hdr_name xs = takeWhile (\<lambda>c. c \<noteq> 58) (map TFW_LC xs)"

lemma int_colon [simp]: "uint (c :: u8) = 58 \<longleftrightarrow> c = 58"
  using unsigned_word_eqI [of c 58, where 'a = int] by auto

lemma cstricmpspn_names:
  assumes "cstricmpspn 58 False xs ys (min (length xs) (length ys)) = Some r"
  shows "hdr_name xs = hdr_name ys \<longleftrightarrow>
    r = INT_MAX \<or> r = 0 \<and> (length xs = length ys \<or> next_is 58 (drop (min (length xs) (length ys)) xs)
      \<or> next_is 58 (drop (min (length xs) (length ys)) ys))"
  using assms
proof (induction xs ys rule: list_induct2')
  case (4 x xs y ys)
  then show ?case
  proof (cases "TFW_LC x = TFW_LC y")
    case True
    then show ?thesis using 4 by (cases "TFW_LC y = 58") (auto simp: hdr_name_def Let_def simp del: TFW_LC_colon)
  next
    case False
    then have "hdr_name (x # xs) \<noteq> hdr_name (y # ys)" by (auto simp: hdr_name_def simp del: TFW_LC_colon)
    then show ?thesis using False 4(2) by (auto simp: Let_def split: if_splits)
  qed
qed (auto simp: hdr_name_def next_is_def)

lemma flat_cmpspn_names:
  assumes "xs \<noteq> []" "ys \<noteq> []"
    "length xs \<le> nat INT_MAX" "length ys \<le> nat INT_MAX"
  shows "\<exists>r. flat_cmpspn 58 False xs ys = Some r \<and> (r = 0 \<longleftrightarrow> hdr_name xs = hdr_name ys)"
proof -
  have d: "c_int (int (length xs) - int (length ys)) = int (length xs) - int (length ys)"
    using assms(3,4) by (intro c_int_id) simp_all
  define n where "n = min (length xs) (length ys)"
  obtain r where r: "cstricmpspn 58 False xs ys n = Some r"
    using cstricmpspn_total [of n xs ys] by (auto simp: n_def)
  have "n \<noteq> 0" using assms by (simp add: n_def min_def)
  then show ?thesis using r cstricmpspn_names [of xs ys r]
    unfolding flat_cmpspn_def Let_def n_def [symmetric] d by auto
qed



section \<open>Comparison with C strings\<close>

text \<open>What a comparison of buffers promises: zero means that the bytes have the same keys.\<close>

definition cmp_equal :: "(u8 \<Rightarrow> u8) \<Rightarrow> (u8 list \<Rightarrow> u8 list \<Rightarrow> nat \<Rightarrow> int option) \<Rightarrow> bool" where
  "cmp_equal key cmp \<longleftrightarrow> (\<forall>xs ys n. n \<le> length xs \<and> n \<le> length ys \<longrightarrow>
     (\<exists>r. cmp xs ys n = Some r \<and> (r = 0 \<longleftrightarrow> map key (take n xs) = map key (take n ys))))"

lemma prefix_append_same: "length u = length c \<Longrightarrow> prefix (u @ v) (c @ w) \<longleftrightarrow> u = c \<and> prefix v w"
  by (auto simp: prefix_def)

lemma eq_cstr_correct:
  assumes "cmp_equal key cmp" "list_all (\<lambda>c. length c \<le> nat INT_MAX) s"
  shows "tfw_str_eq_cstr cmp prefx s cstr =
    Some (if prefx then prefix (map key cstr) (map key (concat s)) else map key cstr = map key (concat s))"
  using assms(2)
proof (induction s arbitrary: cstr)
  case Nil
  then show ?case by auto
next
  case (Cons c cs)
  then have c: "c_int (int (length c)) = int (length c)" and cs: "list_all (\<lambda>c. length c \<le> nat INT_MAX) cs" by simp_all
  let ?n = "min (length cstr) (length c)"
  obtain r where r: "cmp cstr c ?n = Some r" "r = 0 \<longleftrightarrow> map key (take ?n cstr) = map key (take ?n c)"
    using assms(1) unfolding cmp_equal_def by (meson min.cobounded1 min.cobounded2)
  show ?case
  proof (cases "length c > length cstr")
    case True
    then have n: "?n = length cstr" by simp
    define P where "P \<longleftrightarrow> map key cstr = map key (take (length cstr) c)"
    have "map key cstr \<noteq> map key (concat (c # cs))" using True by (metis concat.simps(2) length_append length_map not_add_less1)
    moreover have "prefix (map key cstr) (map key (concat (c # cs))) \<longleftrightarrow> P"
    proof -
      have "prefix u v \<longleftrightarrow> u = take (length u) v" for u v :: "u8 list"
        by (metis append_eq_conv_conj prefix_def take_is_prefix)
      from this [of "map key cstr" "map key (concat (c # cs))"] show ?thesis using True by (simp add: P_def take_map)
    qed
    moreover have "r = 0 \<longleftrightarrow> P" using r(2) n by (simp add: P_def)
    ultimately show ?thesis using True r(1) n by (simp add: Let_def c)
  next
    case False
    then have n: "?n = length c" by simp
    have split: "map key cstr = map key (take (length c) cstr) @ map key (drop (length c) cstr)"
      by (simp flip: map_append)
    have len: "length (map key (take (length c) cstr)) = length (map key c)" using False by simp
    have "map key cstr = map key (concat (c # cs)) \<longleftrightarrow>
        map key (take (length c) cstr) = map key c \<and> map key (drop (length c) cstr) = map key (concat cs)"
      using append_eq_append_conv [OF disjI1 [OF len]] unfolding concat.simps map_append by (subst split) blast
    moreover have "prefix (map key cstr) (map key (concat (c # cs))) \<longleftrightarrow>
        map key (take (length c) cstr) = map key c \<and> prefix (map key (drop (length c) cstr)) (map key (concat cs))"
      using prefix_append_same [OF len] unfolding concat.simps map_append by (subst split) blast
    ultimately show ?thesis using False r n Cons.IH [OF cs] by (simp add: Let_def c)
  qed
qed

lemma eq_cstr_skip_eq:
  assumes "cstr \<noteq> []" "off + length cstr \<le> length (concat s)"
  obtains s' where "eq_cstr_skip cmp prefx s off cstr = tfw_str_eq_cstr cmp prefx s' cstr"
    "concat s' = drop off (concat s)" "list_all (\<lambda>c. length c \<le> m) s \<longrightarrow> list_all (\<lambda>c. length c \<le> m) s'"
  using assms(2)
proof (induction s arbitrary: off thesis)
  case (Cons c cs)
  show ?case
  proof (cases "off \<ge> length c")
    case True
    then have "(off - length c) + length cstr \<le> length (concat cs)" using Cons.prems(2) by simp
    then obtain s' where "eq_cstr_skip cmp prefx cs (off - length c) cstr = tfw_str_eq_cstr cmp prefx s' cstr"
      "concat s' = drop (off - length c) (concat cs)"
      "list_all (\<lambda>c. length c \<le> m) cs \<longrightarrow> list_all (\<lambda>c. length c \<le> m) s'" using Cons.IH by blast
    then show ?thesis using Cons.prems(1) [of s'] True by simp
  next
    case False
    then show ?thesis by (intro Cons.prems(1) [of "drop off c # cs"]) auto
  qed
qed (use assms(1) in simp)

text \<open>
  (C33) Comparison of a string with a C string at an offset: it returns for every string, offset and C
  string that is not empty, and its result is that of the comparison of the bytes behind the
  offset, as a whole or as a prefix, whatever the chunks are, as long as each is shorter than 2 GiB.
\<close>

theorem str_eq_cstr_off_correct:
  assumes "cmp_equal key cmp" "cstr \<noteq> []" "list_all (\<lambda>c. length c \<le> nat INT_MAX) s"
  shows "tfw_str_eq_cstr_off cmp prefx s off cstr =
    Some (0 \<le> off \<and> (if prefx then prefix (map key cstr) (map key (drop (nat off) (concat s)))
      else map key cstr = map key (drop (nat off) (concat s))))"
proof -
  consider "off < 0" | "off = 0" | "0 < off" "nat off + length cstr > length (concat s)"
    | "0 < off" "nat off + length cstr \<le> length (concat s)" by linarith
  then show ?thesis
  proof cases
    case 3
    have "\<not> prefix (map key cstr) (map key (drop (nat off) (concat s)))"
    proof
      assume "prefix (map key cstr) (map key (drop (nat off) (concat s)))"
      then have "length cstr \<le> length (drop (nat off) (concat s))" by (metis length_map prefix_length_le)
      with 3 assms(2) show False by (cases "nat off \<le> length (concat s)") auto
    qed
    moreover from this have "map key cstr \<noteq> map key (drop (nat off) (concat s))" by auto
    ultimately show ?thesis using 3 assms(2) by (simp add: tfw_str_eq_cstr_off_def)
  next
    case 4
    then obtain s' where "eq_cstr_skip cmp prefx s (nat off) cstr = tfw_str_eq_cstr cmp prefx s' cstr"
      "concat s' = drop (nat off) (concat s)" "list_all (\<lambda>c. length c \<le> nat INT_MAX) s'"
      using assms(2,3) eq_cstr_skip_eq by blast
    then show ?thesis using 4 assms(2) eq_cstr_correct [OF assms(1)] by (simp add: tfw_str_eq_cstr_off_def)
  qed (use assms eq_cstr_correct [OF assms(1)] in \<open>simp_all add: tfw_str_eq_cstr_off_def\<close>)
qed

lemma spn_cmp_equal: "cmp_equal id (cstricmpspn (-1) True)"
proof -
  have "\<exists>r. cstricmpspn (-1) True xs ys n = Some r \<and> (r = 0 \<longleftrightarrow> take n xs = take n ys)"
    if "n \<le> length xs" "n \<le> length ys" for xs ys n
    using that
  proof (induction n arbitrary: xs ys)
    case (Suc n)
    then obtain a us b vs where "xs = a # us" "ys = b # vs" "n \<le> length us" "n \<le> length vs"
      by (cases xs; cases ys) auto
    moreover have "uint a \<noteq> -1" using unsigned_greater_eq [of a, where 'a = int] by linarith
    ultimately show ?case using Suc.IH [of us vs] by (auto simp: Let_def)
  qed simp
  then show ?thesis by (simp add: cmp_equal_def)
qed

theorem str_eq_cstr_off_correct_witness:
  "tfw_str_eq_cstr_off (cstricmpspn (-1) True) True [bytes ''no-'', bytes ''cache, private''] 3 (bytes ''cache'') =
    Some (0 \<le> (3 :: int) \<and> (if True then prefix (map id (bytes ''cache'')) (map id (drop (nat 3) (concat [bytes ''no-'', bytes ''cache, private''])))
      else map id (bytes ''cache'') = map id (drop (nat 3) (concat [bytes ''no-'', bytes ''cache, private'']))))"
  by (rule str_eq_cstr_off_correct [OF spn_cmp_equal]) (simp_all add: bytes_def)

text \<open>
  \<^verbatim>\<open>tfw_str_to_cstr()\<close> fills at most the buffer and terminates the string; without zero bytes it copies
  the string as far as it fits.
\<close>

lemma strncpy_length [simp]: "length (strncpy s n) = n"
proof -
  have "length (takeWhile (\<lambda>c. c \<noteq> 0) (take n s)) \<le> n" by (metis length_take length_takeWhile_le min.bounded_iff)
  then show ?thesis by (simp add: strncpy_def Let_def)
qed

lemma strncpy_take:
  assumes "0 \<notin> set c"
  shows "strncpy c (min n (length c)) = take n c"
proof -
  have e: "takeWhile (\<lambda>c. c \<noteq> 0) (take m c) = take m c" for m
    using assms by (auto simp: takeWhile_eq_all_conv dest: in_set_takeD)
  show ?thesis unfolding strncpy_def Let_def e by (simp add: min_def)
qed

lemma to_cstr_loop_eq:
  assumes "list_all (\<lambda>c. length c \<le> nat INT_MAX) s"
  obtains out where "to_cstr_loop s (int n) = Some out" "length out \<le> n"
    "0 \<notin> set (concat s) \<longrightarrow> out = take n (concat s)"
  using assms
proof (induction s arbitrary: n thesis)
  case Nil
  show ?case by (rule Nil.prems(1) [of "[]"]) simp_all
next
  case (Cons c cs)
  define len where "len = min n (length c)"
  have "c_int (int (length c)) = int (length c)" using Cons.prems(2) by (intro c_int_length) simp
  then have "min (int n) (c_int (int (length c))) = int len" by (simp add: len_def)
  then have e: "to_cstr_loop (c # cs) (int n) = (if int n - int len = 0 then Some (strncpy c len)
      else map_option (\<lambda>out. strncpy c len @ out) (to_cstr_loop cs (int n - int len)))"
    by (simp add: Let_def)
  have "len \<le> length c" "len \<le> n" by (simp_all add: len_def)
  show ?case
  proof (cases "len = n")
    case True
    have "strncpy c len = take n (concat (c # cs))" if "0 \<notin> set (concat (c # cs))"
      using strncpy_take [of c n, folded len_def] that True \<open>len \<le> length c\<close> by simp
    then show ?thesis using e True by (intro Cons.prems(1) [of "strncpy c len"] impI) simp_all
  next
    case False
    have "list_all (\<lambda>c. length c \<le> nat INT_MAX) cs" using Cons.prems(2) by simp
    from Cons.IH [OF _ this, of "n - len"] obtain out where out: "to_cstr_loop cs (int (n - len)) = Some out"
      "length out \<le> n - len" "0 \<notin> set (concat cs) \<longrightarrow> out = take (n - len) (concat cs)" by blast
    have len: "len = length c" "len < n" using False by (auto simp: len_def)
    then have "int n - int len = int (n - len)" by simp
    then have e': "to_cstr_loop (c # cs) (int n) = Some (strncpy c len @ out)"
      unfolding e out(1) using len(2) by (simp only: \<open>int n - int len = int (n - len)\<close> out(1)) simp
    have "strncpy c len @ out = take n (concat (c # cs))" if "0 \<notin> set (concat (c # cs))"
      using strncpy_take [of c n, folded len_def] out(3) that len by simp
    then show ?thesis using e' out(2) len(2) by (intro Cons.prems(1) [of "strncpy c len @ out"] impI) simp_all
  qed
qed

lemma to_cstr_correct:
  assumes "0 < n" "list_all (\<lambda>c. length c \<le> nat INT_MAX) s"
  shows "\<exists>out. tfw_str_to_cstr s n = Some (out @ [0], length out) \<and> length out < nat n
     \<and> (0 \<notin> set (concat s) \<longrightarrow> out = take (nat (n - 1)) (concat s))"
proof -
  obtain out where "to_cstr_loop s (int (nat (n - 1))) = Some out" "length out \<le> nat (n - 1)"
    "0 \<notin> set (concat s) \<longrightarrow> out = take (nat (n - 1)) (concat s)" by (rule to_cstr_loop_eq [OF assms(2), of "nat (n - 1)"])
  then show ?thesis using assms(1) by (intro exI [of _ out]) (auto simp: tfw_str_to_cstr_def)
qed

section \<open>Numbers\<close>

fun nat_digits :: "nat \<Rightarrow> nat \<Rightarrow> nat list" where
  "nat_digits b n = (if n < b \<or> b < 2 then [n] else nat_digits b (n div b) @ [n mod b])"

declare nat_digits.simps [simp del]

lemma digits_rec: "2 \<le> b \<Longrightarrow> nat_digits b n = (if n < b then [n] else nat_digits b (n div b) @ [n mod b])"
  by (subst nat_digits.simps) simp

lemma digits_value: "2 \<le> b \<Longrightarrow> foldl (\<lambda>v d. b * v + d) 0 (nat_digits b n) = n"
proof (induction b n rule: nat_digits.induct)
  case (1 b n)
  then show ?case by (cases "n < b") (simp_all add: digits_rec [of b n])
qed

lemma digits_small: "2 \<le> b \<Longrightarrow> list_all (\<lambda>d. d < b) (nat_digits b n)"
proof (induction b n rule: nat_digits.induct)
  case (1 b n)
  then show ?case by (cases "n < b") (simp_all add: digits_rec [of b n])
qed

lemma digits_head: "2 \<le> b \<Longrightarrow> hd (nat_digits b n) \<noteq> 0 \<or> n = 0"
proof (induction b n rule: nat_digits.induct)
  case (1 b n)
  have ne: "nat_digits b m \<noteq> []" for m using "1.prems" by (simp add: digits_rec [of b m])
  show ?case
  proof (cases "n < b")
    case False
    then have "n div b \<noteq> 0" using "1.prems" by (simp add: div_eq_0_iff)
    then show ?thesis using 1 False ne by (simp add: digits_rec [of b n] hd_append)
  qed (use "1.prems" in \<open>auto simp: digits_rec [of b n]\<close>)
qed

lemma digits_length:
  assumes "2 \<le> b"
  shows "b ^ k \<le> n \<Longrightarrow> n < b ^ Suc k \<Longrightarrow> length (nat_digits b n) = Suc k"
proof (induction k arbitrary: n)
  case (Suc k)
  have "\<not> n < b" using Suc.prems(1) assms self_le_power [of b "Suc k"] by linarith
  moreover have "b ^ k \<le> n div b" "n div b < b ^ Suc k"
    using Suc.prems assms by (simp_all add: less_eq_div_iff_mult_less_eq div_less_iff_less_mult mult.commute)
  ultimately show ?case using Suc.IH assms by (simp add: digits_rec [of b n])
qed (use assms in \<open>simp add: digits_rec [of b]\<close>)

definition digit_char :: "nat \<Rightarrow> u8" where
  "digit_char d = bytes ''0123456789abcdef'' ! d"

lemma ulto_loop_eq:
  "2 \<le> unat b \<Longrightarrow> ulto_loop b a ds = map digit_char (nat_digits (unat b) (unat a)) @ ds"
proof (induction b a ds rule: ulto_loop.induct)
  case (1 b a ds)
  have b: "\<not> b < 2" using "1.prems" by (simp add: word_less_nat_alt)
  have d: "a div b = 0 \<longleftrightarrow> unat a < unat b"
    using "1.prems" by (simp add: unat_eq_0 [symmetric] unat_div div_eq_0_iff)
  show ?case
  proof (cases "unat a < unat b")
    case True
    then show ?thesis using b d "1.prems" by (simp add: ulto_loop.simps [of b a ds] digits_rec [of _ "unat a"] digit_char_def Let_def unat_mod)
  next
    case False
    then have "ulto_loop b a ds = ulto_loop b (a div b) (digit_char (unat a mod unat b) # ds)"
      using b d by (simp add: ulto_loop.simps [of b a ds] digit_char_def Let_def unat_mod)
    then show ?thesis using 1 False b d
      by (simp add: digits_rec [of _ "unat a"] digit_char_def unat_mod unat_div)
  qed
qed

lemma dig_num_dec_range:
  assumes "10 ^ k \<le> unat a" "unat a < 10 ^ Suc k" "k \<le> 19"
  shows "dig_num_dec a = Suc k"
proof -
  have "k \<in> {0, 1, 2, 3, 4, 5, 6, 7, 8, 9, 10, 11, 12, 13, 14, 15, 16, 17, 18, 19}"
    using assms(3) by (simp add: numeral_eq_Suc le_Suc_eq)
  then show ?thesis using assms(1,2)
    by (elim insertE emptyE) (simp_all add: dig_num_dec_def word_less_nat_alt)
qed

lemma dig_num_dec_eq: "dig_num_dec a = length (nat_digits 10 (unat a))"
proof (cases "unat a = 0")
  case True
  then show ?thesis by (simp add: dig_num_dec_def word_less_nat_alt digits_rec)
next
  case False
  then obtain k where k: "10 ^ k \<le> unat a" "unat a < 10 ^ Suc k"
    using ex_power_ivl1 [of 10 "unat a"] by auto
  have "unat a < 2 ^ 64" using unsigned_less [of a, where 'a = nat] by simp
  then have "(10 :: nat) ^ k < 10 ^ 20" using k(1) by simp
  then have "k < 20" by (rule power_less_imp_less_exp [rotated]) simp
  then show ?thesis using k dig_num_dec_range digits_length [of 10 k "unat a"] by simp
qed

lemma dig_num_hex_eq: "dig_num_hex a = length (nat_digits 16 (unat a))"
proof (cases "a = 0")
  case True
  then show ?thesis by (simp add: dig_num_hex_def digits_rec)
next
  case False
  define m where "m = floorlog 2 (unat a) - 1"
  have "unat a \<noteq> 0" using False by (simp add: unat_eq_0)
  then have m: "2 ^ m \<le> unat a" "unat a < 2 ^ Suc m"
    using floorlog_bounds [of "unat a" 2] floorlog_eq_zero_iff [of 2 "unat a"] by (auto simp: m_def)
  have "(16 :: nat) ^ k = 2 ^ (4 * k)" for k by (simp add: power_mult)
  moreover have "(2 :: nat) ^ (4 * (m div 4)) \<le> 2 ^ m" "(2 :: nat) ^ Suc m \<le> 2 ^ (4 * Suc (m div 4))"
    by (rule power_increasing; simp)+
  ultimately have "16 ^ (m div 4) \<le> unat a" "unat a < 16 ^ Suc (m div 4)"
    using m by (metis order.trans, metis order.strict_trans2)
  then have "length (nat_digits 16 (unat a)) = Suc (m div 4)" by (intro digits_length) simp_all
  then show ?thesis using False by (simp add: dig_num_hex_def m_def)
qed

text \<open>
  (C34) \<^verbatim>\<open>tfw_ultoa()\<close> and \<^verbatim>\<open>tfw_ultohex()\<close> stay within the buffer: they write nothing when the number does
  not fit, and otherwise exactly the returned number of digits, without a leading zero, whose
  value is the number.
\<close>

theorem ultoa_correct:
  assumes "(b, print) \<in> {(10, tfw_ultoa), (16, tfw_ultohex)}"
  shows "\<exists>ds. print a len = Some (if length ds \<le> unat len then (length ds, map (\<lambda>d. Some (digit_char d)) ds) else (0, []))
    \<and> list_all (\<lambda>d. d < b) ds \<and> (hd ds \<noteq> 0 \<or> ds = [0]) \<and> foldl (\<lambda>v d. b * v + d) 0 ds = unat a"
proof -
  have b: "2 \<le> b" using assms by auto
  define ds where "ds = nat_digits b (unat a)"
  have "print a len = Some (if length ds \<le> unat len then (length ds, map (\<lambda>d. Some (digit_char d)) ds) else (0, []))"
    using assms by (auto simp: tfw_ultoa_def tfw_ultohex_def ulto_def ulto_loop_eq dig_num_dec_eq dig_num_hex_eq
        Let_def ds_def)
  moreover have "hd ds \<noteq> 0 \<or> ds = [0]"
  proof (cases "unat a = 0")
    case True
    then show ?thesis using b by (simp add: ds_def digits_rec [of b 0])
  next
    case False
    then show ?thesis using digits_head [OF b, of "unat a"] by (simp add: ds_def)
  qed
  moreover have "list_all (\<lambda>d. d < b) ds" "foldl (\<lambda>v d. b * v + d) 0 ds = unat a"
    using digits_value [OF b] digits_small [OF b] by (simp_all add: ds_def)
  ultimately show ?thesis by blast
qed

theorem ultoa_correct_witness:
  "\<exists>ds. tfw_ultoa 2048 20 = Some (if length ds \<le> unat (20 :: u32) then (length ds, map (\<lambda>d. Some (digit_char d)) ds) else (0, []))
    \<and> list_all (\<lambda>d. d < 10) ds \<and> (hd ds \<noteq> 0 \<or> ds = [0]) \<and> foldl (\<lambda>v d. 10 * v + d) 0 ds = unat (2048 :: u64)"
  by (rule ultoa_correct) simp

end
