(* ===== verification/Hpack_Table.thy ===== *)
theory Hpack_Table
  imports Tfw_Str
begin

unbundle bit_operations_syntax

text \<open>
  The tables of the HPACK decoder (\<^verbatim>\<open>src/fw/hpack.c\<close>, \<^verbatim>\<open>src/fw/hpack.h\<close>): the static table and the search
  in it, and the dynamic table, a ring of entries that grows on demand.

  The headers of the dynamic table live in a pool whose chunks are numbered in the order of their
  allocation; an entry knows the chunk its header is in, and reading a header in a freed chunk, an
  entry that was never written, or a slot outside of the table is no result.  Whether memory is
  available, and whether a block grows in place, is an argument.
\<close>

section \<open>Entries\<close>

datatype TfwHPackTag =
    TFW_TAG_HDR_H2_STATUS
  | TFW_TAG_HDR_H2_METHOD
  | TFW_TAG_HDR_H2_SCHEME
  | TFW_TAG_HDR_H2_AUTHORITY
  | TFW_TAG_HDR_H2_PATH
  | TFW_TAG_HDR_ACCEPT
  | TFW_TAG_HDR_AUTHORIZATION
  | TFW_TAG_HDR_CACHE_CONTROL
  | TFW_TAG_HDR_CONTENT_ENCODING
  | TFW_TAG_HDR_CONTENT_LENGTH
  | TFW_TAG_HDR_CONTENT_TYPE
  | TFW_TAG_HDR_COOKIE
  | TFW_TAG_HDR_EXPECT
  | TFW_TAG_HDR_IF_NONE_MATCH
  | TFW_TAG_HDR_HOST
  | TFW_TAG_HDR_IF_MODIFIED_SINCE
  | TFW_TAG_HDR_PRAGMA
  | TFW_TAG_HDR_REFERER
  | TFW_TAG_HDR_X_FORWARDED_FOR
  | TFW_TAG_HDR_FORWARDED
  | TFW_TAG_HDR_USER_AGENT
  | TFW_TAG_HDR_TRANSFER_ENCODING
  | TFW_TAG_HDR_X_METHOD_OVERRIDE
  | TFW_TAG_HDR_RAW

abbreviation (input) TFW_TAG_HDR_ETAG :: TfwHPackTag where "TFW_TAG_HDR_ETAG \<equiv> TFW_TAG_HDR_IF_NONE_MATCH"
abbreviation (input) TFW_TAG_HDR_SERVER :: TfwHPackTag where "TFW_TAG_HDR_SERVER \<equiv> TFW_TAG_HDR_USER_AGENT"

text \<open>The union of parsed values is its bytes.\<close>

record TfwCachedHeaderState =
  cs_is_set :: bool
  cs_data :: "u8 list"

record TfwHPackEntry =
  en_hdr :: TfwStr
  en_name_len :: u64
  en_name_num :: u64
  en_tag :: TfwHPackTag
  en_last :: bool
  en_cstate :: TfwCachedHeaderState
  en_page :: nat

section \<open>The static table\<close>

definition HP_ENTRY :: "string \<Rightarrow> TfwStr \<Rightarrow> TfwHPackTag \<Rightarrow> TfwHPackEntry" where
  "HP_ENTRY name hdr tag =
     \<lparr>en_hdr = hdr, en_name_len = of_nat (length name), en_name_num = 1, en_tag = tag, en_last = False,
      en_cstate = \<lparr>cs_is_set = False, cs_data = []\<rparr>, en_page = 0\<rparr>"

definition HP_ENTRY_NAME :: "string \<Rightarrow> TfwHPackTag \<Rightarrow> TfwHPackEntry" where
  "HP_ENTRY_NAME name = HP_ENTRY name [bytes name]"

definition HP_ENTRY_FULL :: "string \<Rightarrow> string \<Rightarrow> TfwHPackTag \<Rightarrow> TfwHPackEntry" where
  "HP_ENTRY_FULL name val = HP_ENTRY name [bytes name, bytes val]"

definition static_table :: "TfwHPackEntry list" where
  "static_table = [
     HP_ENTRY_NAME '':authority'' TFW_TAG_HDR_H2_AUTHORITY,
     HP_ENTRY_FULL '':method'' ''GET'' TFW_TAG_HDR_H2_METHOD,
     HP_ENTRY_FULL '':method'' ''POST'' TFW_TAG_HDR_H2_METHOD,
     HP_ENTRY_FULL '':path'' ''/'' TFW_TAG_HDR_H2_PATH,
     HP_ENTRY_FULL '':path'' ''/index.html'' TFW_TAG_HDR_H2_PATH,
     HP_ENTRY_FULL '':scheme'' ''http'' TFW_TAG_HDR_H2_SCHEME,
     HP_ENTRY_FULL '':scheme'' ''https'' TFW_TAG_HDR_H2_SCHEME,
     HP_ENTRY_FULL '':status'' ''200'' TFW_TAG_HDR_H2_STATUS,
     HP_ENTRY_FULL '':status'' ''204'' TFW_TAG_HDR_H2_STATUS,
     HP_ENTRY_FULL '':status'' ''206'' TFW_TAG_HDR_H2_STATUS,
     HP_ENTRY_FULL '':status'' ''304'' TFW_TAG_HDR_H2_STATUS,
     HP_ENTRY_FULL '':status'' ''400'' TFW_TAG_HDR_H2_STATUS,
     HP_ENTRY_FULL '':status'' ''404'' TFW_TAG_HDR_H2_STATUS,
     HP_ENTRY_FULL '':status'' ''500'' TFW_TAG_HDR_H2_STATUS,
     HP_ENTRY_NAME ''accept-charset'' TFW_TAG_HDR_RAW,
     HP_ENTRY_FULL ''accept-encoding'' ''gzip, deflate'' TFW_TAG_HDR_RAW,
     HP_ENTRY_NAME ''accept-language'' TFW_TAG_HDR_RAW,
     HP_ENTRY_NAME ''accept-ranges'' TFW_TAG_HDR_RAW,
     HP_ENTRY_NAME ''accept'' TFW_TAG_HDR_ACCEPT,
     HP_ENTRY_NAME ''access-control-allow-origin'' TFW_TAG_HDR_RAW,
     HP_ENTRY_NAME ''age'' TFW_TAG_HDR_RAW,
     HP_ENTRY_NAME ''allow'' TFW_TAG_HDR_RAW,
     HP_ENTRY_NAME ''authorization'' TFW_TAG_HDR_AUTHORIZATION,
     HP_ENTRY_NAME ''cache-control'' TFW_TAG_HDR_CACHE_CONTROL,
     HP_ENTRY_NAME ''content-disposition'' TFW_TAG_HDR_RAW,
     HP_ENTRY_NAME ''content-encoding'' TFW_TAG_HDR_CONTENT_ENCODING,
     HP_ENTRY_NAME ''content-language'' TFW_TAG_HDR_RAW,
     HP_ENTRY_NAME ''content-length'' TFW_TAG_HDR_CONTENT_LENGTH,
     HP_ENTRY_NAME ''content-location'' TFW_TAG_HDR_RAW,
     HP_ENTRY_NAME ''content-range'' TFW_TAG_HDR_RAW,
     HP_ENTRY_NAME ''content-type'' TFW_TAG_HDR_CONTENT_TYPE,
     HP_ENTRY_NAME ''cookie'' TFW_TAG_HDR_COOKIE,
     HP_ENTRY_NAME ''date'' TFW_TAG_HDR_RAW,
     HP_ENTRY_NAME ''etag'' TFW_TAG_HDR_ETAG,
     HP_ENTRY_NAME ''expect'' TFW_TAG_HDR_EXPECT,
     HP_ENTRY_NAME ''expires'' TFW_TAG_HDR_RAW,
     HP_ENTRY_NAME ''from'' TFW_TAG_HDR_RAW,
     HP_ENTRY_NAME ''host'' TFW_TAG_HDR_HOST,
     HP_ENTRY_NAME ''if-match'' TFW_TAG_HDR_RAW,
     HP_ENTRY_NAME ''if-modified-since'' TFW_TAG_HDR_IF_MODIFIED_SINCE,
     HP_ENTRY_NAME ''if-none-match'' TFW_TAG_HDR_IF_NONE_MATCH,
     HP_ENTRY_NAME ''if-range'' TFW_TAG_HDR_RAW,
     HP_ENTRY_NAME ''if-unmodified-since'' TFW_TAG_HDR_RAW,
     HP_ENTRY_NAME ''last-modified'' TFW_TAG_HDR_RAW,
     HP_ENTRY_NAME ''link'' TFW_TAG_HDR_RAW,
     HP_ENTRY_NAME ''location'' TFW_TAG_HDR_RAW,
     HP_ENTRY_NAME ''max-forwards'' TFW_TAG_HDR_RAW,
     HP_ENTRY_NAME ''proxy-authenticate'' TFW_TAG_HDR_RAW,
     HP_ENTRY_NAME ''proxy-authorization'' TFW_TAG_HDR_RAW,
     HP_ENTRY_NAME ''range'' TFW_TAG_HDR_RAW,
     HP_ENTRY_NAME ''referer'' TFW_TAG_HDR_REFERER,
     HP_ENTRY_NAME ''refresh'' TFW_TAG_HDR_RAW,
     HP_ENTRY_NAME ''retry-after'' TFW_TAG_HDR_RAW,
     HP_ENTRY_NAME ''server'' TFW_TAG_HDR_SERVER,
     HP_ENTRY_NAME ''set-cookie'' TFW_TAG_HDR_RAW,
     HP_ENTRY_NAME ''strict-transport-security'' TFW_TAG_HDR_RAW,
     HP_ENTRY_NAME ''transfer-encoding'' TFW_TAG_HDR_TRANSFER_ENCODING,
     HP_ENTRY_NAME ''user-agent'' TFW_TAG_HDR_USER_AGENT,
     HP_ENTRY_NAME ''vary'' TFW_TAG_HDR_RAW,
     HP_ENTRY_NAME ''via'' TFW_TAG_HDR_RAW,
     HP_ENTRY_NAME ''www-authenticate'' TFW_TAG_HDR_RAW]"

abbreviation (input) HPACK_STATIC_ENTRIES :: u32 where "HPACK_STATIC_ENTRIES \<equiv> 61"
abbreviation (input) HPACK_STATIC_TABLE_REGULAR :: nat where "HPACK_STATIC_TABLE_REGULAR \<equiv> 14"

text \<open>
  The binary search for a name; \<open>first\<close> is \<^verbatim>\<open>tolower()\<close> of the first byte.  The name of a static entry is
  its first chunk.
\<close>

function find_hdr_loop :: "u8 \<Rightarrow> TfwStr \<Rightarrow> nat \<Rightarrow> nat \<Rightarrow> nat option" where
  "find_hdr_loop fc h start fin =
     (if start < fin then
        let m = (start + fin) div 2; sh = en_hdr (static_table ! m); sc = hd (hd sh) in
        if length static_table \<le> m then None
        else
          case (if fc \<noteq> sc then Some (uint fc - uint sc) else tfw_stricmpspn h sh 58) of
            None \<Rightarrow> None
          | Some result \<Rightarrow>
              if result < 0 then find_hdr_loop fc h start m
              else if result > 0 then find_hdr_loop fc h (Suc m) fin
              else Some (Suc m)
      else Some 0)"
  by pat_completeness auto

termination
  by (relation "measure (\<lambda>(fc, h, start, fin). fin - start)") auto

declare find_hdr_loop.simps [simp del]

definition tfw_hpack_find_hdr_idx :: "(u8 \<Rightarrow> u8) \<Rightarrow> TfwStr \<Rightarrow> nat option" where
  "tfw_hpack_find_hdr_idx tolower h =
     (case h of
        (b # _) # _ \<Rightarrow> find_hdr_loop (tolower b) h HPACK_STATIC_TABLE_REGULAR (length static_table)
      | _ \<Rightarrow> None)"

definition tfw_hpack_entry_tag_valid :: "TfwHPackTag \<Rightarrow> bool" where
  "tfw_hpack_entry_tag_valid tag \<longleftrightarrow> tag \<in>
     {TFW_TAG_HDR_H2_METHOD, TFW_TAG_HDR_H2_SCHEME, TFW_TAG_HDR_H2_AUTHORITY, TFW_TAG_HDR_H2_PATH,
      TFW_TAG_HDR_ACCEPT, TFW_TAG_HDR_AUTHORIZATION, TFW_TAG_HDR_CACHE_CONTROL,
      TFW_TAG_HDR_CONTENT_ENCODING, TFW_TAG_HDR_CONTENT_LENGTH, TFW_TAG_HDR_CONTENT_TYPE,
      TFW_TAG_HDR_EXPECT, TFW_TAG_HDR_COOKIE, TFW_TAG_HDR_FORWARDED, TFW_TAG_HDR_HOST,
      TFW_TAG_HDR_IF_MODIFIED_SINCE, TFW_TAG_HDR_IF_NONE_MATCH, TFW_TAG_HDR_PRAGMA,
      TFW_TAG_HDR_REFERER, TFW_TAG_HDR_X_FORWARDED_FOR, TFW_TAG_HDR_USER_AGENT,
      TFW_TAG_HDR_TRANSFER_ENCODING, TFW_TAG_HDR_X_METHOD_OVERRIDE, TFW_TAG_HDR_RAW}"

section \<open>The dynamic table\<close>

abbreviation (input) HPACK_ENTRY_OVERHEAD :: u64 where "HPACK_ENTRY_OVERHEAD \<equiv> 32"

record TfwHPackDTbl =
  d_entries :: "TfwHPackEntry option list"
  d_n :: u32
  d_curr :: u32
  d_length :: u32
  d_size :: u32
  d_window :: u32
  d_wnd_update :: bool
  d_page :: nat
  d_freed :: "nat list"

text \<open>The decoder's part of \<^verbatim>\<open>tfw_hpack_init()\<close>; the context was zeroed before.\<close>

definition dec_tbl_init :: "u32 \<Rightarrow> TfwHPackDTbl" where
  "dec_tbl_init htbl_sz =
     \<lparr>d_entries = [], d_n = 0, d_curr = 0, d_length = 0, d_size = 0, d_window = htbl_sz,
      d_wnd_update = False, d_page = 0, d_freed = []\<rparr>"

definition str_len :: "TfwStr \<Rightarrow> u64" where
  "str_len s = of_nat (length (concat s))"

text \<open>\<^verbatim>\<open>entries + i\<close> and the header it points to.\<close>

definition entry_at :: "TfwHPackDTbl \<Rightarrow> u32 \<Rightarrow> TfwHPackEntry option" where
  "entry_at tbl i =
     (if unat i < length (d_entries tbl) then
        (case d_entries tbl ! unat i of
           None \<Rightarrow> None
         | Some e \<Rightarrow> if en_page e \<in> set (d_freed tbl) then None else Some e)
      else None)"

text \<open>\<^verbatim>\<open>tfw_pool_clean_single()\<close> frees neither the chunk in use nor the oldest one.\<close>

definition clean_single :: "nat \<Rightarrow> TfwHPackDTbl \<Rightarrow> TfwHPackDTbl" where
  "clean_single p tbl = (if p = d_page tbl \<or> p = 0 then tbl else tbl\<lparr>d_freed := p # d_freed tbl\<rparr>)"

definition drop_entry :: "TfwHPackEntry \<Rightarrow> TfwHPackDTbl \<Rightarrow> TfwHPackDTbl" where
  "drop_entry e tbl = (if en_last e then clean_single (en_page e) tbl else tbl)"

definition next_slot :: "u32 \<Rightarrow> TfwHPackDTbl \<Rightarrow> u32" where
  "next_slot i tbl = (if i + 1 = d_length tbl then 0 else i + 1)"

text \<open>The eldest entry.\<close>

definition early_slot :: "TfwHPackDTbl \<Rightarrow> u32" where
  "early_slot tbl =
     (if d_curr tbl \<ge> d_n tbl then d_curr tbl - d_n tbl else d_curr tbl + (d_length tbl - d_n tbl))"

text \<open>Entries are dropped until the size is within the limit; the loop runs at least once.\<close>

partial_function (option) evict_loop ::
    "u32 \<Rightarrow> u32 \<Rightarrow> u32 \<Rightarrow> u32 \<Rightarrow> TfwHPackDTbl \<Rightarrow> (u32 \<times> u32 \<times> TfwHPackDTbl) option" where
  [code]: "evict_loop limit early count sz tbl =
     (case entry_at tbl early of
        None \<Rightarrow> None
      | Some e \<Rightarrow>
          let sz = sz - ucast (HPACK_ENTRY_OVERHEAD + str_len (en_hdr e));
              tbl = drop_entry e tbl; early = next_slot early tbl; count = count - 1 in
          if sz > limit then evict_loop limit early count sz tbl else Some (count, sz, tbl))"

fun clean_loop :: "nat \<Rightarrow> u32 \<Rightarrow> TfwHPackDTbl \<Rightarrow> TfwHPackDTbl option" where
  "clean_loop 0 cur tbl = Some tbl"
| "clean_loop (Suc k) cur tbl =
     (case entry_at tbl cur of
        None \<Rightarrow> None
      | Some e \<Rightarrow> let tbl = drop_entry e tbl in clean_loop k (next_slot cur tbl) tbl)"

text \<open>
  The ring is full: a block of twice the length, at the same place or elsewhere.  The result are the
  entries and the new position; the second half of the ring is moved to the end, or the ring is
  unrolled.
\<close>

definition grow_entries :: "bool \<Rightarrow> TfwHPackEntry option list \<Rightarrow> u32 \<Rightarrow> u32 \<Rightarrow> TfwHPackEntry option list \<times> u32" where
  "grow_entries same es cur count =
     (let new = replicate (length es) None; wrap = unat cur in
      if cur = 0 \<and> same then (es @ new, count)
      else if same then (take (2 * length es - (length es - wrap)) (es @ new) @ drop wrap es, cur)
      else (drop wrap es @ take wrap es @ new, count))"

text \<open>What the decoded header looks like when it is added, and the outcome of the allocations.\<close>

record TfwMsgParseIter =
  it_hdr :: TfwStr
  it_plain :: bool
  it_nm_len :: u32
  it_nm_num :: u32
  it_tag :: TfwHPackTag

record hpack_mem =
  hm_entries :: "bool option"
  hm_hdr :: "bool option"

text \<open>
  \<^verbatim>\<open>tfw_hpack_set_entry()\<close> for the slot \<open>i\<close>; the result are the code and whether a new page was taken.
\<close>

definition tfw_hpack_set_entry ::
    "hpack_mem \<Rightarrow> TfwMsgParseIter \<Rightarrow> TfwCachedHeaderState \<Rightarrow> u32 \<Rightarrow> TfwHPackDTbl \<Rightarrow> (rc \<times> bool \<times> TfwHPackDTbl) option" where
  "tfw_hpack_set_entry M it cstate i tbl =
     (if length (d_entries tbl) \<le> unat i then None
      else
        let half = tbl\<lparr>d_entries := (d_entries tbl)[unat i :=
               map_option (\<lambda>e. e\<lparr>en_cstate := cstate\<rparr>) (d_entries tbl ! unat i)]\<rparr> in
        if it_plain it then Some (T_COMPRESSION, False, half)
        else case hm_hdr M of
            None \<Rightarrow> Some (ENOMEM, False, half)
          | Some np \<Rightarrow>
              let page = (if np then Suc (d_page tbl) else d_page tbl) in
              Some (T_OK, np, tbl\<lparr>d_page := page, d_entries := (d_entries tbl)[unat i :=
                Some \<lparr>en_hdr = it_hdr it, en_name_len = ucast (it_nm_len it), en_name_num = ucast (it_nm_num it),
                      en_tag = it_tag it, en_last = False, en_cstate = cstate, en_page = page\<rparr>]\<rparr>))"

definition mark_last :: "u32 \<Rightarrow> TfwHPackDTbl \<Rightarrow> TfwHPackDTbl" where
  "mark_last cur tbl =
     (let i = (if cur \<noteq> 0 then cur - 1 else d_length tbl - 1) in
      tbl\<lparr>d_entries := (d_entries tbl)[unat i := map_option (\<lambda>e. e\<lparr>en_last := True\<rparr>) (d_entries tbl ! unat i)]\<rparr>)"

text \<open>The part of \<^verbatim>\<open>tfw_hpack_add_index()\<close> from \<^verbatim>\<open>entry = entries + curr\<close> on.\<close>

definition add_entry ::
    "hpack_mem \<Rightarrow> TfwMsgParseIter \<Rightarrow> TfwCachedHeaderState \<Rightarrow> u32 \<Rightarrow> u32 \<Rightarrow> u32 \<Rightarrow> TfwHPackDTbl \<Rightarrow> (rc \<times> TfwHPackDTbl) option" where
  "add_entry M it cstate cur count new_size tbl =
     Option.bind (tfw_hpack_set_entry M it cstate cur tbl) (\<lambda>(r, new_page, tbl).
       if r \<noteq> T_OK then Some (r, tbl)
       else
         let tbl = (if count \<noteq> 0 \<and> new_page then mark_last cur tbl else tbl) in
         Some (T_OK, tbl\<lparr>d_curr := next_slot cur tbl, d_n := count + 1, d_size := new_size\<rparr>))"

definition tfw_hpack_add_index ::
    "hpack_mem \<Rightarrow> TfwMsgParseIter \<Rightarrow> TfwCachedHeaderState \<Rightarrow> TfwHPackDTbl \<Rightarrow> (rc \<times> TfwHPackDTbl) option" where
  "tfw_hpack_add_index M it cstate tbl =
     (let hdr_len = str_len (it_hdr it); count = d_n tbl; cur = d_curr tbl;
          delta = (ucast (HPACK_ENTRY_OVERHEAD + hdr_len) :: u32) in
      if ucast delta < hdr_len then Some (T_COMPRESSION, tbl)
      else
        let new_size = d_size tbl + delta in
        if new_size > d_window tbl \<or> new_size < delta then
          (if delta \<le> d_window tbl then do {
             (count, sz, tbl) \<leftarrow> evict_loop (d_window tbl - delta) (early_slot tbl) count (d_size tbl) tbl;
             add_entry M it cstate cur count (sz + delta) tbl
           }
           else if count = 0 then Some (T_OK, tbl)
           else map_option (\<lambda>tbl. (T_OK, tbl\<lparr>d_n := 0, d_curr := 0, d_size := 0\<rparr>))
                  (clean_loop (unat count) (early_slot tbl) tbl))
        else if count = d_length tbl then
          (case hm_entries M of
             None \<Rightarrow> Some (ENOMEM, tbl)
           | Some same \<Rightarrow>
               if d_length tbl \<noteq> 0 then
                 let (es, cur) = grow_entries same (d_entries tbl) cur count in
                 add_entry M it cstate cur count new_size
                   (tbl\<lparr>d_length := push_bit 1 (d_length tbl), d_entries := es\<rparr>)
               else
                 add_entry M it cstate cur count new_size
                   (tbl\<lparr>d_length := 32, d_entries := replicate 32 None\<rparr>))
        else add_entry M it cstate cur count new_size tbl)"

text \<open>
  \<^verbatim>\<open>tfw_hpack_find_index()\<close>: the inner \<open>None\<close> is the null pointer; an access outside of the tables is
  the outer one.
\<close>

definition tfw_hpack_find_index :: "TfwHPackDTbl \<Rightarrow> u32 \<Rightarrow> TfwHPackEntry option option" where
  "tfw_hpack_find_index tbl index =
     (let valid = (\<lambda>e. if tfw_hpack_entry_tag_valid (en_tag e) then Some e else None) in
      if index \<le> HPACK_STATIC_ENTRIES then
        (if index = 0 then None else Some (valid (static_table ! unat (index - 1))))
      else
        let index = index - HPACK_STATIC_ENTRIES in
        if index \<le> d_n tbl then
          map_option valid (entry_at tbl
            (if index \<le> d_curr tbl then d_curr tbl - index else d_curr tbl + (d_length tbl - index)))
        else Some None)"

definition tfw_hpack_set_length :: "u32 \<Rightarrow> u32 \<Rightarrow> TfwHPackDTbl \<Rightarrow> (rc \<times> TfwHPackDTbl) option" where
  "tfw_hpack_set_length max_window new_size tbl =
     (if new_size > max_window then Some (T_COMPRESSION, tbl)
      else if d_size tbl > new_size then
        map_option (\<lambda>(count, sz, tbl). (T_OK, tbl\<lparr>d_n := count, d_size := sz, d_window := new_size\<rparr>))
          (evict_loop new_size (early_slot tbl) (d_n tbl) (d_size tbl) tbl)
      else Some (T_OK, tbl\<lparr>d_window := new_size\<rparr>))"

end
