(* ===== verification/Spec2Isabelle.thy ===== *)
theory Spec2Isabelle
  imports VW_Prelude H2_Stream_Fsm H2_Stream_Props H2_Sched_Spec H2_Ctx_Spec H2_Conn_Spec H2_Frame_Spec H2_Recv_Spec
    H2_Xmit_Spec Hpack_Spec Hpack_Int_Spec Tfw_Str_Spec Hpack_Table
begin

text \<open>
  Vet-WAF verification development.

  \<^theory_text>\<open>H2_Stream_Fsm\<close> models the HTTP/2 stream state machine of
  \<^verbatim>\<open>src/fw/http_stream.c\<close>; \<^theory_text>\<open>H2_Stream_Props\<close> holds its properties.
\<close>

end
